(* ===== verification/Mmio.thy ===== *)
theory Mmio
  imports Gw_Prelude
begin

text \<open>
  The firmware's only contact with the world outside the processor is its memory-mapped
  peripheral registers. The hardware is a parameter: a state of any type \<open>'d\<close> and a record
  of the two bus operations. A register read returns a value and may change the state (a
  FIFO is popped, time passes), a write changes it. The third operation is the interrupt
  controller: the interrupt, if any, that it raises next while the program waits. Code that
  waits runs in the option monad; \<open>None\<close> stands for a wait that never ends.
\<close>

section \<open>Registers and bus operations\<close>

datatype irq = EINT1_IRQn | TIMER2_IRQn | SSP1_IRQn | RIT_IRQn | SysTick_IRQn

datatype reg =
    SC_SCS | SC_PLL0CON | SC_PLL0CFG | SC_PLL0FEED | SC_PLL0STAT | SC_CCLKCFG | SC_CLKSRCSEL
  | SC_PCONP | SC_PCLKSEL0 | SC_EXTMODE | SC_EXTPOLAR | SC_EXTINT | SC_PCON
  | PINSEL0 | PINSEL1 | PINSEL4
  | FIODIR nat | FIOSET nat | FIOCLR nat
  | SSP_CR0 nat | SSP_CR1 nat | SSP_CPSR nat | SSP_DR nat | SSP_SR nat | SSP_IMSC nat | SSP_MIS nat
  | TIM_IR nat | TIM_TCR nat | TIM_TC nat | TIM_PR nat | TIM_PC nat | TIM_MR0 nat | TIM_MCR nat
  | RIT_CTRL | RIT_MASK | RIT_COMPVAL | SYST_LOAD | SYST_VAL | SYST_CTRL
  | SCB_SCR | NVIC_ENABLE irq | NVIC_DISABLE irq | NVIC_PRIO irq

record 'd mmio =
  rd :: "reg \<Rightarrow> 'd \<Rightarrow> u32 \<times> 'd"
  wr :: "reg \<Rightarrow> u32 \<Rightarrow> 'd \<Rightarrow> 'd"
  intr :: "'d \<Rightarrow> irq option \<times> 'd"

text \<open>\<open>R |= v\<close>, \<open>R &= v\<close>: a read followed by a write.\<close>

definition reg_or :: "'d mmio \<Rightarrow> reg \<Rightarrow> u32 \<Rightarrow> 'd \<Rightarrow> 'd" where
  "reg_or m r v d = (case rd m r d of (x, d') \<Rightarrow> wr m r (x OR v) d')"

definition reg_and :: "'d mmio \<Rightarrow> reg \<Rightarrow> u32 \<Rightarrow> 'd \<Rightarrow> 'd" where
  "reg_and m r v d = (case rd m r d of (x, d') \<Rightarrow> wr m r (x AND v) d')"

text \<open>\<open>while (!P(R));\<close>\<close>

partial_function (option) poll :: "'d mmio \<Rightarrow> reg \<Rightarrow> (u32 \<Rightarrow> bool) \<Rightarrow> 'd \<Rightarrow> 'd option" where
  "poll m r P d = (case rd m r d of (v, d') \<Rightarrow> if P v then Some d' else poll m r P d')"

text \<open>The state after \<open>k\<close> reads of a register.\<close>

fun reads :: "'d mmio \<Rightarrow> reg \<Rightarrow> nat \<Rightarrow> 'd \<Rightarrow> 'd" where
  "reads m r 0 d = d"
| "reads m r (Suc k) d = reads m r k (snd (rd m r d))"

lemma reads_Suc: "snd (rd m r (reads m r k d)) = reads m r (Suc k) d"
  by (induction k arbitrary: d) simp_all

lemma poll_Some:
  assumes "\<And>j. j < k \<Longrightarrow> \<not> P (fst (rd m r (reads m r j d)))" and "P (fst (rd m r (reads m r k d)))"
  shows "poll m r P d = Some (reads m r (Suc k) d)"
  using assms
proof (induction k arbitrary: d)
  case 0
  then show ?case by (subst poll.simps) (simp add: case_prod_beta)
next
  case (Suc k)
  have "poll m r P (snd (rd m r d)) = Some (reads m r (Suc k) (snd (rd m r d)))"
    using Suc.prems by (intro Suc.IH) force+
  moreover have "\<not> P (fst (rd m r d))" using Suc.prems(1) [of 0] by simp
  ultimately show ?case by (subst poll.simps) (simp add: case_prod_beta)
qed

section \<open>The SSP (SPI) ports\<close>

text \<open>
  The byte transfer that \<open>SPI_Write\<close> of \<open>sd_spi.c\<close> performs on SSP 1 and \<open>rf212_xfer\<close> of
  \<open>rf212_functions.c\<close> on SSP 0: write the data register, wait until the port is not busy
  and its receive FIFO is not empty, read the data register.
\<close>

definition SSPSR_RNE :: u32 where "SSPSR_RNE = 0x4"
definition SSPSR_BSY :: u32 where "SSPSR_BSY = 0x10"

definition ssp_done :: "u32 \<Rightarrow> bool" where
  "ssp_done sr \<longleftrightarrow> sr AND (SSPSR_BSY OR SSPSR_RNE) = SSPSR_RNE"

definition ssp_transfer :: "'d mmio \<Rightarrow> nat \<Rightarrow> u8 \<Rightarrow> 'd \<Rightarrow> (u8 \<times> 'd) option" where
  "ssp_transfer m n data d =
     do {
       d \<leftarrow> poll m (SSP_SR n) ssp_done (wr m (SSP_DR n) (ucast data) d);
       (case rd m (SSP_DR n) d of (v, d) \<Rightarrow> Some (ucast v, d))
     }"

text \<open>
  What the user manual of the chip promises of the port: after a write to the data register
  the status register shows a finished transfer after some number of reads, and the data
  register then holds the octet that came back. \<open>exch\<close> is the effect of one exchanged
  octet as seen on the wire.
\<close>

locale ssp_port =
  fixes m :: "'d mmio" and n :: nat and exch :: "u8 \<Rightarrow> 'd \<Rightarrow> u8 \<times> 'd"
  assumes ssp_exchange:
    "\<exists>k. (\<forall>j<k. \<not> ssp_done (fst (rd m (SSP_SR n) (reads m (SSP_SR n) j (wr m (SSP_DR n) (ucast b) d))))) \<and>
         ssp_done (fst (rd m (SSP_SR n) (reads m (SSP_SR n) k (wr m (SSP_DR n) (ucast b) d)))) \<and>
         (case rd m (SSP_DR n) (reads m (SSP_SR n) (Suc k) (wr m (SSP_DR n) (ucast b) d)) of
            (v, d') \<Rightarrow> (ucast v, d') = exch b d)"
begin

lemma ssp_transfer_exch: "ssp_transfer m n b d = Some (exch b d)"
proof -
  from ssp_exchange [of b d] obtain k where
    "poll m (SSP_SR n) ssp_done (wr m (SSP_DR n) (ucast b) d) =
       Some (reads m (SSP_SR n) (Suc k) (wr m (SSP_DR n) (ucast b) d))"
    and "case rd m (SSP_DR n) (reads m (SSP_SR n) (Suc k) (wr m (SSP_DR n) (ucast b) d)) of
            (v, d') \<Rightarrow> (ucast v, d') = exch b d"
    by (metis poll_Some)
  then show ?thesis by (auto simp: ssp_transfer_def split: prod.splits)
qed

end

section \<open>Sequences of octets on a port\<close>

text \<open>Octets sent one after the other: the responses and the state afterwards.\<close>

fun exchanges :: "(u8 \<Rightarrow> 'd \<Rightarrow> u8 \<times> 'd) \<Rightarrow> u8 list \<Rightarrow> 'd \<Rightarrow> u8 list \<times> 'd" where
  "exchanges x [] d = ([], d)"
| "exchanges x (b # bs) d =
     (case x b d of (r, d) \<Rightarrow> case exchanges x bs d of (rs, d) \<Rightarrow> (r # rs, d))"

lemma exchanges_append:
  "exchanges x (bs @ cs) d =
     (case exchanges x bs d of (rs, d) \<Rightarrow> case exchanges x cs d of (rs', d) \<Rightarrow> (rs @ rs', d))"
  by (induction bs arbitrary: d) (auto split: prod.splits)

lemma snd_exchanges_append: "snd (exchanges x (bs @ cs) d) = snd (exchanges x cs (snd (exchanges x bs d)))"
  by (simp add: exchanges_append case_prod_beta)

lemma length_exchanges [simp]: "length (fst (exchanges x bs d)) = length bs"
  by (induction bs arbitrary: d) (simp_all add: case_prod_beta)

end
