(* ===== verification/Radio_If.thy ===== *)
theory Radio_If
  imports Mmio
begin

text \<open>
  The radio interface structure of \<open>src/inc/radio/radio.h\<close> and the constants of
  \<open>radio.h\<close>, \<open>radio_functions.h\<close> and \<open>ieee_frame.h\<close> that the driver uses. The function
  pointers of \<open>struct radif\<close> are fields that act on the hardware state \<open>'d\<close>; the receive
  callback is a name for the function, resolved where frames are delivered.
\<close>

section \<open>Frames\<close>

definition NUM_TXFRAMES :: nat where [simp]: "NUM_TXFRAMES = 8"
definition NUM_RXFRAMES :: nat where [simp]: "NUM_RXFRAMES = 8"

text \<open>The size of the data arrays, \<open>0x7F\<close>.\<close>

definition FRAME_DATA :: nat where [simp]: "FRAME_DATA = 127"

record rx_frame =
  rx_data :: "u8 list"
  rx_length :: u8
  crc_status :: u8
  energy_detect :: u8
  source_address :: u16

record tx_frame =
  tx_data :: "u8 list"
  tx_length :: u8
  tx_ack :: u8
  destination_address :: u16

datatype rx_callback_func = Rf212_rx_callback

section \<open>The interface\<close>

record 'd radif =
  RxProduceIndex :: u8
  RxConsumeIndex :: u8
  TxConsumeIndex :: u8
  TxProduceIndex :: u8
  RxFrames :: "rx_frame list"
  TxFrames :: "tx_frame list"
  Command :: u8
  CommandOutput :: u8
  clkm_config :: u8
  auto_crc_gen :: u8
  promiscuous :: u8
  freq :: u16
  power :: u8
  modulation :: u8
  pan_id :: u16
  short_address :: u16
  up :: u8
  seq :: u8
  rx_callback :: "rx_callback_func option"
  spi_start :: "'d \<Rightarrow> 'd"
  spi_stop :: "'d \<Rightarrow> 'd"
  spi_xfer :: "u8 \<Rightarrow> 'd \<Rightarrow> (u8 \<times> 'd) option"
  slptr_set :: "'d \<Rightarrow> 'd"
  slptr_clear :: "'d \<Rightarrow> 'd"
  reset_set :: "'d \<Rightarrow> 'd"
  reset_clear :: "'d \<Rightarrow> 'd"
  delay_us :: "u32 \<Rightarrow> 'd \<Rightarrow> 'd option"
  interrupt_trigger :: "'d \<Rightarrow> 'd"
  rx_success_count :: u16
  rx_overflow :: u16
  tx_success_count :: u16
  tx_channel_fail :: u16
  tx_noack :: u16
  tx_invalid :: u16
  last_trac_status :: u16

section \<open>Constants\<close>

definition BLANK_SPI_CHARACTER :: u8 where [simp]: "BLANK_SPI_CHARACTER = 0"

definition RADIF_NO_COMMAND :: u8 where [simp]: "RADIF_NO_COMMAND = 0"
definition RADIF_RESET :: u8 where [simp]: "RADIF_RESET = 1"
definition RADIF_STARTUP :: u8 where [simp]: "RADIF_STARTUP = 2"
definition RADIF_GET_RANDOM_NUMBER :: u8 where [simp]: "RADIF_GET_RANDOM_NUMBER = 3"
definition RADIF_SET_MODULATION :: u8 where [simp]: "RADIF_SET_MODULATION = 4"
definition RADIF_SET_FREQ :: u8 where [simp]: "RADIF_SET_FREQ = 5"
definition RADIF_SET_POWER :: u8 where [simp]: "RADIF_SET_POWER = 6"
definition RADIF_SET_ADDRESS :: u8 where [simp]: "RADIF_SET_ADDRESS = 7"
definition RADIF_ENERGY :: u8 where [simp]: "RADIF_ENERGY = 8"
definition RADIF_WAKE :: u8 where [simp]: "RADIF_WAKE = 9"
definition RADIF_SLEEP :: u8 where [simp]: "RADIF_SLEEP = 10"

definition RADIF_OQPSK_400KCHIPS_200KBITS_S :: u8 where [simp]: "RADIF_OQPSK_400KCHIPS_200KBITS_S = 0x09"
definition RADIF_OQPSK :: u8 where [simp]: "RADIF_OQPSK = 0x08"

definition RADIO_SUCCESS :: u8 where [simp]: "RADIO_SUCCESS = 0x40"
definition RADIO_UNSUPPORTED_DEVICE :: u8 where [simp]: "RADIO_UNSUPPORTED_DEVICE = 0x41"
definition RADIO_INVALID_ARGUMENT :: u8 where [simp]: "RADIO_INVALID_ARGUMENT = 0x42"
definition RADIO_TIMED_OUT :: u8 where [simp]: "RADIO_TIMED_OUT = 0x43"
definition RADIO_WRONG_STATE :: u8 where [simp]: "RADIO_WRONG_STATE = 0x44"

definition TRAC_SUCCESS :: u8 where [simp]: "TRAC_SUCCESS = 0"
definition TRAC_SUCCESS_DATA_PENDING :: u8 where [simp]: "TRAC_SUCCESS_DATA_PENDING = 1"
definition TRAC_CHANNEL_ACCESS_FAIL :: u8 where [simp]: "TRAC_CHANNEL_ACCESS_FAIL = 3"
definition TRAC_NO_ACK :: u8 where [simp]: "TRAC_NO_ACK = 5"

text \<open>Registers of the AT86RF212.\<close>

definition TRX_STATUS :: u8 where [simp]: "TRX_STATUS = 0x01"
definition TRX_STATE :: u8 where [simp]: "TRX_STATE = 0x02"
definition TRX_CTRL_0 :: u8 where [simp]: "TRX_CTRL_0 = 0x03"
definition TRX_CTRL_1 :: u8 where [simp]: "TRX_CTRL_1 = 0x04"
definition PHY_TX_PWR :: u8 where [simp]: "PHY_TX_PWR = 0x05"
definition PHY_RSSI :: u8 where [simp]: "PHY_RSSI = 0x06"
definition PHY_ED_LEVEL :: u8 where [simp]: "PHY_ED_LEVEL = 0x07"
definition TRX_CTRL_2 :: u8 where [simp]: "TRX_CTRL_2 = 0x0c"
definition IRQ_MASK :: u8 where [simp]: "IRQ_MASK = 0x0e"
definition IRQ_STATUS :: u8 where [simp]: "IRQ_STATUS = 0x0f"
definition CC_CTRL_0 :: u8 where [simp]: "CC_CTRL_0 = 0x13"
definition CC_CTRL_1 :: u8 where [simp]: "CC_CTRL_1 = 0x14"
definition RF_CTRL_0 :: u8 where [simp]: "RF_CTRL_0 = 0x16"
definition XAH_CTRL_1 :: u8 where [simp]: "XAH_CTRL_1 = 0x17"
definition PART_NUM :: u8 where [simp]: "PART_NUM = 0x1c"
definition VERSION_NUM :: u8 where [simp]: "VERSION_NUM = 0x1d"
definition SHORT_ADDR_0 :: u8 where [simp]: "SHORT_ADDR_0 = 0x20"
definition PAN_ID_0 :: u8 where [simp]: "PAN_ID_0 = 0x22"
definition XAH_CTRL_0 :: u8 where [simp]: "XAH_CTRL_0 = 0x2c"
definition CSMA_SEED_1 :: u8 where [simp]: "CSMA_SEED_1 = 0x2e"

definition RADIO_AUTO_CRC_GEN :: u8 where [simp]: "RADIO_AUTO_CRC_GEN = 0x20"
definition RADIO_PROMISCUOUS :: u8 where [simp]: "RADIO_PROMISCUOUS = 0x2"
definition RADIO_MAX_FRAME_RETRIES :: u8 where [simp]: "RADIO_MAX_FRAME_RETRIES = 3"
definition RADIO_MAX_CSMA_RETRIES :: u8 where [simp]: "RADIO_MAX_CSMA_RETRIES = 4"
definition CHB_FRM_VER :: u8 where [simp]: "CHB_FRM_VER = 1"
definition CHB_FVN_POS :: nat where [simp]: "CHB_FVN_POS = 6"
definition CHB_TRAC_STATUS_POS :: nat where [simp]: "CHB_TRAC_STATUS_POS = 5"
definition CHB_OQPSK_TX_OFFSET :: u8 where [simp]: "CHB_OQPSK_TX_OFFSET = 2"
definition CHB_BPSK_TX_OFFSET :: u8 where [simp]: "CHB_BPSK_TX_OFFSET = 3"

definition TIME_RST_PULSE_WIDTH :: u32 where [simp]: "TIME_RST_PULSE_WIDTH = 1"
definition TIME_P_ON_WAIT :: u32 where [simp]: "TIME_P_ON_WAIT = 400"
definition TIME_SLEEP_TO_TRX_OFF :: u32 where [simp]: "TIME_SLEEP_TO_TRX_OFF = 380"
definition TIME_TRX_OFF_TO_PLL_ON :: u32 where [simp]: "TIME_TRX_OFF_TO_PLL_ON = 200"
definition TIME_RX_ON_TO_PLL_ON :: u32 where [simp]: "TIME_RX_ON_TO_PLL_ON = 1"
definition TIME_ALL_STATES_TRX_OFF :: u32 where [simp]: "TIME_ALL_STATES_TRX_OFF = 1"
definition TIME_PLL_LOCK_TIME :: u32 where [simp]: "TIME_PLL_LOCK_TIME = 200"

definition CMD_TX_START :: u8 where [simp]: "CMD_TX_START = 2"
definition CMD_FORCE_TRX_OFF :: u8 where [simp]: "CMD_FORCE_TRX_OFF = 3"
definition CMD_PLL_ON :: u8 where [simp]: "CMD_PLL_ON = 9"

definition BUSY_RX :: u8 where [simp]: "BUSY_RX = 1"
definition BUSY_TX :: u8 where [simp]: "BUSY_TX = 2"
definition RX_ON :: u8 where [simp]: "RX_ON = 6"
definition TRX_OFF :: u8 where [simp]: "TRX_OFF = 8"
definition PLL_ON :: u8 where [simp]: "PLL_ON = 9"
definition BUSY_RX_AACK :: u8 where [simp]: "BUSY_RX_AACK = 17"
definition BUSY_TX_ARET :: u8 where [simp]: "BUSY_TX_ARET = 18"
definition RX_AACK_ON :: u8 where [simp]: "RX_AACK_ON = 22"
definition TX_ARET_ON :: u8 where [simp]: "TX_ARET_ON = 25"
definition BUSY_RX_AACK_NOCLK :: u8 where [simp]: "BUSY_RX_AACK_NOCLK = 30"

definition AT86RF212_VER_NUM :: u8 where [simp]: "AT86RF212_VER_NUM = 0x01"
definition AT86RF212_PART_NUM :: u8 where [simp]: "AT86RF212_PART_NUM = 0x07"

definition RADIO_SPI_CMD_RW :: u8 where [simp]: "RADIO_SPI_CMD_RW = 0xC0"
definition RADIO_SPI_CMD_RR :: u8 where [simp]: "RADIO_SPI_CMD_RR = 0x80"
definition RADIO_SPI_CMD_FW :: u8 where [simp]: "RADIO_SPI_CMD_FW = 0x60"
definition RADIO_SPI_CMD_FR :: u8 where [simp]: "RADIO_SPI_CMD_FR = 0x20"
definition RADIO_SPI_CMD_SW :: u8 where [simp]: "RADIO_SPI_CMD_SW = 0x40"
definition RADIO_SPI_CMD_SR :: u8 where [simp]: "RADIO_SPI_CMD_SR = 0x00"

definition RADIO_IRQ_CCA_ED_DONE :: u8 where [simp]: "RADIO_IRQ_CCA_ED_DONE = 0x10"
definition RADIO_IRQ_TRX_END :: u8 where [simp]: "RADIO_IRQ_TRX_END = 0x08"
definition RADIO_IRQ_RX_START :: u8 where [simp]: "RADIO_IRQ_RX_START = 0x04"

definition FCF_PAN_ID_COMPRESSION :: u16 where [simp]: "FCF_PAN_ID_COMPRESSION = 0x40"
definition FCF_ACKNOWLEDGE_REQUEST :: u16 where [simp]: "FCF_ACKNOWLEDGE_REQUEST = 0x20"
definition FRAME_TYPE_DATA :: u16 where [simp]: "FRAME_TYPE_DATA = 1"
definition FRAME_VERSION_IEEE_2006 :: u16 where [simp]: "FRAME_VERSION_IEEE_2006 = 1"
definition FRAME_PAN_ID_16BIT_ADDR :: u16 where [simp]: "FRAME_PAN_ID_16BIT_ADDR = 2"
definition FRAME_PAN_ID_64BIT_ADDR :: u16 where [simp]: "FRAME_PAN_ID_64BIT_ADDR = 3"

end
