(* ===== verification/Radio_Functions.thy ===== *)
theory Radio_Functions
  imports Radio_If
begin

text \<open>
  The functions of \<open>src/src/radio/radio_functions.c\<close> and \<open>src/src/radio/ieee_frame.c\<close>: register,
  frame and memory access of the AT86RF212 over SPI, its state changes and its
  configuration. A function takes the interface and the hardware state; it returns the new
  interface only where it changes it. \<open>None\<close> stands for code that never returns and for an
  access outside of an array.
\<close>

section \<open>Octets\<close>

text \<open>\<open>radif->spi_xfer\<close> of a list of octets in turn.\<close>

fun xfers :: "'d radif \<Rightarrow> u8 list \<Rightarrow> 'd \<Rightarrow> (u8 list \<times> 'd) option" where
  "xfers r [] d = Some ([], d)"
| "xfers r (b # bs) d =
     do { (x, d) \<leftarrow> spi_xfer r b d; (xs, d) \<leftarrow> xfers r bs d; Some (x # xs, d) }"

section \<open>Registers\<close>

definition radio_reg_read :: "u8 \<Rightarrow> 'd radif \<Rightarrow> 'd \<Rightarrow> (u8 \<times> 'd) option" where
  "radio_reg_read addr r d =
     do { let d = spi_start r d;
          (_, d) \<leftarrow> spi_xfer r (addr OR RADIO_SPI_CMD_RR) d;
          (val, d) \<leftarrow> spi_xfer r BLANK_SPI_CHARACTER d;
          Some (val, spi_stop r d) }"

definition radio_reg_read16 :: "u8 \<Rightarrow> 'd radif \<Rightarrow> 'd \<Rightarrow> (u16 \<times> 'd) option" where
  "radio_reg_read16 addr r d =
     do { (lo, d) \<leftarrow> radio_reg_read addr r d;
          (hi, d) \<leftarrow> radio_reg_read (addr + 1) r d;
          Some (ucast lo OR push_bit 8 (ucast hi), d) }"

definition radio_reg_write :: "u8 \<Rightarrow> u8 \<Rightarrow> 'd radif \<Rightarrow> 'd \<Rightarrow> 'd option" where
  "radio_reg_write addr val r d =
     do { let d = spi_start r d;
          (_, d) \<leftarrow> spi_xfer r (addr OR RADIO_SPI_CMD_RW) d;
          (_, d) \<leftarrow> spi_xfer r val d;
          Some (spi_stop r d) }"

definition radio_reg_write16 :: "u8 \<Rightarrow> u16 \<Rightarrow> 'd radif \<Rightarrow> 'd \<Rightarrow> 'd option" where
  "radio_reg_write16 addr val r d =
     do { d \<leftarrow> radio_reg_write addr (ucast val) r d;
          radio_reg_write (addr + 1) (ucast (drop_bit 8 val)) r d }"

fun radio_reg_write_list :: "u8 \<Rightarrow> u8 list \<Rightarrow> 'd radif \<Rightarrow> 'd \<Rightarrow> 'd option" where
  "radio_reg_write_list addr [] r d = Some d"
| "radio_reg_write_list addr (v # vs) r d =
     do { d \<leftarrow> radio_reg_write addr v r d; radio_reg_write_list (addr + 1) vs r d }"

definition radio_reg_write64 :: "u8 \<Rightarrow> u8 list \<Rightarrow> 'd radif \<Rightarrow> 'd \<Rightarrow> 'd option" where
  "radio_reg_write64 addr val r d = radio_reg_write_list addr (take 8 val) r d"

definition radio_reg_read_mod_write :: "u8 \<Rightarrow> u8 \<Rightarrow> u8 \<Rightarrow> 'd radif \<Rightarrow> 'd \<Rightarrow> 'd option" where
  "radio_reg_read_mod_write addr val msk r d =
     do { (tmp, d) \<leftarrow> radio_reg_read addr r d;
          radio_reg_write addr ((tmp AND NOT msk) OR (val AND msk)) r d }"

section \<open>The IEEE 802.15.4 header (ieee\_frame.c)\<close>

definition write_spi_word :: "u16 \<Rightarrow> 'd radif \<Rightarrow> 'd \<Rightarrow> 'd option" where
  "write_spi_word word r d =
     do { (_, d) \<leftarrow> spi_xfer r (ucast (word AND 0xFF)) d;
          (_, d) \<leftarrow> spi_xfer r (ucast (drop_bit 8 word AND 0xFF)) d;
          Some d }"

definition read_spi_word :: "'d radif \<Rightarrow> 'd \<Rightarrow> (u16 \<times> 'd) option" where
  "read_spi_word r d =
     do { (lsb, d) \<leftarrow> spi_xfer r BLANK_SPI_CHARACTER d;
          (msb, d) \<leftarrow> spi_xfer r BLANK_SPI_CHARACTER d;
          Some (push_bit 8 (ucast msb) OR ucast lsb, d) }"

definition ieee_header_len :: "tx_frame \<Rightarrow> u8" where
  "ieee_header_len tx = 9"

definition ieee_fcf :: "tx_frame \<Rightarrow> u16" where
  "ieee_fcf tx =
     (let fcf = push_bit 14 FRAME_PAN_ID_16BIT_ADDR OR push_bit 12 FRAME_VERSION_IEEE_2006 OR
            push_bit 10 FRAME_PAN_ID_16BIT_ADDR OR FCF_PAN_ID_COMPRESSION OR FRAME_TYPE_DATA
      in if tx_ack tx > 0 then fcf OR FCF_ACKNOWLEDGE_REQUEST else fcf)"

definition write_out_ieee_header :: "tx_frame \<Rightarrow> 'd radif \<Rightarrow> 'd \<Rightarrow> ('d radif \<times> 'd) option" where
  "write_out_ieee_header tx r d =
     do { d \<leftarrow> write_spi_word (ieee_fcf tx) r d;
          (_, d) \<leftarrow> spi_xfer r (seq r) d;
          let r = r\<lparr>seq := seq r + 1\<rparr>;
          d \<leftarrow> write_spi_word (pan_id r) r d;
          d \<leftarrow> write_spi_word (destination_address tx) r d;
          d \<leftarrow> write_spi_word (short_address r) r d;
          Some (r, d) }"

text \<open>The number of octets read and the frame with its source address.\<close>

definition read_in_ieee_header ::
  "rx_frame \<Rightarrow> 'd radif \<Rightarrow> 'd \<Rightarrow> (u8 \<times> rx_frame \<times> 'd) option" where
  "read_in_ieee_header rx r d =
     do { (fcf, d) \<leftarrow> read_spi_word r d;
          let pan_id_compression = fcf AND FCF_PAN_ID_COMPRESSION;
          let dest_addr_mode = drop_bit 10 fcf AND 0x3;
          let src_addr_mode = drop_bit 14 fcf AND 0x3;
          (sq, d) \<leftarrow> spi_xfer r BLANK_SPI_CHARACTER d;
          let rd = 3;
          (rd, d) \<leftarrow>
            (if dest_addr_mode = FRAME_PAN_ID_16BIT_ADDR then
               do { (_, d) \<leftarrow> read_spi_word r d; (_, d) \<leftarrow> read_spi_word r d; Some (rd + 4, d) }
             else if dest_addr_mode = FRAME_PAN_ID_64BIT_ADDR then
               do { (_, d) \<leftarrow> read_spi_word r d; Some (rd + 2, d) }
             else Some (rd, d));
          if src_addr_mode = FRAME_PAN_ID_16BIT_ADDR then
            do { (rd, d) \<leftarrow> (if pan_id_compression \<noteq> 0 then Some (rd, d)
                            else do { (_, d) \<leftarrow> read_spi_word r d; Some (rd + 2, d) });
                 (src, d) \<leftarrow> read_spi_word r d;
                 Some (rd + 2, rx\<lparr>source_address := src\<rparr>, d) }
          else if src_addr_mode = FRAME_PAN_ID_64BIT_ADDR then
            (if pan_id_compression \<noteq> 0 then Some (rd, rx, d)
             else do { (_, d) \<leftarrow> read_spi_word r d; Some (rd + 2, rx, d) })
          else Some (rd, rx, d) }"

section \<open>Frames and memory\<close>

text \<open>
  \<open>rx->length\<close> is computed in eight bits. The copy loop writes \<open>rx->data[0 .. length)\<close>, which is
  inside of the array only up to 127 octets.
\<close>

definition radio_frame_read :: "rx_frame \<Rightarrow> 'd radif \<Rightarrow> 'd \<Rightarrow> (u8 \<times> rx_frame \<times> 'd) option" where
  "radio_frame_read rx r d =
     do { let d = spi_start r d;
          (_, d) \<leftarrow> spi_xfer r RADIO_SPI_CMD_FR d;
          (mpdu_len, d) \<leftarrow> spi_xfer r BLANK_SPI_CHARACTER d;
          (hdr_len, rx, d) \<leftarrow> read_in_ieee_header rx r d;
          let rx = rx\<lparr>rx_length := mpdu_len - (hdr_len + 2)\<rparr>;
          if unat (rx_length rx) > FRAME_DATA then None
          else do {
            (bs, d) \<leftarrow> xfers r (replicate (unat (rx_length rx)) BLANK_SPI_CHARACTER) d;
            Some (0xFF, rx\<lparr>rx_data := bs @ drop (length bs) (rx_data rx)\<rparr>, spi_stop r d) } }"

definition radio_frame_read_dummy :: "'d radif \<Rightarrow> 'd \<Rightarrow> 'd option" where
  "radio_frame_read_dummy r d =
     do { let d = spi_start r d;
          (_, d) \<leftarrow> spi_xfer r RADIO_SPI_CMD_FR d;
          (len, d) \<leftarrow> spi_xfer r BLANK_SPI_CHARACTER d;
          (_, d) \<leftarrow> xfers r (replicate (unat len) BLANK_SPI_CHARACTER) d;
          Some (spi_stop r d) }"

definition radio_frame_write :: "tx_frame \<Rightarrow> 'd radif \<Rightarrow> 'd \<Rightarrow> ('d radif \<times> 'd) option" where
  "radio_frame_write tx r d =
     do { let d = spi_start r d;
          (_, d) \<leftarrow> spi_xfer r RADIO_SPI_CMD_FW d;
          let len = tx_length tx + ieee_header_len tx + 2;
          (_, d) \<leftarrow> spi_xfer r len d;
          if len > 127 then None
          else do {
            (r, d) \<leftarrow> write_out_ieee_header tx r d;
            (_, d) \<leftarrow> xfers r (take (unat (tx_length tx)) (tx_data tx)) d;
            (_, d) \<leftarrow> xfers r [BLANK_SPI_CHARACTER, BLANK_SPI_CHARACTER] d;
            Some (r, spi_stop r d) } }"

definition radio_sram_read :: "u8 \<Rightarrow> u8 \<Rightarrow> 'd radif \<Rightarrow> 'd \<Rightarrow> (u8 list \<times> 'd) option" where
  "radio_sram_read addr len r d =
     do { let d = spi_start r d;
          (_, d) \<leftarrow> spi_xfer r RADIO_SPI_CMD_SR d;
          (_, d) \<leftarrow> spi_xfer r addr d;
          (data, d) \<leftarrow> xfers r (replicate (unat len) BLANK_SPI_CHARACTER) d;
          Some (data, spi_stop r d) }"

definition radio_sram_write :: "u8 \<Rightarrow> u8 \<Rightarrow> u8 list \<Rightarrow> 'd radif \<Rightarrow> 'd \<Rightarrow> 'd option" where
  "radio_sram_write addr len data r d =
     do { let d = spi_start r d;
          (_, d) \<leftarrow> spi_xfer r RADIO_SPI_CMD_SW d;
          (_, d) \<leftarrow> spi_xfer r addr d;
          (_, d) \<leftarrow> xfers r (take (unat len) data) d;
          Some (spi_stop r d) }"

section \<open>State\<close>

definition radio_get_state :: "'d radif \<Rightarrow> 'd \<Rightarrow> (u8 \<times> 'd) option" where
  "radio_get_state r d = do { (v, d) \<leftarrow> radio_reg_read TRX_STATUS r d; Some (v AND 0x1f, d) }"

definition is_busy :: "u8 \<Rightarrow> bool" where
  "is_busy state \<longleftrightarrow> state = BUSY_RX \<or> state = BUSY_RX_AACK \<or> state = BUSY_RX_AACK_NOCLK \<or>
     state = BUSY_TX \<or> state = BUSY_TX_ARET"

definition radio_is_state_busy :: "'d radif \<Rightarrow> 'd \<Rightarrow> (bool \<times> 'd) option" where
  "radio_is_state_busy r d = do { (state, d) \<leftarrow> radio_get_state r d; Some (is_busy state, d) }"

definition radio_get_trac :: "'d radif \<Rightarrow> 'd \<Rightarrow> (u8 \<times> 'd) option" where
  "radio_get_trac r d =
     do { (v, d) \<leftarrow> radio_reg_read TRX_STATE r d; Some (drop_bit CHB_TRAC_STATUS_POS v, d) }"

text \<open>\<open>while (radio_get_state(radif) == s);\<close>\<close>

partial_function (option) radio_wait_leaves :: "u8 \<Rightarrow> 'd radif \<Rightarrow> 'd \<Rightarrow> 'd option" where
  "radio_wait_leaves s r d =
     do { (state, d) \<leftarrow> radio_get_state r d;
          if state = s then radio_wait_leaves s r d else Some d }"

definition radio_set_state :: "u8 \<Rightarrow> 'd radif \<Rightarrow> 'd \<Rightarrow> (u8 \<times> 'd) option" where
  "radio_set_state state r d =
     do { (curr_state, d) \<leftarrow> radio_get_state r d;
          if curr_state = state then Some (RADIO_SUCCESS, d)
          else do {
            d \<leftarrow> (if curr_state = BUSY_TX_ARET \<or> curr_state = BUSY_RX_AACK \<or> curr_state = BUSY_RX \<or> curr_state = BUSY_TX
                 then radio_wait_leaves curr_state r d else Some d);
            d \<leftarrow> (if state = TRX_OFF then
                   do { d \<leftarrow> radio_reg_read_mod_write TRX_STATE CMD_FORCE_TRX_OFF 0x1f r (slptr_clear r d);
                        delay_us r TIME_ALL_STATES_TRX_OFF d }
                 else if state = TX_ARET_ON then
                   (if curr_state = RX_AACK_ON then
                      do { d \<leftarrow> radio_reg_read_mod_write TRX_STATE CMD_PLL_ON 0x1f r d;
                           delay_us r TIME_RX_ON_TO_PLL_ON d }
                    else Some d)
                 else if state = RX_AACK_ON then
                   (if curr_state = TX_ARET_ON then
                      do { d \<leftarrow> radio_reg_read_mod_write TRX_STATE CMD_PLL_ON 0x1f r d;
                           delay_us r TIME_RX_ON_TO_PLL_ON d }
                    else Some d)
                 else Some d);
            d \<leftarrow> radio_reg_read_mod_write TRX_STATE state 0x1f r d;
            d \<leftarrow> delay_us r (if curr_state = TRX_OFF then TIME_TRX_OFF_TO_PLL_ON else TIME_RX_ON_TO_PLL_ON) d;
            (now, d) \<leftarrow> radio_get_state r d;
            Some (if now = state then RADIO_SUCCESS else RADIO_TIMED_OUT, d) } }"

section \<open>Properties of the radio\<close>

definition radio_set_modulation :: "'d radif \<Rightarrow> 'd \<Rightarrow> 'd option" where
  "radio_set_modulation r d =
     do { (_, d) \<leftarrow> radio_set_state TRX_OFF r d;
          d \<leftarrow> radio_reg_read_mod_write TRX_CTRL_2 (modulation r) 0x3F r d;
          if modulation r AND RADIF_OQPSK \<noteq> 0
          then radio_reg_read_mod_write RF_CTRL_0 CHB_OQPSK_TX_OFFSET 0x3 r d
          else radio_reg_read_mod_write RF_CTRL_0 CHB_BPSK_TX_OFFSET 0x3 r d }"

text \<open>The band and channel number of a frequency, \<open>None\<close> for an unknown one.\<close>

definition freq_band :: "u16 \<Rightarrow> (u8 \<times> u8) option" where
  "freq_band f =
     (if 7690 \<le> f \<and> f \<le> 7945 then Some (1, ucast (f - 7690))
      else if 8570 \<le> f \<and> f \<le> 8825 then Some (2, ucast (f - 8570))
      else if 9030 \<le> f \<and> f \<le> 9285 then Some (3, ucast (f - 9030))
      else if 769 \<le> f \<and> f \<le> 863 then Some (4, ucast (f - 769))
      else if 833 \<le> f \<and> f \<le> 935 then Some (5, ucast (f - 833))
      else None)"

definition radio_set_freq :: "'d radif \<Rightarrow> 'd \<Rightarrow> (u8 \<times> 'd) option" where
  "radio_set_freq r d =
     (case freq_band (freq r) of
        None \<Rightarrow> Some (RADIO_INVALID_ARGUMENT, d)
      | Some (band, number) \<Rightarrow>
          do { d \<leftarrow> radio_reg_read_mod_write CC_CTRL_1 band 0x7 r d;
               d \<leftarrow> radio_reg_write CC_CTRL_0 number r d;
               (state, d) \<leftarrow> radio_get_state r d;
               d \<leftarrow> (if state = RX_ON \<or> state = PLL_ON then delay_us r TIME_PLL_LOCK_TIME d else Some d);
               Some (RADIO_SUCCESS, d) })"

definition radio_set_pwr :: "'d radif \<Rightarrow> 'd \<Rightarrow> 'd option" where
  "radio_set_pwr r d = radio_reg_write PHY_TX_PWR (power r) r d"

definition radio_set_address :: "'d radif \<Rightarrow> 'd \<Rightarrow> 'd option" where
  "radio_set_address r d =
     do { d \<leftarrow> radio_reg_write16 PAN_ID_0 (pan_id r) r d;
          radio_reg_write16 SHORT_ADDR_0 (short_address r) r d }"

section \<open>Wake, sleep and miscellany\<close>

definition radio_sleep :: "'d radif \<Rightarrow> 'd \<Rightarrow> 'd option" where
  "radio_sleep r d = do { (_, d) \<leftarrow> radio_set_state TRX_OFF r d; Some (slptr_set r d) }"

definition radio_wake :: "'d radif \<Rightarrow> 'd \<Rightarrow> 'd option" where
  "radio_wake r d =
     do { d \<leftarrow> delay_us r TIME_SLEEP_TO_TRX_OFF (slptr_clear r d);
          (_, d) \<leftarrow> radio_set_state RX_AACK_ON r d;
          Some d }"

fun random_loop :: "nat list \<Rightarrow> u8 \<Rightarrow> 'd radif \<Rightarrow> 'd \<Rightarrow> (u8 \<times> 'd) option" where
  "random_loop [] rand r d = Some (rand, d)"
| "random_loop (i # is) rand r d =
     do { (v, d) \<leftarrow> radio_reg_read PHY_RSSI r d;
          random_loop is (rand OR drop_bit i (push_bit 1 v AND 0xC0)) r d }"

definition radio_get_random :: "'d radif \<Rightarrow> 'd \<Rightarrow> (u8 \<times> 'd) option" where
  "radio_get_random r d =
     do { (_, d) \<leftarrow> radio_set_state RX_ON r d; random_loop [0, 2, 4, 6] 0 r d }"

partial_function (option) radio_wait_irq :: "u8 \<Rightarrow> 'd radif \<Rightarrow> 'd \<Rightarrow> 'd option" where
  "radio_wait_irq msk r d =
     do { (v, d) \<leftarrow> radio_reg_read IRQ_STATUS r d;
          if v AND msk = 0 then radio_wait_irq msk r d else Some d }"

definition radio_measure_energy :: "'d radif \<Rightarrow> 'd \<Rightarrow> (u8 \<times> 'd) option" where
  "radio_measure_energy r d =
     do { (_, d) \<leftarrow> radio_set_state RX_ON r d;
          d \<leftarrow> radio_reg_write PHY_ED_LEVEL BLANK_SPI_CHARACTER r d;
          d \<leftarrow> radio_reg_read_mod_write IRQ_MASK RADIO_IRQ_CCA_ED_DONE RADIO_IRQ_CCA_ED_DONE r d;
          d \<leftarrow> radio_wait_irq RADIO_IRQ_CCA_ED_DONE r d;
          d \<leftarrow> radio_reg_read_mod_write IRQ_MASK 0 RADIO_IRQ_CCA_ED_DONE r d;
          radio_reg_read PHY_ED_LEVEL r d }"

section \<open>Reset and configuration\<close>

text \<open>
  The two bounded waits: \<open>k\<close> counts the iterations left before \<open>i++ > 100\<close> holds, starting
  at 101. The first result says whether the condition was met.
\<close>

fun reset_wait_id :: "nat \<Rightarrow> 'd radif \<Rightarrow> 'd \<Rightarrow> (bool \<times> 'd) option" where
  "reset_wait_id k r d =
     do { (ver, d) \<leftarrow> radio_reg_read VERSION_NUM r d;
          (bad, d) \<leftarrow> (if ver \<noteq> AT86RF212_VER_NUM then Some (True, d)
                      else do { (part, d) \<leftarrow> radio_reg_read PART_NUM r d; Some (part \<noteq> AT86RF212_PART_NUM, d) });
          if bad then (case k of 0 \<Rightarrow> Some (False, d) | Suc k \<Rightarrow> reset_wait_id k r d)
          else Some (True, d) }"

fun reset_wait_off :: "nat \<Rightarrow> 'd radif \<Rightarrow> 'd \<Rightarrow> (bool \<times> 'd) option" where
  "reset_wait_off k r d =
     do { (v, d) \<leftarrow> radio_reg_read TRX_STATUS r d;
          if v AND 0x1f \<noteq> TRX_OFF then (case k of 0 \<Rightarrow> Some (False, d) | Suc k \<Rightarrow> reset_wait_off k r d)
          else Some (True, d) }"

definition radio_reset :: "'d radif \<Rightarrow> 'd \<Rightarrow> (u8 \<times> 'd) option" where
  "radio_reset r d =
     do { let d = spi_stop r (slptr_clear r (reset_clear r d));
          d \<leftarrow> delay_us r TIME_P_ON_WAIT d;
          d \<leftarrow> delay_us r TIME_RST_PULSE_WIDTH (reset_set r d);
          let d = reset_clear r d;
          (found, d) \<leftarrow> reset_wait_id 101 r d;
          if \<not> found then Some (RADIO_UNSUPPORTED_DEVICE, d)
          else do {
            d \<leftarrow> radio_reg_read_mod_write TRX_CTRL_0 0x19 0x3F r d;
            d \<leftarrow> radio_reg_read_mod_write TRX_STATE CMD_FORCE_TRX_OFF 0x1F r d;
            d \<leftarrow> delay_us r TIME_ALL_STATES_TRX_OFF d;
            (off, d) \<leftarrow> reset_wait_off 101 r d;
            if \<not> off then Some (RADIO_WRONG_STATE, d)
            else do {
              (_, d) \<leftarrow> radio_reg_read IRQ_STATUS r d;
              d \<leftarrow> radio_reg_write IRQ_MASK 0 r d;
              Some (RADIO_SUCCESS, d) } } }"

definition radio_config :: "'d radif \<Rightarrow> 'd \<Rightarrow> ('d radif \<times> 'd) option" where
  "radio_config r d =
     do { d \<leftarrow> radio_reg_write XAH_CTRL_0 (push_bit 4 RADIO_MAX_FRAME_RETRIES OR push_bit 1 RADIO_MAX_CSMA_RETRIES) r d;
          d \<leftarrow> radio_reg_read_mod_write CSMA_SEED_1 (push_bit CHB_FVN_POS CHB_FRM_VER) (push_bit CHB_FVN_POS 3) r d;
          d \<leftarrow> radio_reg_write IRQ_MASK (RADIO_IRQ_RX_START OR RADIO_IRQ_TRX_END) r d;
          d \<leftarrow> (if auto_crc_gen r \<noteq> 0
               then radio_reg_read_mod_write TRX_CTRL_1 RADIO_AUTO_CRC_GEN RADIO_AUTO_CRC_GEN r d else Some d);
          d \<leftarrow> (if promiscuous r \<noteq> 0
               then radio_reg_read_mod_write XAH_CTRL_1 RADIO_PROMISCUOUS RADIO_PROMISCUOUS r d else Some d);
          (rand, d) \<leftarrow> radio_get_random r d;
          Some (r\<lparr>seq := rand\<rparr>, d) }"

end
