(* ===== verification/Radio_Chip.thy ===== *)
theory Radio_Chip
  imports Radio_Functions
begin

text \<open>
  The contract between the driver of \<open>radio_functions.c\<close> and the register file of the
  AT86RF212. The locale states, octet by octet, the register access protocol of the data
  sheet for the registers that keep what is written to them; its lemmas lift it to the
  access functions and the configuration functions. A reference chip interprets it.
\<close>

section \<open>The chip's contract\<close>

locale radio_chip =
  fixes r :: "'d radif" and ready :: "'d \<Rightarrow> bool" and regs :: "'d \<Rightarrow> u8 \<Rightarrow> u8" and plain :: "u8 set"
  assumes chip_read: "ready d \<Longrightarrow> a < 0x40 \<Longrightarrow>
      \<exists>x d1 v d2. spi_xfer r (a OR 0x80) (spi_start r d) = Some (x, d1) \<and> spi_xfer r 0 d1 = Some (v, d2) \<and>
        (a \<in> plain \<longrightarrow> v = regs d a) \<and> ready (spi_stop r d2) \<and>
        (\<forall>b \<in> plain. regs (spi_stop r d2) b = regs d b)"
    and chip_write: "ready d \<Longrightarrow> a \<in> plain \<Longrightarrow>
      \<exists>x d1 y d2. spi_xfer r (a OR 0xC0) (spi_start r d) = Some (x, d1) \<and> spi_xfer r v d1 = Some (y, d2) \<and>
        ready (spi_stop r d2) \<and>
        (\<forall>b \<in> plain. regs (spi_stop r d2) b = (if b = a then v else regs d b))"
    and chip_delay: "ready d \<Longrightarrow> \<exists>d'. delay_us r us d = Some d' \<and> ready d' \<and> (\<forall>b \<in> plain. regs d' b = regs d b)"
    and plain_range: "a \<in> plain \<Longrightarrow> a < 0x40"
begin

lemma reg_read:
  assumes "ready d" "a < 0x40"
  shows "\<exists>v d'. radio_reg_read a r d = Some (v, d') \<and> (a \<in> plain \<longrightarrow> v = regs d a) \<and> ready d' \<and>
    (\<forall>b \<in> plain. regs d' b = regs d b)"
  using chip_read [OF assms] by (auto simp: radio_reg_read_def Let_def)

lemma reg_write:
  assumes "ready d" "a \<in> plain"
  shows "\<exists>d'. radio_reg_write a v r d = Some d' \<and> ready d' \<and>
    (\<forall>b \<in> plain. regs d' b = (if b = a then v else regs d b))"
  using chip_write [OF assms, of v] by (auto simp: radio_reg_write_def Let_def)

lemma reg_rmw:
  assumes "ready d" "a \<in> plain"
  shows "\<exists>d'. radio_reg_read_mod_write a v msk r d = Some d' \<and> ready d' \<and>
    (\<forall>b \<in> plain. regs d' b = (if b = a then (regs d a AND NOT msk) OR (v AND msk) else regs d b))"
proof -
  from reg_read [OF assms(1) plain_range [OF assms(2)]] assms(2) obtain d1 where
    1: "radio_reg_read a r d = Some (regs d a, d1)" "ready d1" "\<forall>b \<in> plain. regs d1 b = regs d b"
    by auto
  from reg_write [OF 1(2) assms(2), of "(regs d a AND NOT msk) OR (v AND msk)"] 1 show ?thesis
    by (auto simp: radio_reg_read_mod_write_def)
qed

lemma reg_write16:
  assumes "ready d" "a \<in> plain" "a + 1 \<in> plain"
  shows "\<exists>d'. radio_reg_write16 a v r d = Some d' \<and> ready d' \<and>
    (\<forall>b \<in> plain. regs d' b = (if b = a + 1 then ucast (drop_bit 8 v) else if b = a then ucast v else regs d b))"
proof -
  from reg_write [OF assms(1,2), of "ucast v"] obtain d1 where
    1: "radio_reg_write a (ucast v) r d = Some d1" "ready d1" "\<forall>b \<in> plain. regs d1 b = (if b = a then ucast v else regs d b)"
    by auto
  from reg_write [OF 1(2) assms(3), of "ucast (drop_bit 8 v)"] 1 show ?thesis
    by (auto simp: radio_reg_write16_def)
qed

lemma set_address:
  assumes "ready d" "{0x20, 0x21, 0x22, 0x23} \<subseteq> plain"
  shows "\<exists>d'. radio_set_address r d = Some d' \<and> ready d' \<and>
    (\<forall>b \<in> plain. regs d' b =
       (if b = 0x20 then ucast (short_address r) else if b = 0x21 then ucast (drop_bit 8 (short_address r))
        else if b = 0x22 then ucast (pan_id r) else if b = 0x23 then ucast (drop_bit 8 (pan_id r)) else regs d b))"
proof -
  from reg_write16 [OF assms(1), of "0x22" "pan_id r"] assms(2) obtain d1 where
    1: "radio_reg_write16 0x22 (pan_id r) r d = Some d1" "ready d1"
      "\<forall>b \<in> plain. regs d1 b = (if b = 0x23 then ucast (drop_bit 8 (pan_id r)) else if b = 0x22 then ucast (pan_id r) else regs d b)"
    by auto
  from reg_write16 [OF 1(2), of "0x20" "short_address r"] assms(2) 1 show ?thesis
    by (auto simp: radio_set_address_def)
qed

lemma set_freq:
  assumes "ready d" "{0x13, 0x14} \<subseteq> plain" "freq_band (freq r) = Some (band, number)"
  shows "\<exists>d'. radio_set_freq r d = Some (RADIO_SUCCESS, d') \<and> ready d' \<and>
    (\<forall>b \<in> plain. regs d' b =
       (if b = 0x14 then (regs d 0x14 AND NOT 7) OR (band AND 7) else if b = 0x13 then number else regs d b))"
proof -
  from reg_rmw [OF assms(1), of "0x14" band 7] assms(2) obtain d1 where
    1: "radio_reg_read_mod_write 0x14 band 7 r d = Some d1" "ready d1"
      "\<forall>b \<in> plain. regs d1 b = (if b = 0x14 then (regs d 0x14 AND NOT 7) OR (band AND 7) else regs d b)"
    by auto
  from reg_write [OF 1(2), of "0x13" number] assms(2) obtain d2 where
    2: "radio_reg_write 0x13 number r d1 = Some d2" "ready d2"
      "\<forall>b \<in> plain. regs d2 b = (if b = 0x13 then number else regs d1 b)"
    by auto
  from reg_read [OF 2(2), of TRX_STATUS] obtain v d3 where
    3: "radio_reg_read TRX_STATUS r d2 = Some (v, d3)" "ready d3" "\<forall>b \<in> plain. regs d3 b = regs d2 b"
    by auto
  from chip_delay [OF 3(2), of TIME_PLL_LOCK_TIME] obtain d4 where
    4: "delay_us r TIME_PLL_LOCK_TIME d3 = Some d4" "ready d4" "\<forall>b \<in> plain. regs d4 b = regs d3 b"
    by auto
  show ?thesis using 1 2 3 4 assms(3)
    by (cases "v AND 0x1f = RX_ON \<or> v AND 0x1f = PLL_ON") (auto simp: radio_set_freq_def radio_get_state_def)
qed

end

section \<open>A reference chip\<close>

record rchip =
  pending :: "u8 option"
  rfile :: "u8 \<Rightarrow> u8"

definition rchip_xfer :: "u8 \<Rightarrow> rchip \<Rightarrow> (u8 \<times> rchip) option" where
  "rchip_xfer b c =
     (case pending c of
        None \<Rightarrow> Some (0, c\<lparr>pending := Some b\<rparr>)
      | Some p \<Rightarrow>
          if p AND 0xC0 = 0xC0 then Some (0, c\<lparr>rfile := (rfile c)(p AND 0x3F := b)\<rparr>)
          else Some (rfile c (p AND 0x3F), c))"

definition rchip_radif :: "rchip radif" where
  "rchip_radif = \<lparr>RxProduceIndex = 0, RxConsumeIndex = 0, TxConsumeIndex = 0, TxProduceIndex = 0,
     RxFrames = [], TxFrames = [], Command = 0, CommandOutput = 0, clkm_config = 0, auto_crc_gen = 0,
     promiscuous = 0, freq = 8683, power = 0, modulation = 9, pan_id = 0x1234, short_address = 0x0001,
     up = 0xFF, seq = 7, rx_callback = None, spi_start = (\<lambda>c. c\<lparr>pending := None\<rparr>), spi_stop = (\<lambda>c. c),
     spi_xfer = rchip_xfer,
     slptr_set = (\<lambda>d. d), slptr_clear = (\<lambda>d. d), reset_set = (\<lambda>d. d), reset_clear = (\<lambda>d. d),
     delay_us = (\<lambda>_ d. Some d), interrupt_trigger = (\<lambda>d. d), rx_success_count = 0, rx_overflow = 0,
     tx_success_count = 0, tx_channel_fail = 0, tx_noack = 0, tx_invalid = 0, last_trac_status = 0\<rparr>"

lemma address_bits:
  assumes "a < (0x40 :: u8)"
  shows "(a OR 0x80) AND 0xC0 \<noteq> 0xC0" "(a OR 0xC0) AND 0xC0 = 0xC0" "(a OR 0x80) AND 0x3F = a" "(a OR 0xC0) AND 0x3F = a"
proof -
  have a: "a AND 0x3F = a"
  proof -
    have "unat (take_bit 6 a) = unat a"
      using assms by (simp add: unsigned_take_bit_eq take_bit_nat_eq_self word_less_nat_alt)
    then have "take_bit 6 a = a" by (simp only: word_unat_eq_iff)
    then show ?thesis by (simp add: take_bit_eq_mask mask_eq_exp_minus_1)
  qed
  have hi: "a AND 0xC0 = 0"
  proof -
    have "a AND 0xC0 = (a AND 0x3F) AND 0xC0" by (simp only: a)
    also have "\<dots> = 0" by (simp add: and.assoc)
    finally show ?thesis .
  qed
  show "(a OR 0x80) AND 0xC0 \<noteq> 0xC0" using hi by (simp add: bit.conj_disj_distrib2)
  show "(a OR 0xC0) AND 0xC0 = 0xC0" by simp
  show "(a OR 0x80) AND 0x3F = a" "(a OR 0xC0) AND 0x3F = a" using a by (simp_all add: bit.conj_disj_distrib2)
qed

interpretation ac: radio_chip rchip_radif "\<lambda>_. True" rfile "{a. a < 0x40}"
proof unfold_locales
  fix d :: rchip and a v :: u8
  assume "a < 0x40"
  then show "\<exists>x d1 v d2. spi_xfer rchip_radif (a OR 0x80) (spi_start rchip_radif d) = Some (x, d1) \<and>
      spi_xfer rchip_radif 0 d1 = Some (v, d2) \<and> (a \<in> {a. a < 0x40} \<longrightarrow> v = rfile d a) \<and> True \<and>
      (\<forall>b \<in> {a. a < 0x40}. rfile (spi_stop rchip_radif d2) b = rfile d b)"
    using address_bits [of a] by (simp add: rchip_radif_def rchip_xfer_def)
next
  fix d :: rchip and a v :: u8
  assume "a \<in> {a. a < 0x40}"
  then show "\<exists>x d1 y d2. spi_xfer rchip_radif (a OR 0xC0) (spi_start rchip_radif d) = Some (x, d1) \<and>
      spi_xfer rchip_radif v d1 = Some (y, d2) \<and> True \<and>
      (\<forall>b \<in> {a. a < 0x40}. rfile (spi_stop rchip_radif d2) b = (if b = a then v else rfile d b))"
    using address_bits [of a] by (simp add: rchip_radif_def rchip_xfer_def)
qed (simp_all add: rchip_radif_def)

section \<open>Properties\<close>

text \<open>The lowest frequency of each band, and its unit in kHz (Table 7-35 of the data sheet).\<close>

definition band_base :: "u8 \<Rightarrow> nat" where
  "band_base b = (if b = 1 then 769000 else if b = 2 then 857000 else if b = 3 then 903000
     else if b = 4 then 769000 else 833000)"

definition band_step :: "u8 \<Rightarrow> nat" where
  "band_step b = (if b \<le> 3 then 100 else 1000)"

text \<open>A frequency argument in kHz: four digits are tenths of a megahertz, three are megahertz.\<close>

definition freq_khz :: "u16 \<Rightarrow> nat" where
  "freq_khz f = (if f < 1000 then unat f * 1000 else unat f * 100)"

lemma ucast_offset:
  assumes "c \<le> unat (f :: u16)" "unat f - c < 256" "c < 65536"
  shows "unat (ucast (f - of_nat c) :: u8) = unat f - c"
proof -
  have c: "unat (of_nat c :: u16) = c" using assms(3) by (intro unat_of_nat_small) simp
  have "unat (f - of_nat c) = unat f - c" using assms(1) c by (subst unat_sub) (simp_all add: word_le_nat_alt)
  then show ?thesis using assms(2) by (simp add: unsigned_ucast_eq take_bit_nat_eq_self)
qed

text \<open>
  Channel selection. For every frequency inside one of the radio's five bands
  \<open>radio_set_freq\<close> programs a band and a channel number that the data sheet translates back
  into exactly that frequency; for every other frequency it reports an invalid argument and
  touches no register.
\<close>

theorem radio_set_freq_exact:
  assumes "radio_chip r ready regs plain" and "ready d" and "{0x13, 0x14} \<subseteq> plain"
  shows "\<exists>v d'. radio_set_freq r d = Some (v, d') \<and> ready d' \<and>
    (if v = RADIO_SUCCESS then
       freq_khz (freq r) = band_base (regs d' 0x14 AND 7) + band_step (regs d' 0x14 AND 7) * unat (regs d' 0x13)
     else v = RADIO_INVALID_ARGUMENT \<and> d' = d \<and> freq_band (freq r) = None)"
proof (cases "freq_band (freq r)")
  case None
  then show ?thesis using assms(2) by (simp add: radio_set_freq_def)
next
  case (Some bn)
  then obtain band number where b: "freq_band (freq r) = Some (band, number)" by (cases bn) auto
  from radio_chip.set_freq [OF assms(1-3) b] obtain d' where
    1: "radio_set_freq r d = Some (RADIO_SUCCESS, d')" "ready d'"
      "regs d' 0x14 = (regs d 0x14 AND NOT 7) OR (band AND 7)" "regs d' 0x13 = number"
    using assms(3) by auto
  have f: "band \<in> {1, 2, 3, 4, 5} \<and> freq_khz (freq r) = band_base band + band_step band * unat number"
    using b ucast_offset [of 7690 "freq r"] ucast_offset [of 8570 "freq r"] ucast_offset [of 9030 "freq r"]
      ucast_offset [of 769 "freq r"] ucast_offset [of 833 "freq r"]
    by (auto simp: freq_band_def band_base_def band_step_def freq_khz_def word_le_nat_alt word_less_nat_alt
        split: if_splits)
  have "((regs d 0x14 AND NOT 7) OR (band AND 7)) AND 7 = band AND 7"
    by (simp add: bit.conj_disj_distrib2 and.assoc)
  moreover have "band AND 7 = band" using f by auto
  ultimately show ?thesis using 1 f by simp
qed

theorem radio_set_freq_exact_witness:
  "\<exists>d'. radio_set_freq rchip_radif \<lparr>pending = None, rfile = (\<lambda>_. 0xF8)\<rparr> = Some (RADIO_SUCCESS, d') \<and>
     868300 = band_base (rfile d' 0x14 AND 7) + band_step (rfile d' 0x14 AND 7) * unat (rfile d' 0x13)"
  using radio_set_freq_exact [OF ac.radio_chip_axioms, of "\<lparr>pending = None, rfile = (\<lambda>_. 0xF8)\<rparr>"]
  by (auto simp: rchip_radif_def freq_band_def freq_khz_def split: if_splits)

text \<open>
  Read-modify-write. On a register that keeps its value, \<open>radio_reg_read_mod_write\<close> replaces
  exactly the bits of the mask by those of the argument and changes no other bit of this or
  any other such register.
\<close>

theorem radio_reg_rmw_bits:
  assumes "radio_chip r ready regs plain" and "ready d" and "a \<in> plain"
  shows "\<exists>d'. radio_reg_read_mod_write a val msk r d = Some d' \<and> ready d' \<and>
    (\<forall>b \<in> plain. \<forall>i. bit (regs d' b) i = (if b = a \<and> bit msk i then bit val i else bit (regs d b) i))"
proof -
  from radio_chip.reg_rmw [OF assms, of val msk] obtain d' where
    "radio_reg_read_mod_write a val msk r d = Some d'" "ready d'"
    "\<forall>b \<in> plain. regs d' b = (if b = a then (regs d a AND NOT msk) OR (val AND msk) else regs d b)"
    by auto
  then show ?thesis by (auto simp: bit_simps dest: bit_imp_le_length)
qed

theorem radio_reg_rmw_bits_witness:
  "\<exists>d'. radio_reg_read_mod_write 0x16 2 3 rchip_radif \<lparr>pending = None, rfile = (\<lambda>_. 0xF5)\<rparr> = Some d' \<and>
     bit (rfile d' 0x16) 1 \<and> \<not> bit (rfile d' 0x16) 0 \<and> bit (rfile d' 0x16) 4"
  using radio_reg_rmw_bits [OF ac.radio_chip_axioms, where d = "\<lparr>pending = None, rfile = (\<lambda>_. 0xF5)\<rparr>"
      and a = "0x16" and val = 2 and msk = 3]
  by auto

text \<open>
  Addressing. \<open>radio_set_address\<close> leaves the PAN identifier and the short address of the
  interface in the radio's filter registers, low octet first, and changes no other register.
\<close>

theorem radio_set_address_registers:
  assumes "radio_chip r ready regs plain" and "ready d" and "{0x20, 0x21, 0x22, 0x23} \<subseteq> plain"
  shows "\<exists>d'. radio_set_address r d = Some d' \<and>
    push_bit 8 (ucast (regs d' 0x23)) OR ucast (regs d' 0x22) = pan_id r \<and>
    push_bit 8 (ucast (regs d' 0x21)) OR ucast (regs d' 0x20) = short_address r \<and>
    (\<forall>b \<in> plain - {0x20, 0x21, 0x22, 0x23}. regs d' b = regs d b)"
proof -
  have join: "push_bit 8 (ucast (ucast (drop_bit 8 w) :: u8)) OR ucast (ucast w :: u8) = w" for w :: u16
    by (rule bit_word_eqI) (auto simp: bit_simps)
  from radio_chip.set_address [OF assms] assms(3) join show ?thesis by fastforce
qed

theorem radio_set_address_registers_witness:
  "\<exists>d'. radio_set_address rchip_radif \<lparr>pending = None, rfile = (\<lambda>_. 0)\<rparr> = Some d' \<and>
     push_bit 8 (ucast (rfile d' 0x23)) OR ucast (rfile d' 0x22) = (0x1234 :: u16)"
  using radio_set_address_registers [OF ac.radio_chip_axioms, of "\<lparr>pending = None, rfile = (\<lambda>_. 0)\<rparr>"]
  by (auto simp: rchip_radif_def)

end
