(* ===== verification/Lwip_Heap.thy ===== *)
theory Lwip_Heap
  imports Gw_Prelude "HOL-Library.Monad_Syntax"
begin

unbundle bit_operations_syntax

text \<open>
  The heap of the network stack (\<open>src/src/lwip/core/mem.c\<close>): one array of octets, cut into blocks that
  start with a header of two indexes and a flag. The array is a function from offsets to
  octets, a pointer into it is its offset from \<open>ram\<close>, and the headers are read and written octet by
  octet. A failing assertion holds the program for ever, which is \<open>None\<close>, as is an access outside
  the array. The mutex operations are empty in this configuration (\<open>NO_SYS\<close>).
\<close>

section \<open>Layout\<close>

definition LWIP_MEM_ALIGN_SIZE :: "u16 \<Rightarrow> u16" where
  "LWIP_MEM_ALIGN_SIZE sz = (sz + 4 - 1) AND NOT (4 - 1)"

definition MIN_SIZE_ALIGNED :: u16 where "MIN_SIZE_ALIGNED = LWIP_MEM_ALIGN_SIZE 12"
definition SIZEOF_STRUCT_MEM :: u16 where "SIZEOF_STRUCT_MEM = LWIP_MEM_ALIGN_SIZE 6"
definition MEM_SIZE_ALIGNED :: u16 where "MEM_SIZE_ALIGNED = LWIP_MEM_ALIGN_SIZE 0x7E94"

lemma layout [simp]: "MIN_SIZE_ALIGNED = 12" "SIZEOF_STRUCT_MEM = 8" "MEM_SIZE_ALIGNED = 32404"
  by (simp_all add: MIN_SIZE_ALIGNED_def SIZEOF_STRUCT_MEM_def MEM_SIZE_ALIGNED_def LWIP_MEM_ALIGN_SIZE_def)

record stats_mem =
  st_avail :: u16
  st_used :: u16
  st_max :: u16
  st_err :: u16
  st_illegal :: u16

record heapst =
  ram :: "int \<Rightarrow> u8"
  ram_end :: int
  lfree :: int
  mem_stats :: stats_mem

definition MEM_STATS_INC_USED :: "u16 \<Rightarrow> heapst \<Rightarrow> heapst" where
  "MEM_STATS_INC_USED y h =
     (let st = (mem_stats h)\<lparr>st_used := st_used (mem_stats h) + y\<rparr>
      in h\<lparr>mem_stats := if st_max st < st_used st then st\<lparr>st_max := st_used st\<rparr> else st\<rparr>)"

definition MEM_STATS_DEC_USED :: "u16 \<Rightarrow> heapst \<Rightarrow> heapst" where
  "MEM_STATS_DEC_USED y h = h\<lparr>mem_stats := (mem_stats h)\<lparr>st_used := st_used (mem_stats h) - y\<rparr>\<rparr>"

text \<open>The fields of a header, and \<open>&ram[i]\<close> as a pointer to a header inside the array.\<close>

definition load16 :: "(int \<Rightarrow> u8) \<Rightarrow> int \<Rightarrow> u16" where
  "load16 f a = ucast (f a) OR push_bit 8 (ucast (f (a + 1)))"

definition store16 :: "int \<Rightarrow> u16 \<Rightarrow> (int \<Rightarrow> u8) \<Rightarrow> int \<Rightarrow> u8" where
  "store16 a v f = f(a := ucast v, a + 1 := ucast (drop_bit 8 v))"

definition mem_next :: "heapst \<Rightarrow> int \<Rightarrow> u16" where "mem_next h p = load16 (ram h) p"
definition mem_prev :: "heapst \<Rightarrow> int \<Rightarrow> u16" where "mem_prev h p = load16 (ram h) (p + 2)"
definition mem_used :: "heapst \<Rightarrow> int \<Rightarrow> u8" where "mem_used h p = ram h (p + 4)"

definition set_next :: "int \<Rightarrow> u16 \<Rightarrow> heapst \<Rightarrow> heapst" where "set_next p v h = h\<lparr>ram := store16 p v (ram h)\<rparr>"
definition set_prev :: "int \<Rightarrow> u16 \<Rightarrow> heapst \<Rightarrow> heapst" where "set_prev p v h = h\<lparr>ram := store16 (p + 2) v (ram h)\<rparr>"
definition set_used :: "int \<Rightarrow> u8 \<Rightarrow> heapst \<Rightarrow> heapst" where "set_used p v h = h\<lparr>ram := (ram h)(p + 4 := v)\<rparr>"

definition at_ram :: "u16 \<Rightarrow> int option" where
  "at_ram i = (if uint i \<le> uint MEM_SIZE_ALIGNED + uint SIZEOF_STRUCT_MEM then Some (uint i) else None)"

section \<open>Operations\<close>

text \<open>The octets of the array before \<open>mem_init\<close> are those of \<open>h\<close>.\<close>

definition mem_init :: "heapst \<Rightarrow> heapst" where
  "mem_init h =
     (let h = set_used 0 0 (set_prev 0 0 (set_next 0 MEM_SIZE_ALIGNED h));
          h = h\<lparr>ram_end := uint MEM_SIZE_ALIGNED\<rparr>;
          h = set_prev (ram_end h) MEM_SIZE_ALIGNED (set_next (ram_end h) MEM_SIZE_ALIGNED (set_used (ram_end h) 1 h));
          h = h\<lparr>lfree := 0\<rparr>
      in h\<lparr>mem_stats := (mem_stats h)\<lparr>st_avail := MEM_SIZE_ALIGNED\<rparr>\<rparr>)"

definition plug_forward :: "int \<Rightarrow> heapst \<Rightarrow> heapst option" where
  "plug_forward mem h =
     do { nmem \<leftarrow> at_ram (mem_next h mem);
          if mem \<noteq> nmem \<and> mem_used h nmem = 0 \<and> nmem \<noteq> ram_end h then
            do { let h = (if lfree h = nmem then h\<lparr>lfree := mem\<rparr> else h);
                 let h = set_next mem (mem_next h nmem) h;
                 q \<leftarrow> at_ram (mem_next h nmem);
                 Some (set_prev q (word_of_int mem) h) }
          else Some h }"

definition plug_backward :: "int \<Rightarrow> heapst \<Rightarrow> heapst option" where
  "plug_backward mem h =
     do { pmem \<leftarrow> at_ram (mem_prev h mem);
          if pmem \<noteq> mem \<and> mem_used h pmem = 0 then
            do { let h = (if lfree h = mem then h\<lparr>lfree := pmem\<rparr> else h);
                 let h = set_next pmem (mem_next h mem) h;
                 q \<leftarrow> at_ram (mem_next h mem);
                 Some (set_prev q (word_of_int pmem) h) }
          else Some h }"

definition plug_holes :: "int \<Rightarrow> heapst \<Rightarrow> heapst option" where
  "plug_holes mem h =
     (if 0 \<le> mem \<and> mem < ram_end h \<and> mem_used h mem = 0 \<and> mem_next h mem \<le> MEM_SIZE_ALIGNED
      then do { h \<leftarrow> plug_forward mem h; plug_backward mem h }
      else None)"

text \<open>
  Pointers below the header size pass the tests of \<open>mem_free\<close> and \<open>mem_trim\<close>, and the header lies before
  the array. The test for an illegal pointer after the assertion on the same condition is never
  reached with the condition false.
\<close>

definition header_of :: "int \<Rightarrow> int option" where
  "header_of rmem = (if uint SIZEOF_STRUCT_MEM \<le> rmem then Some (rmem - uint SIZEOF_STRUCT_MEM) else None)"

definition mem_free :: "int option \<Rightarrow> heapst \<Rightarrow> heapst option" where
  "mem_free rmem h =
     (case rmem of
        None \<Rightarrow> Some h
      | Some rmem \<Rightarrow>
          if rmem mod 4 \<noteq> 0 \<or> \<not> (0 \<le> rmem \<and> rmem < ram_end h) then None
          else
            do { mem \<leftarrow> header_of rmem;
                 if mem_used h mem = 0 then None
                 else
                   do { let h = set_used mem 0 h;
                        let h = (if mem < lfree h then h\<lparr>lfree := mem\<rparr> else h);
                        let h = MEM_STATS_DEC_USED (mem_next h mem - word_of_int mem) h;
                        plug_holes mem h } })"

text \<open>The two cases of \<open>mem_trim\<close> in which the block is cut: the next block moves down, or a new one is made.\<close>

definition trim_cut :: "u16 \<Rightarrow> u16 \<Rightarrow> u16 \<Rightarrow> heapst \<Rightarrow> heapst option" where
  "trim_cut ptr ptr2 next h =
     (let h = set_used (uint ptr2) 0 h;
          h = set_next (uint ptr2) next h;
          h = set_prev (uint ptr2) ptr h;
          h = set_next (uint ptr) ptr2 h
      in if mem_next h (uint ptr2) \<noteq> MEM_SIZE_ALIGNED
         then do { q \<leftarrow> at_ram (mem_next h (uint ptr2)); Some (set_prev q ptr2 h) }
         else Some h)"

definition mem_trim :: "int \<Rightarrow> u16 \<Rightarrow> heapst \<Rightarrow> (int option \<times> heapst) option" where
  "mem_trim rmem newsize h =
     (let newsize = LWIP_MEM_ALIGN_SIZE newsize;
          newsize = (if newsize < MIN_SIZE_ALIGNED then MIN_SIZE_ALIGNED else newsize)
      in if newsize > MEM_SIZE_ALIGNED then Some (None, h)
         else if \<not> (0 \<le> rmem \<and> rmem < ram_end h) then None
         else
           do { mem \<leftarrow> header_of rmem;
                let ptr = word_of_int mem;
                let sz = mem_next h mem - ptr - SIZEOF_STRUCT_MEM;
                if \<not> newsize \<le> sz then None
                else if newsize = sz then Some (Some rmem, h)
                else
                  do { mem2 \<leftarrow> at_ram (mem_next h mem);
                       let ptr2 = ptr + SIZEOF_STRUCT_MEM + newsize;
                       if mem_used h mem2 = 0 then
                         do { let next = mem_next h mem2;
                              let h = (if lfree h = mem2 then h\<lparr>lfree := uint ptr2\<rparr> else h);
                              h \<leftarrow> trim_cut ptr ptr2 next h;
                              Some (Some rmem, MEM_STATS_DEC_USED (sz - newsize) h) }
                       else if uint newsize + uint SIZEOF_STRUCT_MEM + uint MIN_SIZE_ALIGNED \<le> uint sz then
                         do { let h = (if uint ptr2 < lfree h then h\<lparr>lfree := uint ptr2\<rparr> else h);
                              h \<leftarrow> trim_cut ptr ptr2 (mem_next h mem) h;
                              Some (Some rmem, MEM_STATS_DEC_USED (sz - newsize) h) }
                       else Some (Some rmem, h) } })"

text \<open>
  The size of a block's data is computed without a sign in 32 bits. \<open>find_block\<close> is the loop of
  \<open>mem_malloc\<close> up to the block it takes, \<open>next_lfree\<close> the one that moves \<open>lfree\<close>.
\<close>

definition data_size :: "heapst \<Rightarrow> u16 \<Rightarrow> u32" where
  "data_size h ptr = ucast (mem_next h (uint ptr)) - (ucast ptr + ucast SIZEOF_STRUCT_MEM)"

partial_function (option) find_block :: "u16 \<Rightarrow> heapst \<Rightarrow> u16 \<Rightarrow> u16 option option" where
  "find_block sz h ptr =
     (if uint ptr < uint MEM_SIZE_ALIGNED - uint sz then
        (if mem_used h (uint ptr) = 0 \<and> data_size h ptr \<ge> ucast sz then Some (Some ptr)
         else find_block sz h (mem_next h (uint ptr)))
      else Some None)"

partial_function (option) next_lfree :: "heapst \<Rightarrow> int \<Rightarrow> int option" where
  "next_lfree h p =
     (if mem_used h p \<noteq> 0 \<and> p \<noteq> ram_end h then do { q \<leftarrow> at_ram (mem_next h p); next_lfree h q }
      else Some p)"

definition take_block :: "u16 \<Rightarrow> u16 \<Rightarrow> heapst \<Rightarrow> heapst option" where
  "take_block sz ptr h =
     (let mem = uint ptr
      in if data_size h ptr \<ge> ucast sz + ucast SIZEOF_STRUCT_MEM + ucast MIN_SIZE_ALIGNED then
           do { let ptr2 = ptr + SIZEOF_STRUCT_MEM + sz;
                let mem2 = uint ptr2;
                let h = set_used mem2 0 h;
                let h = set_next mem2 (mem_next h mem) h;
                let h = set_prev mem2 ptr h;
                let h = set_next mem ptr2 h;
                let h = set_used mem 1 h;
                h \<leftarrow> (if mem_next h mem2 \<noteq> MEM_SIZE_ALIGNED
                     then do { q \<leftarrow> at_ram (mem_next h mem2); Some (set_prev q ptr2 h) }
                     else Some h);
                Some (MEM_STATS_INC_USED (sz + SIZEOF_STRUCT_MEM) h) }
         else
           do { let h = set_used mem 1 h;
                Some (MEM_STATS_INC_USED (mem_next h mem - ptr) h) })"

definition mem_malloc :: "u16 \<Rightarrow> heapst \<Rightarrow> (int option \<times> heapst) option" where
  "mem_malloc sz h =
     (if sz = 0 then Some (None, h)
      else
        let sz = LWIP_MEM_ALIGN_SIZE sz;
            sz = (if sz < MIN_SIZE_ALIGNED then MIN_SIZE_ALIGNED else sz)
        in if sz > MEM_SIZE_ALIGNED then Some (None, h)
           else
             do { found \<leftarrow> find_block sz h (word_of_int (lfree h));
                  case found of
                    None \<Rightarrow> Some (None, h\<lparr>mem_stats := (mem_stats h)\<lparr>st_err := st_err (mem_stats h) + 1\<rparr>\<rparr>)
                  | Some ptr \<Rightarrow>
                      do { let mem = uint ptr;
                           h \<leftarrow> take_block sz ptr h;
                           h \<leftarrow> (if mem = lfree h
                                then do { l \<leftarrow> next_lfree h (lfree h); Some (h\<lparr>lfree := l\<rparr>) }
                                else Some h);
                           if mem + uint SIZEOF_STRUCT_MEM + uint sz \<le> ram_end h \<and> (mem + uint SIZEOF_STRUCT_MEM) mod 4 = 0 \<and> mem mod 4 = 0
                           then Some (Some (mem + uint SIZEOF_STRUCT_MEM), h)
                           else None } })"

text \<open>
  The product of the arguments wraps at 16 bits in the call of \<open>mem_malloc\<close> and not in that of \<open>memset\<close>.
\<close>

definition zero_ram :: "int \<Rightarrow> int \<Rightarrow> heapst \<Rightarrow> heapst option" where
  "zero_ram p n h =
     (if p + n \<le> uint MEM_SIZE_ALIGNED + 2 * uint SIZEOF_STRUCT_MEM
      then Some (h\<lparr>ram := (\<lambda>a. if p \<le> a \<and> a < p + n then 0 else ram h a)\<rparr>)
      else None)"

definition mem_calloc :: "u16 \<Rightarrow> u16 \<Rightarrow> heapst \<Rightarrow> (int option \<times> heapst) option" where
  "mem_calloc count sz h =
     do { (p, h) \<leftarrow> mem_malloc (count * sz) h;
          case p of
            None \<Rightarrow> Some (None, h)
          | Some p \<Rightarrow> do { h \<leftarrow> zero_ram p (uint count * uint sz) h; Some (Some p, h) } }"

end
