(* ===== verification/Lwip_Memp.thy ===== *)
theory Lwip_Memp
  imports Lwip_Heap
begin

text \<open>
  The fixed-size pools of the network stack (\<open>src/src/lwip/core/memp.c\<close>), as configured: no overflow and
  no sanity checks, one array for all pools. The elements of a pool are numbered in the order of their
  addresses; a free element holds the pointer to the next free one in its first word, \<open>memp_next\<close>.
  The pools are those of \<open>src/inc/lwip/lwip/memp_std.h\<close> that the configuration keeps.
\<close>

section \<open>Pools\<close>

datatype memp_t =
  MEMP_RAW_PCB | MEMP_UDP_PCB | MEMP_TCP_PCB | MEMP_TCP_PCB_LISTEN | MEMP_TCP_SEG | MEMP_REASSDATA
| MEMP_SYS_TIMEOUT | MEMP_PBUF | MEMP_PBUF_POOL

definition memp_types :: "memp_t list" where
  "memp_types = [MEMP_RAW_PCB, MEMP_UDP_PCB, MEMP_TCP_PCB, MEMP_TCP_PCB_LISTEN, MEMP_TCP_SEG, MEMP_REASSDATA,
     MEMP_SYS_TIMEOUT, MEMP_PBUF, MEMP_PBUF_POOL]"

fun memp_num :: "memp_t \<Rightarrow> nat" where
  "memp_num MEMP_RAW_PCB = 4"
| "memp_num MEMP_UDP_PCB = 4"
| "memp_num MEMP_TCP_PCB = 5"
| "memp_num MEMP_TCP_PCB_LISTEN = 8"
| "memp_num MEMP_TCP_SEG = 16"
| "memp_num MEMP_REASSDATA = 5"
| "memp_num MEMP_SYS_TIMEOUT = 300"
| "memp_num MEMP_PBUF = 16"
| "memp_num MEMP_PBUF_POOL = 10"

record mempst =
  memp_tab :: "memp_t \<Rightarrow> nat option"
  memp_next :: "memp_t \<Rightarrow> nat \<Rightarrow> nat option"
  memp_stats :: "memp_t \<Rightarrow> stats_mem"

definition memp_link :: "memp_t \<Rightarrow> nat \<Rightarrow> mempst \<Rightarrow> mempst" where
  "memp_link i e s =
     (let s = s\<lparr>memp_next := (memp_next s)(i := (memp_next s i)(e := memp_tab s i))\<rparr>
      in s\<lparr>memp_tab := (memp_tab s)(i := Some e)\<rparr>)"

definition memp_init_stats :: "memp_t \<Rightarrow> mempst \<Rightarrow> mempst" where
  "memp_init_stats i s = s\<lparr>memp_stats := (memp_stats s)(i := (memp_stats s i)\<lparr>st_used := 0, st_max := 0, st_err := 0,
     st_avail := of_nat (memp_num i)\<rparr>)\<rparr>"

definition memp_init_pool :: "memp_t \<Rightarrow> mempst \<Rightarrow> mempst" where
  "memp_init_pool i s = fold (memp_link i) [0..<memp_num i] (s\<lparr>memp_tab := (memp_tab s)(i := None)\<rparr>)"

definition memp_init :: "mempst \<Rightarrow> mempst" where
  "memp_init s = fold memp_init_pool memp_types (fold memp_init_stats memp_types s)"

definition memp_inc_used :: "stats_mem \<Rightarrow> stats_mem" where
  "memp_inc_used st =
     (let st = st\<lparr>st_used := st_used st + 1\<rparr> in if st_max st < st_used st then st\<lparr>st_max := st_used st\<rparr> else st)"

definition memp_malloc :: "memp_t \<Rightarrow> mempst \<Rightarrow> nat option \<times> mempst" where
  "memp_malloc i s =
     (case memp_tab s i of
        Some e \<Rightarrow>
          (let s = s\<lparr>memp_tab := (memp_tab s)(i := memp_next s i e)\<rparr>
           in (Some e, s\<lparr>memp_stats := (memp_stats s)(i := memp_inc_used (memp_stats s i))\<rparr>))
      | None \<Rightarrow> (None, s\<lparr>memp_stats := (memp_stats s)(i := (memp_stats s i)\<lparr>st_err := st_err (memp_stats s i) + 1\<rparr>)\<rparr>))"

definition memp_free :: "memp_t \<Rightarrow> nat option \<Rightarrow> mempst \<Rightarrow> mempst" where
  "memp_free i mem s =
     (case mem of
        None \<Rightarrow> s
      | Some e \<Rightarrow> memp_link i e (s\<lparr>memp_stats := (memp_stats s)(i := (memp_stats s i)\<lparr>st_used := st_used (memp_stats s i) - 1\<rparr>)\<rparr>))"

section \<open>Free lists\<close>

text \<open>\<open>memp_path f x es\<close>: the links of \<open>f\<close> lead from \<open>x\<close> through the elements \<open>es\<close> to the end.\<close>

fun memp_path :: "(nat \<Rightarrow> nat option) \<Rightarrow> nat option \<Rightarrow> nat list \<Rightarrow> bool" where
  "memp_path f x [] \<longleftrightarrow> x = None"
| "memp_path f x (e # es) \<longleftrightarrow> x = Some e \<and> memp_path f (f e) es"

lemma memp_path_upd [simp]: "e \<notin> set es \<Longrightarrow> memp_path (f(e := y)) x es = memp_path f x es"
  by (induction es arbitrary: x) auto

text \<open>The free elements of a pool are on its list, each once; the others are in use.\<close>

definition pool_ok :: "memp_t \<Rightarrow> nat set \<Rightarrow> mempst \<Rightarrow> bool" where
  "pool_ok i out s \<longleftrightarrow> (\<exists>es. memp_path (memp_next s i) (memp_tab s i) es \<and> distinct es \<and>
     set es = {..<memp_num i} - out) \<and> out \<subseteq> {..<memp_num i} \<and> st_used (memp_stats s i) = of_nat (card out)"

lemma memp_link_path:
  "memp_path (memp_next s i) (memp_tab s i) es \<Longrightarrow> e \<notin> set es \<Longrightarrow>
   memp_path (memp_next (memp_link i e s) i) (memp_tab (memp_link i e s) i) (e # es)"
  by (simp add: memp_link_def Let_def)

lemma memp_link_other [simp]:
  "j \<noteq> i \<Longrightarrow> memp_tab (memp_link i e s) j = memp_tab s j" "j \<noteq> i \<Longrightarrow> memp_next (memp_link i e s) j = memp_next s j"
  "memp_stats (memp_link i e s) = memp_stats s"
  by (simp_all add: memp_link_def Let_def)

lemma memp_init_path:
  "memp_tab s i = None \<Longrightarrow>
   memp_path (memp_next (fold (memp_link i) [0..<n] s) i) (memp_tab (fold (memp_link i) [0..<n] s) i) (rev [0..<n])"
proof (induction n)
  case (Suc n)
  then show ?case using memp_link_path [of "fold (memp_link i) [0..<n] s" i "rev [0..<n]" n] by simp
qed simp

lemma memp_fold_other:
  "j \<noteq> i \<Longrightarrow> memp_tab (fold (memp_link i) es s) j = memp_tab s j"
  "j \<noteq> i \<Longrightarrow> memp_next (fold (memp_link i) es s) j = memp_next s j"
  "memp_stats (fold (memp_link i) es s) = memp_stats s"
  by (induction es arbitrary: s) auto

lemma pool_ok_other:
  assumes "memp_tab t j = memp_tab s j" "memp_next t j = memp_next s j" "memp_stats t j = memp_stats s j"
  shows "pool_ok j out t = pool_ok j out s"
  by (simp add: pool_ok_def assms)

lemma memp_init_pool_ok:
  assumes "st_used (memp_stats s i) = 0"
  shows "pool_ok i {} (memp_init_pool i s)" "j \<noteq> i \<Longrightarrow> pool_ok j out (memp_init_pool i s) = pool_ok j out s"
    "memp_stats (memp_init_pool i s) = memp_stats s"
proof -
  show "pool_ok i {} (memp_init_pool i s)"
    using memp_init_path [of "s\<lparr>memp_tab := (memp_tab s)(i := None)\<rparr>" i "memp_num i"] assms
    by (auto simp: pool_ok_def memp_init_pool_def memp_fold_other intro!: exI [of _ "rev [0..<memp_num i]"])
  show "j \<noteq> i \<Longrightarrow> pool_ok j out (memp_init_pool i s) = pool_ok j out s" "memp_stats (memp_init_pool i s) = memp_stats s"
    by (simp_all add: memp_init_pool_def memp_fold_other pool_ok_def)
qed

lemma memp_init_ok: "pool_ok i {} (memp_init s)"
proof -
  have st: "st_used (memp_stats (fold memp_init_stats is s) i) = 0" if "i \<in> set is" for i "is"
    using that by (induction "is" rule: rev_induct) (auto simp: memp_init_stats_def)
  have "pool_ok i {} (fold memp_init_pool is t)"
    if "\<And>i. st_used (memp_stats t i) = 0" "i \<in> set is" for t "is"
    using that
  proof (induction "is" arbitrary: t rule: rev_induct)
    case (snoc j js)
    have z: "st_used (memp_stats (fold memp_init_pool js t) k) = 0" for k
      using snoc.prems(1) by (induction js arbitrary: t) (auto simp: memp_init_pool_ok(3))
    show ?case using snoc memp_init_pool_ok [OF z [of j]] by (cases "i = j") auto
  qed simp
  moreover have "i \<in> set memp_types" for i by (cases i) (simp_all add: memp_types_def)
  ultimately show ?thesis using st by (simp add: memp_init_def)
qed

lemma memp_malloc_ok:
  assumes "pool_ok i out s" "memp_malloc i s = (Some e, s')"
  shows "pool_ok i (insert e out) s'" "e \<notin> out" "e < memp_num i" "j \<noteq> i \<Longrightarrow> pool_ok j out' s' = pool_ok j out' s"
proof -
  from assms(1) obtain es where es: "memp_path (memp_next s i) (memp_tab s i) es" "distinct es" "set es = {..<memp_num i} - out"
    and out: "out \<subseteq> {..<memp_num i}" "st_used (memp_stats s i) = of_nat (card out)" by (auto simp: pool_ok_def)
  from assms(2) have e: "memp_tab s i = Some e" by (auto simp: memp_malloc_def split: option.splits)
  then obtain es' where es': "es = e # es'" using es(1) by (cases es) auto
  then show e': "e \<notin> out" "e < memp_num i" using es(3) by auto
  have s': "memp_tab s' = (memp_tab s)(i := memp_next s i e)" "memp_next s' = memp_next s"
    "memp_stats s' = (memp_stats s)(i := memp_inc_used (memp_stats s i))"
    using assms(2) e by (auto simp: memp_malloc_def Let_def)
  have "card (insert e out) = Suc (card out)" using e' out(1) finite_subset by fastforce
  moreover have "st_used (memp_inc_used (memp_stats s i)) = st_used (memp_stats s i) + 1" by (simp add: memp_inc_used_def Let_def)
  moreover have "set es' = {..<memp_num i} - insert e out" using es(2,3) es' by auto
  ultimately show "pool_ok i (insert e out) s'" using es es' e' out unfolding pool_ok_def by (auto simp: s')
  show "j \<noteq> i \<Longrightarrow> pool_ok j out' s' = pool_ok j out' s" by (rule pool_ok_other) (simp_all add: s')
qed

lemma memp_malloc_none:
  assumes "pool_ok i out s" "memp_malloc i s = (None, s')"
  shows "out = {..<memp_num i}" "pool_ok j out' s' = pool_ok j out' s"
proof -
  from assms(1) obtain es where es: "memp_path (memp_next s i) (memp_tab s i) es" "set es = {..<memp_num i} - out"
    and out: "out \<subseteq> {..<memp_num i}" by (auto simp: pool_ok_def)
  from assms(2) have "memp_tab s i = None" by (auto simp: memp_malloc_def Let_def split: option.splits)
  then have "es = []" using es(1) by (cases es) auto
  then show "out = {..<memp_num i}" using es(2) out by auto
  show "pool_ok j out' s' = pool_ok j out' s"
    using assms(2) by (cases "j = i") (auto simp: memp_malloc_def pool_ok_def split: option.splits)
qed

lemma memp_free_ok:
  assumes "pool_ok i out s" "e \<in> out"
  shows "pool_ok i (out - {e}) (memp_free i (Some e) s)" "j \<noteq> i \<Longrightarrow> pool_ok j out' (memp_free i (Some e) s) = pool_ok j out' s"
proof -
  let ?s = "s\<lparr>memp_stats := (memp_stats s)(i := (memp_stats s i)\<lparr>st_used := st_used (memp_stats s i) - 1\<rparr>)\<rparr>"
  from assms(1) obtain es where es: "memp_path (memp_next s i) (memp_tab s i) es" "distinct es" "set es = {..<memp_num i} - out"
    and out: "out \<subseteq> {..<memp_num i}" "st_used (memp_stats s i) = of_nat (card out)" by (auto simp: pool_ok_def)
  have e: "e \<notin> set es" "e < memp_num i" using es(3) assms(2) out(1) by auto
  have "finite out" using out(1) finite_subset by blast
  then have "card out = Suc (card (out - {e}))" using assms(2) by (metis card_Suc_Diff1)
  then have "st_used (memp_stats (memp_free i (Some e) s) i) = of_nat (card (out - {e}))"
    using out(2) by (simp add: memp_free_def)
  moreover have "memp_path (memp_next (memp_link i e ?s) i) (memp_tab (memp_link i e ?s) i) (e # es)"
    by (rule memp_link_path) (use es e in simp_all)
  moreover have "set (e # es) = {..<memp_num i} - (out - {e})" using es(3) e(2) by auto
  moreover have "distinct (e # es)" using es(2) e(1) by simp
  moreover have "memp_free i (Some e) s = memp_link i e ?s" by (simp add: memp_free_def)
  ultimately show "pool_ok i (out - {e}) (memp_free i (Some e) s)" using out(1) unfolding pool_ok_def by (metis Diff_subset subset_trans)
  show "j \<noteq> i \<Longrightarrow> pool_ok j out' (memp_free i (Some e) s) = pool_ok j out' s" by (rule pool_ok_other) (simp_all add: memp_free_def)
qed

section \<open>Use\<close>

text \<open>\<open>memp_owns s out\<close>: the users of the pools reach \<open>s\<close>, holding the elements \<open>out i\<close> of pool \<open>i\<close>.\<close>

inductive memp_owns :: "mempst \<Rightarrow> (memp_t \<Rightarrow> nat set) \<Rightarrow> bool" where
  pools: "memp_owns (memp_init s) (\<lambda>_. {})"
| take: "memp_owns s out \<Longrightarrow> memp_malloc i s = (Some e, s') \<Longrightarrow> memp_owns s' (out(i := insert e (out i)))"
| empty: "memp_owns s out \<Longrightarrow> memp_malloc i s = (None, s') \<Longrightarrow> memp_owns s' out"
| give: "memp_owns s out \<Longrightarrow> e \<in> out i \<Longrightarrow> memp_owns (memp_free i (Some e) s) (out(i := out i - {e}))"

lemma memp_owns_ok: "memp_owns s out \<Longrightarrow> pool_ok i (out i) s"
proof (induction arbitrary: i rule: memp_owns.induct)
  case (pools s)
  then show ?case by (rule memp_init_ok)
next
  case (take s out j e s')
  then show ?case using memp_malloc_ok [OF take.IH take.hyps(2)] by (cases "i = j") auto
next
  case (empty s out j s')
  then show ?case using memp_malloc_none(2) [OF empty.IH empty.hyps(2)] by blast
next
  case (give s out e j)
  then show ?case using memp_free_ok [OF give.IH [of j] give.hyps(2)] by (cases "i = j") auto
qed

text \<open>
  The pools hand out every element at most once at a time (C20): whatever the users took and gave back, a new
  element is none they hold, and a pool refuses only when they hold all of its elements.
\<close>

theorem memp_exclusive:
  assumes "memp_owns s out" "memp_malloc i s = (r, s')"
  shows "case r of Some e \<Rightarrow> e \<notin> out i \<and> e < memp_num i | None \<Rightarrow> out i = {..<memp_num i}"
  using memp_owns_ok [OF assms(1), of i] memp_malloc_ok(2,3) memp_malloc_none(1) assms(2)
  by (cases r) auto

definition blank_pools :: mempst where
  "blank_pools = \<lparr>memp_tab = (\<lambda>_. None), memp_next = (\<lambda>_ _. None),
     memp_stats = (\<lambda>_. \<lparr>st_avail = 0, st_used = 0, st_max = 0, st_err = 0, st_illegal = 0\<rparr>)\<rparr>"

theorem memp_exclusive_witness:
  "\<exists>s' e. memp_malloc MEMP_PBUF_POOL (memp_init blank_pools) = (Some e, s') \<and> e < 10"
proof -
  obtain r s' where m: "memp_malloc MEMP_PBUF_POOL (memp_init blank_pools) = (r, s')" by fastforce
  from memp_exclusive [OF memp_owns.pools this] obtain e where "r = Some e" "e < 10"
    by (cases r) (auto simp: lessThan_def dest: spec [of _ 0])
  with m show ?thesis by blast
qed

end
