(* ===== verification/Lwip_Chksum.thy ===== *)
theory Lwip_Chksum
  imports Gw_Prelude
begin

text \<open>
  Byte order and the Internet checksum of the network stack, \<open>src/src/lwip/core/def.c\<close> and
  \<open>src/src/lwip/core/ipv4/inet_chksum.c\<close> with version 1 of the algorithm, which
  \<open>src/inc/lwip/arch/cc.h\<close> selects. A buffer is the list of its octets, a chain of buffers the
  list of their payloads. Addresses are in network byte order, the first octet lowest.
\<close>

section \<open>Byte order\<close>

definition lwip_htons :: "u16 \<Rightarrow> u16" where
  "lwip_htons n = push_bit 8 (n AND 0xff) OR drop_bit 8 (n AND 0xff00)"

definition lwip_ntohs :: "u16 \<Rightarrow> u16" where
  "lwip_ntohs n = lwip_htons n"

definition lwip_htonl :: "u32 \<Rightarrow> u32" where
  "lwip_htonl n =
     push_bit 24 (n AND 0xff) OR push_bit 8 (n AND 0xff00) OR
     drop_bit 8 (n AND 0xff0000) OR drop_bit 24 (n AND 0xff000000)"

definition lwip_ntohl :: "u32 \<Rightarrow> u32" where
  "lwip_ntohl n = lwip_htonl n"

section \<open>The checksum\<close>

definition FOLD_U32T :: "u32 \<Rightarrow> u32" where
  "FOLD_U32T u = drop_bit 16 u + (u AND 0x0000ffff)"

definition SWAP_BYTES_IN_WORD :: "u32 \<Rightarrow> u32" where
  "SWAP_BYTES_IN_WORD w = push_bit 8 (w AND 0xff) OR drop_bit 8 (w AND 0xff00)"

fun chksum_loop :: "u32 \<Rightarrow> u8 list \<Rightarrow> u32" where
  "chksum_loop acc (a # b # cs) = chksum_loop (acc + ucast (push_bit 8 (ucast a) OR ucast b :: u16)) cs"
| "chksum_loop acc [a] = acc + ucast (push_bit 8 (ucast a) :: u16)"
| "chksum_loop acc [] = acc"

definition lwip_standard_chksum :: "u8 list \<Rightarrow> u16" where
  "lwip_standard_chksum data =
     (let acc = chksum_loop 0 data;
          acc = drop_bit 16 acc + (acc AND 0x0000ffff);
          acc = (if acc AND 0xffff0000 \<noteq> 0 then drop_bit 16 acc + (acc AND 0x0000ffff) else acc)
      in lwip_htons (ucast acc))"

text \<open>The loop over the buffers of a chain, shared by the functions below.\<close>

fun pbuf_loop :: "u32 \<Rightarrow> u8 \<Rightarrow> u8 list list \<Rightarrow> u32 \<times> u8" where
  "pbuf_loop acc swapped [] = (acc, swapped)"
| "pbuf_loop acc swapped (q # qs) =
     (let acc = FOLD_U32T (acc + ucast (lwip_standard_chksum q))
      in if length q mod 2 \<noteq> 0 then pbuf_loop (SWAP_BYTES_IN_WORD acc) (1 - swapped) qs
         else pbuf_loop acc swapped qs)"

definition pbuf_acc :: "u8 list list \<Rightarrow> u32" where
  "pbuf_acc p = (case pbuf_loop 0 0 p of (acc, swapped) \<Rightarrow> if swapped \<noteq> 0 then SWAP_BYTES_IN_WORD acc else acc)"

text \<open>The sum of the pseudo header, added to the sum of the data.\<close>

definition pseudo_acc :: "u32 \<Rightarrow> u32 \<Rightarrow> u32 \<Rightarrow> u8 \<Rightarrow> u16 \<Rightarrow> u16" where
  "pseudo_acc acc src dest proto proto_len =
     (let acc = acc + (src AND 0xffff);
          acc = acc + (drop_bit 16 src AND 0xffff);
          acc = acc + (dest AND 0xffff);
          acc = acc + (drop_bit 16 dest AND 0xffff);
          acc = acc + ucast (lwip_htons (ucast proto));
          acc = acc + ucast (lwip_htons proto_len);
          acc = FOLD_U32T acc;
          acc = FOLD_U32T acc
      in ucast (NOT (acc AND 0xffff)))"

definition inet_chksum_pseudo :: "u8 list list \<Rightarrow> u32 \<Rightarrow> u32 \<Rightarrow> u8 \<Rightarrow> u16 \<Rightarrow> u16" where
  "inet_chksum_pseudo p src dest proto proto_len = pseudo_acc (pbuf_acc p) src dest proto proto_len"

text \<open>
  The partial checksum stops after \<open>chksum_len\<close> octets; an assertion holds the program when
  0x7fff octets or more remain after a buffer.
\<close>

fun partial_loop :: "u32 \<Rightarrow> u8 \<Rightarrow> u16 \<Rightarrow> u8 list list \<Rightarrow> (u32 \<times> u8) option" where
  "partial_loop acc swapped chksum_len [] = Some (acc, swapped)"
| "partial_loop acc swapped chksum_len (q # qs) =
     (if chksum_len > 0 then
        (let chklen = of_nat (length q);
             chklen = (if chklen > chksum_len then chksum_len else chklen);
             acc = acc + ucast (lwip_standard_chksum (take (unat chklen) q));
             chksum_len = chksum_len - chklen
         in if \<not> chksum_len < 0x7fff then None
            else let acc = FOLD_U32T acc
              in if length q mod 2 \<noteq> 0 then partial_loop (SWAP_BYTES_IN_WORD acc) (1 - swapped) chksum_len qs
                 else partial_loop acc swapped chksum_len qs)
      else Some (acc, swapped))"

definition inet_chksum_pseudo_partial ::
  "u8 list list \<Rightarrow> u32 \<Rightarrow> u32 \<Rightarrow> u8 \<Rightarrow> u16 \<Rightarrow> u16 \<Rightarrow> u16 option" where
  "inet_chksum_pseudo_partial p src dest proto proto_len chksum_len =
     (case partial_loop 0 0 chksum_len p of
        None \<Rightarrow> None
      | Some (acc, swapped) \<Rightarrow>
          Some (pseudo_acc (if swapped \<noteq> 0 then SWAP_BYTES_IN_WORD acc else acc) src dest proto proto_len))"

definition inet_chksum :: "u8 list \<Rightarrow> u16" where
  "inet_chksum data = NOT (lwip_standard_chksum data)"

definition inet_chksum_pbuf :: "u8 list list \<Rightarrow> u16" where
  "inet_chksum_pbuf p = ucast (NOT (pbuf_acc p AND 0xffff))"

definition lwip_chksum_copy :: "u8 list \<Rightarrow> u16 \<times> u8 list" where
  "lwip_chksum_copy src = (let dst = src in (lwip_standard_chksum dst, dst))"

section \<open>Sums modulo 65535\<close>

text \<open>
  One's complement sums: the representative of \<open>n\<close> modulo 65535, which is zero for zero only,
  and the sum of the octets of a buffer read as little-endian words.
\<close>

definition oc :: "nat \<Rightarrow> nat" where
  "oc n = (if n = 0 then 0 else (n - 1) mod 65535 + 1)"

fun le_sum :: "u8 list \<Rightarrow> nat" where
  "le_sum [] = 0"
| "le_sum [a] = unat a"
| "le_sum (a # b # cs) = unat a + 256 * unat b + le_sum cs"

fun be_sum :: "u8 list \<Rightarrow> nat" where
  "be_sum [] = 0"
| "be_sum [a] = 256 * unat a"
| "be_sum (a # b # cs) = 256 * unat a + unat b + be_sum cs"

lemma oc_le: "oc n \<le> 65535"
  by (simp add: oc_def Suc_le_eq)

lemma oc_zero [simp]: "oc n = 0 \<longleftrightarrow> n = 0" "oc 0 = 0"
  by (simp_all add: oc_def)

lemma oc_mod [simp]: "oc n mod 65535 = n mod 65535"
proof (cases "n = 0")
  case False
  then have "((n - 1) mod 65535 + 1) mod 65535 = (n - 1 + 1) mod 65535" by (simp only: mod_add_left_eq)
  with False show ?thesis by (simp add: oc_def)
qed simp

lemma oc_unique:
  assumes "r \<le> 65535" "r mod 65535 = n mod 65535" "r = 0 \<longleftrightarrow> n = 0"
  shows "r = oc n"
proof (cases "n = 0")
  case False
  with assms oc_le [of n] oc_mod [of n] have "r mod 65535 = oc n mod 65535" "0 < r" "0 < oc n" "oc n \<le> 65535"
    by (simp_all add: neq0_conv [symmetric] del: neq0_conv)
  then show ?thesis using assms(1) by (cases "r = 65535"; cases "oc n = 65535") (simp_all add: mod_less del: oc_mod)
qed (use assms in simp)

lemma oc_cong: "m mod 65535 = n mod 65535 \<Longrightarrow> (m = 0 \<longleftrightarrow> n = 0) \<Longrightarrow> oc m = oc n"
  using oc_unique [of "oc m" n] oc_le [of m] by simp

lemma oc_add: "oc (oc a + b) = oc (a + b)"
proof (rule oc_cong)
  have "(oc a + b) mod 65535 = (oc a mod 65535 + b) mod 65535" by (simp only: mod_add_left_eq)
  then show "(oc a + b) mod 65535 = (a + b) mod 65535" by (simp only: oc_mod mod_add_left_eq)
qed simp

lemma oc_add': "oc (b + oc a) = oc (b + a)"
  using oc_add [of a b] by (simp add: add.commute)

lemma oc_mult: "oc (256 * oc a) = oc (256 * a)"
proof (rule oc_cong)
  have "(256 * oc a) mod 65535 = (256 * (oc a mod 65535)) mod 65535" by (simp only: mod_mult_right_eq)
  then show "(256 * oc a) mod 65535 = (256 * a) mod 65535" by (simp only: oc_mod mod_mult_right_eq)
qed simp

lemma oc_256_256: "oc (256 * (256 * a)) = oc a"
proof (rule oc_cong)
  have "256 * (256 * a) = a + a * 65535" by simp
  then show "256 * (256 * a) mod 65535 = a mod 65535" by (simp only: mod_mult_self1)
qed simp

lemma oc_65536 [simp]: "oc (65536 * a) = oc a"
  using oc_256_256 [of a] by simp

section \<open>The word operations on sums\<close>

lemma unat_u16_le: "unat (n :: u16) \<le> 65535"
  using unat_u16_lt [of n] by linarith

lemma unat_u8_le: "unat (a :: u8) \<le> 255"
  using unat_u8_lt [of a] by linarith

lemma fold_value: "unat (FOLD_U32T u) = unat u div 65536 + unat u mod 65536"
proof -
  have "u AND 0xffff = take_bit 16 u" by (simp add: take_bit_eq_mask mask_eq_exp_minus_1)
  then have 1: "unat (u AND 0xffff) = unat u mod 65536" by (simp add: take_bit_eq_mod unat_mod)
  have 2: "unat (drop_bit 16 u) = unat u div 65536" by (simp add: drop_bit_eq_div unat_div)
  have "unat u < 4294967296" using unat_u32_lt [of u] by simp
  then have "unat u div 65536 < 65536" by (simp add: less_mult_imp_div_less)
  moreover have "unat u mod 65536 < 65536" by simp
  ultimately have "unat u div 65536 + unat u mod 65536 < 131072" by linarith
  then show ?thesis unfolding FOLD_U32T_def using 1 2 by (subst unat_add_lem [THEN iffD1]) simp_all
qed

lemma fold_oc: "unat (FOLD_U32T u) mod 65535 = unat u mod 65535" "FOLD_U32T u = 0 \<longleftrightarrow> u = 0"
proof -
  have e: "unat u = 65535 * (unat u div 65536) + unat (FOLD_U32T u)"
    unfolding fold_value using div_mult_mod_eq [of "unat u" 65536] by linarith
  show "unat (FOLD_U32T u) mod 65535 = unat u mod 65535" by (metis e mod_mult_self4)
  have "unat (FOLD_U32T u) = 0 \<longleftrightarrow> unat u = 0"
    unfolding fold_value by (auto simp: div_eq_0_iff)
  then show "FOLD_U32T u = 0 \<longleftrightarrow> u = 0" by (simp add: unat_eq_zero)
qed

lemma fold_small: "unat u \<le> 131070 \<Longrightarrow> unat (FOLD_U32T u) = oc (unat u)"
proof (rule oc_unique)
  assume a: "unat u \<le> 131070"
  show "unat (FOLD_U32T u) \<le> 65535"
  proof (cases "unat u < 65536")
    case False
    then have "unat u div 65536 = 1" using a by (simp add: div_nat_eqI)
    then have "unat u mod 65536 = unat u - 65536" by (simp add: modulo_nat_def)
    note this \<open>unat u div 65536 = 1\<close>
    then show ?thesis unfolding fold_value using a by simp
  qed (simp add: fold_value)
qed (use fold_oc [of u] in \<open>simp_all add: unat_eq_zero [symmetric] del: unat_eq_zero\<close>)

lemma fold_le: "unat (FOLD_U32T u) \<le> 131070"
proof -
  have "unat u < 4294967296" using unat_u32_lt [of u] by simp
  then have "unat u div 65536 < 65536" by (simp add: less_mult_imp_div_less)
  moreover have "unat u mod 65536 < 65536" by simp
  ultimately show ?thesis unfolding fold_value by linarith
qed

lemma fold_twice: "unat (FOLD_U32T (FOLD_U32T u)) = oc (unat u)"
  using fold_small [OF fold_le [of u]] oc_cong [of "unat (FOLD_U32T u)" "unat u"] fold_oc [of u]
  by (simp add: unat_eq_zero [symmetric] del: unat_eq_zero)

lemma fold_id: "u AND 0xffff0000 = 0 \<Longrightarrow> FOLD_U32T u = u"
proof -
  assume a: "u AND 0xffff0000 = 0"
  have "(0xffff0000 OR 0xffff :: u32) = - 1" by simp
  then have "u AND (0xffff0000 OR 0xffff) = u" by (simp only: and.right_neutral)
  with a have 1: "u AND 0xffff = u" by (simp only: bit.conj_disj_distrib or.left_neutral)
  have "drop_bit 16 u = drop_bit 16 (u AND 0xffff)" by (simp only: 1)
  also have "\<dots> = 0" by (simp add: drop_bit_and)
  finally show ?thesis using 1 by (simp add: FOLD_U32T_def)
qed

lemma and_ff: "(w :: u32) AND 0xff = take_bit 8 w"
  by (simp add: take_bit_eq_mask mask_eq_exp_minus_1)

lemma swap_value:
  assumes "unat w \<le> 65535"
  shows "unat (SWAP_BYTES_IN_WORD w) = 256 * (unat w mod 256) + unat w div 256"
proof -
  have "drop_bit 8 (w AND 0xff00) = take_bit 8 (drop_bit 8 w)"
    by (simp add: drop_bit_and and_ff)
  then have "SWAP_BYTES_IN_WORD w = push_bit 8 (take_bit 8 w) OR take_bit 8 (drop_bit 8 w)"
    by (simp add: SWAP_BYTES_IN_WORD_def and_ff)
  also have "\<dots> = push_bit 8 (take_bit 8 w) + take_bit 8 (drop_bit 8 w)"
    by (rule disjunctive_add_eq_or [symmetric], rule bit_word_eqI) (auto simp: bit_simps)
  finally have e: "SWAP_BYTES_IN_WORD w = push_bit 8 (take_bit 8 w) + take_bit 8 (drop_bit 8 w)" .
  have 1: "unat (take_bit 8 w) = unat w mod 256" by (simp add: take_bit_eq_mod unat_mod)
  have 2: "unat (take_bit 8 (drop_bit 8 w)) = unat w div 256 mod 256"
    by (simp add: take_bit_eq_mod unat_mod drop_bit_eq_div unat_div)
  have "unat w div 256 < 256" using assms by (simp add: less_mult_imp_div_less)
  with 2 have 3: "unat (take_bit 8 (drop_bit 8 w)) = unat w div 256" by simp
  have "push_bit 8 (take_bit 8 w) = of_nat (256 * (unat w mod 256))"
    by (simp add: push_bit_eq_mult 1 [symmetric])
  moreover have "256 * (unat w mod 256) < 65536" by simp
  then have "unat (of_nat (256 * (unat w mod 256)) :: u32) = 256 * (unat w mod 256)"
    by (intro unat_of_nat_small) (erule less_trans, simp)
  ultimately have "unat (push_bit 8 (take_bit 8 w)) = 256 * (unat w mod 256)" by (simp only:)
  then show ?thesis
    unfolding e using 3 \<open>unat w div 256 < 256\<close> \<open>256 * (unat w mod 256) < 65536\<close>
    by (subst unat_add_lem [THEN iffD1]) simp_all
qed

lemma htons_value: "unat (lwip_htons n) = 256 * (unat n mod 256) + unat n div 256"
proof -
  have ff: "(x :: u16) AND 0xff = take_bit 8 x" for x by (simp add: take_bit_eq_mask mask_eq_exp_minus_1)
  have "drop_bit 8 (n AND 0xff00) = take_bit 8 (drop_bit 8 n)" by (simp add: drop_bit_and ff)
  then have "lwip_htons n = push_bit 8 (take_bit 8 n) OR take_bit 8 (drop_bit 8 n)" by (simp add: lwip_htons_def ff)
  also have "\<dots> = push_bit 8 (take_bit 8 n) + take_bit 8 (drop_bit 8 n)"
    by (rule disjunctive_add_eq_or [symmetric], rule bit_word_eqI) (auto simp: bit_simps)
  finally have e: "lwip_htons n = push_bit 8 (take_bit 8 n) + take_bit 8 (drop_bit 8 n)" .
  have 1: "unat (take_bit 8 n) = unat n mod 256" by (simp add: take_bit_eq_mod unat_mod)
  have "unat n < 65536" using unsigned_less [of n, where 'a = nat] by simp
  then have h: "unat n div 256 < 256" by (simp add: less_mult_imp_div_less)
  then have 3: "unat (take_bit 8 (drop_bit 8 n)) = unat n div 256"
    by (simp add: take_bit_eq_mod unat_mod drop_bit_eq_div unat_div)
  have "push_bit 8 (take_bit 8 n) = of_nat (256 * (unat n mod 256))"
    by (simp add: push_bit_eq_mult 1 [symmetric])
  moreover have "unat n mod 256 < 256" by simp
  then have l: "256 * (unat n mod 256) + 255 < 65536" by linarith
  then have "unat (of_nat (256 * (unat n mod 256)) :: u16) = 256 * (unat n mod 256)"
    by (intro unat_of_nat_small) simp
  ultimately have "unat (push_bit 8 (take_bit 8 n)) = 256 * (unat n mod 256)" by (simp only:)
  then show ?thesis unfolding e using 3 h l by (subst unat_add_lem [THEN iffD1]) simp_all
qed

lemma swap_nat_oc:
  assumes "n \<le> 65535"
  shows "256 * (n mod 256) + n div 256 = oc (256 * n)"
proof (rule oc_unique)
  have "n div 256 < 256" using assms by (simp add: less_mult_imp_div_less)
  moreover have "n mod 256 < 256" by simp
  ultimately show "256 * (n mod 256) + n div 256 \<le> 65535" by linarith
  have "256 * n = 256 * (n mod 256) + n div 256 + 65535 * (n div 256)"
    using div_mult_mod_eq [of n 256] by linarith
  then show "(256 * (n mod 256) + n div 256) mod 65535 = 256 * n mod 65535" by (metis mod_mult_self2)
  show "256 * (n mod 256) + n div 256 = 0 \<longleftrightarrow> 256 * n = 0"
    using div_mult_mod_eq [of n 256] by auto
qed

lemma swap_oc: "unat w \<le> 65535 \<Longrightarrow> unat (SWAP_BYTES_IN_WORD w) = oc (256 * unat w)"
  by (simp add: swap_value swap_nat_oc)

lemma htons_oc: "unat (lwip_htons n) = oc (256 * unat n)"
  unfolding htons_value by (rule swap_nat_oc [OF unat_u16_le])

lemma lwip_htons_twice: "lwip_htons (lwip_htons n) = n"
proof -
  have "unat n < 65536" using unsigned_less [of n, where 'a = nat] by simp
  then have "unat n div 256 < 256" by (simp add: less_mult_imp_div_less)
  then have "unat (lwip_htons (lwip_htons n)) = unat n" by (simp add: htons_value)
  then show ?thesis by (simp add: word_unat_eq_iff)
qed

section \<open>Sums of buffers\<close>

lemma word16_value: "unat (ucast (push_bit 8 (ucast (a :: u8)) OR ucast (b :: u8) :: u16) :: u32) = 256 * unat a + unat b"
proof -
  have "push_bit 8 (ucast a) OR ucast b = (push_bit 8 (ucast a) + ucast b :: u16)"
    by (rule disjunctive_add_eq_or [symmetric], rule bit_word_eqI) (auto simp: bit_simps dest: bit_imp_le_length)
  also have "\<dots> = of_nat (256 * unat a + unat b)" by (simp add: push_bit_eq_mult)
  finally have "unat (push_bit 8 (ucast a) OR ucast b :: u16) = unat (of_nat (256 * unat a + unat b) :: u16)" by simp
  also have "\<dots> = 256 * unat a + unat b" using unat_u8_le [of a] unat_u8_le [of b] by (intro unat_of_nat_small) simp
  finally show ?thesis using unat_u8_le [of a] unat_u8_le [of b] by (simp add: unsigned_ucast_eq take_bit_nat_eq_self)
qed

lemma be_sum_le: "be_sum data \<le> 65535 * ((length data + 1) div 2)"
proof (induction data rule: be_sum.induct)
  case (2 a)
  then show ?case using unat_u8_le [of a] by simp
next
  case (3 a b cs)
  then show ?case using unat_u8_le [of a] unat_u8_le [of b] by simp
qed simp

lemma chksum_loop_value:
  "unat acc + be_sum data < 2 ^ 32 \<Longrightarrow> unat (chksum_loop acc data) = unat acc + be_sum data"
proof (induction acc data rule: chksum_loop.induct)
  case (1 acc a b cs)
  have "unat (acc + ucast (push_bit 8 (ucast a) OR ucast b :: u16)) = unat acc + (256 * unat a + unat b)"
    using "1.prems" by (subst unat_add_lem [THEN iffD1]) (simp_all add: word16_value)
  with 1 show ?case by simp
next
  case (2 acc a)
  have "unat (ucast (push_bit 8 (ucast a) :: u16) :: u32) = 256 * unat a" using word16_value [of a 0] by simp
  then show ?case using "2.prems" by (simp add: unat_add_lem [THEN iffD1])
qed simp

lemma be_le_sum: "256 * be_sum data mod 65535 = le_sum data mod 65535" "be_sum data = 0 \<longleftrightarrow> le_sum data = 0"
proof (induction data rule: le_sum.induct)
  case (2 a)
  {
    case 1
    have "256 * (256 * unat a) = unat a + unat a * 65535" by simp
    then show ?case by (simp only: be_sum.simps le_sum.simps mod_mult_self1)
  next
    case 2
    show ?case by simp
  }
next
  case (3 a b cs)
  {
    case 1
    have "256 * be_sum (a # b # cs) = (unat a + 256 * unat b + 256 * be_sum cs) + unat a * 65535" by simp
    then have "256 * be_sum (a # b # cs) mod 65535 = (unat a + 256 * unat b + 256 * be_sum cs) mod 65535"
      by (simp only: mod_mult_self1)
    also have "\<dots> = (unat a + 256 * unat b + le_sum cs) mod 65535" using 3(1) by (metis mod_add_right_eq)
    finally show ?case by simp
  next
    case 2
    show ?case using 3(2) by auto
  }
qed simp_all

lemma standard_chksum_oc:
  assumes "length data \<le> 65535"
  shows "unat (lwip_standard_chksum data) = oc (le_sum data)"
proof -
  let ?acc = "chksum_loop 0 data"
  have "(length data + 1) div 2 \<le> 32768" using assms by simp
  then have "be_sum data \<le> 65535 * 32768" using be_sum_le [of data] by (metis le_trans mult_le_mono2)
  then have v: "unat ?acc = be_sum data" using chksum_loop_value [of 0 data] by simp
  have f: "drop_bit 16 u + (u AND 0x0000ffff) = FOLD_U32T u" for u by (simp add: FOLD_U32T_def)
  let ?acc2 = "if FOLD_U32T ?acc AND 0xffff0000 \<noteq> 0 then FOLD_U32T (FOLD_U32T ?acc) else FOLD_U32T ?acc"
  have "?acc2 = FOLD_U32T (FOLD_U32T ?acc)"
    using fold_id [of "FOLD_U32T ?acc"] by simp
  then have "unat ?acc2 = oc (be_sum data)" using fold_twice [of ?acc] v by simp
  moreover have "lwip_standard_chksum data = lwip_htons (ucast ?acc2)"
    by (simp add: lwip_standard_chksum_def f Let_def)
  moreover have "unat (ucast ?acc2 :: u16) = unat ?acc2 mod 65536" by (simp add: unsigned_ucast_eq take_bit_eq_mod)
  ultimately have "unat (lwip_standard_chksum data) = oc (256 * oc (be_sum data))"
    using oc_le [of "be_sum data"] by (simp add: htons_oc)
  then show ?thesis using oc_cong [OF be_le_sum(1) [of data]] be_le_sum(2) [of data] by (simp add: oc_mult)
qed

text \<open>Two sums that stand for the same value.\<close>

definition same_sum :: "nat \<Rightarrow> nat \<Rightarrow> bool" where
  "same_sum m n \<longleftrightarrow> m mod 65535 = n mod 65535 \<and> (m = 0 \<longleftrightarrow> n = 0)"

lemma same_sum_oc: "same_sum m n \<longleftrightarrow> oc m = oc n"
proof
  assume "oc m = oc n"
  then have "oc m mod 65535 = oc n mod 65535" "oc m = 0 \<longleftrightarrow> oc n = 0" by simp_all
  then show "same_sum m n" by (simp add: same_sum_def)
qed (auto simp: same_sum_def intro: oc_cong)

lemma same_sum_add: "same_sum m n \<Longrightarrow> same_sum (m + k) (n + k)" "same_sum m n \<Longrightarrow> same_sum (k + m) (k + n)"
  by (metis same_sum_oc oc_add, metis same_sum_oc oc_add')

lemma same_sum_mult: "(n = 0 \<Longrightarrow> k = 0) \<Longrightarrow> same_sum n (n + 65535 * k)"
  by (auto simp: same_sum_def)

lemma le_sum_shift: "same_sum (le_sum (a # r)) (unat a + 256 * le_sum r)"
proof (induction r arbitrary: a rule: le_sum.induct)
  case (3 b c cs)
  from same_sum_add(2) [OF 3 [of c], of "unat a + 256 * unat b"]
  have "same_sum (le_sum (a # b # c # cs)) (unat a + 256 * unat b + (unat c + 256 * le_sum cs))" by simp
  moreover have "unat a + 256 * unat b + (unat c + 256 * le_sum cs) + 65535 * unat c = unat a + 256 * le_sum (b # c # cs)" by simp
  then have "same_sum (unat a + 256 * unat b + (unat c + 256 * le_sum cs)) (unat a + 256 * le_sum (b # c # cs))"
    by (subst \<open>_ = _\<close> [symmetric], intro same_sum_mult) simp
  ultimately show ?case by (simp add: same_sum_oc)
qed (simp_all add: same_sum_def)

lemma le_sum_append:
  "same_sum (le_sum (q @ r)) (le_sum q + (if even (length q) then le_sum r else 256 * le_sum r))"
proof (induction q rule: le_sum.induct)
  case (2 a)
  show ?case using le_sum_shift [of a r] by simp
next
  case (3 a b cs)
  from same_sum_add(2) [OF 3, of "unat a + 256 * unat b"] show ?case by (simp add: add.assoc)
qed (simp add: same_sum_def)

text \<open>
  The accumulator holds the sum of the octets read so far, with its bytes swapped after an
  odd number of them.
\<close>

lemma pbuf_loop_value:
  assumes "\<forall>q \<in> set qs. length q \<le> 65535" "swapped \<in> {0, 1}"
    and "unat acc = oc (if swapped = 0 then T else 256 * T)" "even (length xs) \<longleftrightarrow> swapped = 0" "same_sum T (le_sum xs)"
  shows "\<exists>acc' swapped' T'. pbuf_loop acc swapped qs = (acc', swapped') \<and> swapped' \<in> {0, 1} \<and>
    unat acc' = oc (if swapped' = 0 then T' else 256 * T') \<and> same_sum T' (le_sum (xs @ concat qs))"
  using assms
proof (induction qs arbitrary: acc swapped T xs)
  case Nil
  then show ?case by auto
next
  case (Cons q qs)
  let ?L = "le_sum q"
  let ?acc = "FOLD_U32T (acc + ucast (lwip_standard_chksum q))"
  define T' where "T' = T + (if swapped = 0 then ?L else 256 * ?L)"
  define sw where "sw = (if odd (length q) then 1 - swapped else swapped)"
  have "oc ?L < 2 ^ 32" using oc_le [of ?L] by simp
  then have chk: "unat (ucast (lwip_standard_chksum q) :: u32) = oc ?L"
    using standard_chksum_oc [of q] Cons.prems(1) by (simp add: unsigned_ucast_eq take_bit_nat_eq_self)
  have le: "unat acc \<le> 65535" "oc ?L \<le> 65535" using Cons.prems(3) oc_le by simp_all
  then have sum: "unat (acc + ucast (lwip_standard_chksum q)) = unat acc + oc ?L"
    using chk by (subst unat_add_lem [THEN iffD1]) simp_all
  then have "unat ?acc = oc (unat acc + oc ?L)" using le by (subst fold_small) simp_all
  also have "\<dots> = oc ((if swapped = 0 then T else 256 * T) + ?L)" using Cons.prems(3) by (simp add: oc_add oc_add')
  also have "\<dots> = oc (if swapped = 0 then T' else 256 * T')"
  proof (cases "swapped = 0")
    case False
    have "oc (256 * T + ?L) = oc (256 * T + oc (256 * (256 * ?L)))" by (simp only: oc_256_256 oc_add')
    also have "\<dots> = oc (256 * (T + 256 * ?L))" by (simp only: oc_add' distrib_left)
    finally show ?thesis using False by (simp add: T'_def)
  qed (simp add: T'_def)
  finally have a: "unat ?acc = oc (if swapped = 0 then T' else 256 * T')" .
  define acc' where "acc' = (if odd (length q) then SWAP_BYTES_IN_WORD ?acc else ?acc)"
  have "unat acc' = oc (if sw = 0 then T' else 256 * T')"
    using a Cons.prems(2) oc_le by (auto simp: acc'_def sw_def swap_oc oc_mult oc_256_256)
  moreover have "same_sum T' (le_sum (xs @ q))"
    using same_sum_add(1) [OF Cons.prems(5)] le_sum_append [of xs q] Cons.prems(4) by (auto simp: T'_def same_sum_oc)
  moreover have "even (length (xs @ q)) \<longleftrightarrow> sw = 0" "sw \<in> {0, 1}" using Cons.prems(2,4) by (auto simp: sw_def)
  ultimately have "\<exists>acc'' swapped' T'. pbuf_loop acc' sw qs = (acc'', swapped') \<and> swapped' \<in> {0, 1} \<and>
      unat acc'' = oc (if swapped' = 0 then T' else 256 * T') \<and> same_sum T' (le_sum ((xs @ q) @ concat qs))"
    using Cons.prems(1) by (intro Cons.IH) auto
  moreover have "pbuf_loop acc swapped (q # qs) = pbuf_loop acc' sw qs"
    by (simp add: acc'_def sw_def Let_def odd_iff_mod_2_eq_one)
  ultimately show ?case by simp
qed

lemma pbuf_acc_value:
  assumes "\<forall>q \<in> set p. length q \<le> 65535"
  shows "unat (pbuf_acc p) = oc (le_sum (concat p))"
proof -
  from pbuf_loop_value [OF assms, of 0 0 0 "[]"] obtain acc swapped T where
    1: "pbuf_loop 0 0 p = (acc, swapped)" "swapped \<in> {0, 1}" "unat acc = oc (if swapped = 0 then T else 256 * T)"
      "same_sum T (le_sum (concat p))"
    by (auto simp: same_sum_def)
  have "unat (pbuf_acc p) = oc T"
    using 1(1-3) oc_le by (auto simp: pbuf_acc_def swap_oc oc_mult)
  with 1(4) show ?thesis by (simp add: same_sum_oc)
qed

lemma unat_not16: "unat (NOT (w :: u16)) = 65535 - unat w"
proof -
  have "(- 1 :: u16) = 65535" by simp
  moreover have "NOT w = - 1 - w" by (simp add: not_eq_complement)
  ultimately have "NOT w = 65535 - w" by (simp only:)
  moreover have "w \<le> 65535" using unat_u16_le [of w] by (simp add: word_le_nat_alt)
  ultimately show ?thesis using unat_sub [of w 65535] by simp
qed

lemma not_chksum:
  assumes "unat acc \<le> 65535"
  shows "unat (ucast (NOT (acc AND 0xffff :: u32)) :: u16) = 65535 - unat acc"
proof -
  have "acc AND 0xffff = take_bit 16 acc" by (simp add: take_bit_eq_mask mask_eq_exp_minus_1)
  then have "ucast (NOT (acc AND 0xffff)) = NOT (ucast acc :: u16)"
    by (simp only:) (rule bit_word_eqI, simp add: bit_simps)
  moreover have "unat (ucast acc :: u16) = unat acc" using assms by (simp add: unsigned_ucast_eq take_bit_nat_eq_self)
  ultimately show ?thesis by (simp add: unat_not16)
qed

lemma inet_chksum_value: "length data \<le> 65535 \<Longrightarrow> unat (inet_chksum data) = 65535 - oc (le_sum data)"
  by (simp add: inet_chksum_def unat_not16 standard_chksum_oc)

text \<open>The pseudo header of RFC 793 and 768, as octets in the order of the network.\<close>

definition pseudo_header :: "u32 \<Rightarrow> u32 \<Rightarrow> u8 \<Rightarrow> u16 \<Rightarrow> u8 list" where
  "pseudo_header src dest proto proto_len =
     le32_bytes src @ le32_bytes dest @ [0, proto, ucast (drop_bit 8 proto_len), ucast proto_len]"

lemma and_ffff: "unat ((w :: u32) AND 0xffff) = unat w mod 65536"
proof -
  have "w AND 0xffff = take_bit 16 w" by (simp add: take_bit_eq_mask mask_eq_exp_minus_1)
  then show ?thesis by (simp add: take_bit_eq_mod unat_mod)
qed

lemma le32_bytes_sum: "le_sum (le32_bytes w) = unat (w AND 0xffff) + unat (drop_bit 16 w AND 0xffff)"
proof -
  have b: "unat (ucast x :: u8) = unat x mod 256" for x :: u32 by (simp add: unsigned_ucast_eq take_bit_eq_mod)
  have d: "unat (drop_bit 8 w) = unat w div 256" "unat (drop_bit 16 w) = unat w div 65536"
    "unat (drop_bit 24 w) = unat w div 65536 div 256"
    by (simp_all add: drop_bit_eq_div unat_div div_mult2_eq [symmetric])
  have s: "n mod 65536 = n mod 256 + 256 * (n div 256 mod 256)" for n :: nat
    using mod_mult2_eq [of n 256 256] by simp
  show ?thesis unfolding le32_bytes_def and_ffff d by (simp only: le_sum.simps b d s)
qed

lemma pseudo_header_sum:
  "le_sum (pseudo_header src dest proto proto_len) =
     unat (src AND 0xffff) + unat (drop_bit 16 src AND 0xffff) + unat (dest AND 0xffff) + unat (drop_bit 16 dest AND 0xffff) +
     unat (lwip_htons (ucast proto)) + unat (lwip_htons proto_len)"
proof -
  have app: "le_sum (le32_bytes w @ r) = le_sum (le32_bytes w) + le_sum r" for w r by (simp add: le32_bytes_def)
  have "unat (ucast proto_len :: u8) = unat proto_len mod 256" by (simp add: unsigned_ucast_eq take_bit_eq_mod)
  moreover have "unat (ucast (drop_bit 8 proto_len) :: u8) = unat proto_len div 256"
  proof -
    have "unat proto_len div 256 < 256" using unat_u16_le [of proto_len] by (simp add: less_mult_imp_div_less)
    then show ?thesis by (simp add: unsigned_ucast_eq take_bit_eq_mod drop_bit_eq_div unat_div)
  qed
  moreover have "unat (ucast proto :: u16) = unat proto"
    using unat_u8_le [of proto] by (simp add: unsigned_ucast_eq take_bit_nat_eq_self)
  ultimately show ?thesis
    using unat_u8_le [of proto] unfolding pseudo_header_def app le32_bytes_sum htons_value by simp
qed

lemma pseudo_acc_value:
  assumes "unat acc \<le> 65535"
  shows "unat (pseudo_acc acc src dest proto proto_len) = 65535 - oc (unat acc + le_sum (pseudo_header src dest proto proto_len))"
proof -
  have c: "unat (ucast (x :: u16) :: u32) = unat x" for x
    using unat_u16_le [of x] by (simp add: unsigned_ucast_eq take_bit_nat_eq_self)
  have m: "unat (x AND 0xffff) \<le> 65535" for x :: u32
    unfolding and_ffff using mod_less_divisor [of 65536 "unat x"] by linarith
  have plus: "unat (x + y) = unat x + unat y" if "unat x \<le> 65535 * k" "unat y \<le> 65535" "k \<le> 7" for x y :: u32 and k
  proof -
    have "65535 * k \<le> 65535 * 7" using that(3) by (intro mult_le_mono2)
    then have "unat x + unat y < 2 ^ 32" using that by simp
    then show ?thesis by (simp add: unat_add_lem [THEN iffD1])
  qed
  let ?a1 = "acc + (src AND 0xffff)" let ?a2 = "?a1 + (drop_bit 16 src AND 0xffff)" let ?a3 = "?a2 + (dest AND 0xffff)"
  let ?a4 = "?a3 + (drop_bit 16 dest AND 0xffff)" let ?a5 = "?a4 + ucast (lwip_htons (ucast proto))"
  let ?a6 = "?a5 + ucast (lwip_htons proto_len)"
  have h: "unat (ucast (lwip_htons x) :: u32) \<le> 65535" for x unfolding c by (rule unat_u16_le)
  note ms = m [of src] m [of "drop_bit 16 src"] m [of dest] m [of "drop_bit 16 dest"] h [of "ucast proto"] h [of proto_len]
  have 1: "unat ?a1 = unat acc + unat (src AND 0xffff)" by (rule plus [of _ 1]) (use assms ms in linarith)+
  have 2: "unat ?a2 = unat ?a1 + unat (drop_bit 16 src AND 0xffff)"
    by (rule plus [of _ 2]) (use 1 assms ms in linarith)+
  have 3: "unat ?a3 = unat ?a2 + unat (dest AND 0xffff)"
    by (rule plus [of _ 3]) (use 1 2 assms ms in linarith)+
  have 4: "unat ?a4 = unat ?a3 + unat (drop_bit 16 dest AND 0xffff)"
    by (rule plus [of _ 4]) (use 1 2 3 assms ms in linarith)+
  have 5: "unat ?a5 = unat ?a4 + unat (ucast (lwip_htons (ucast proto)) :: u32)"
    by (rule plus [of _ 5]) (use 1 2 3 4 assms ms in linarith)+
  have 6: "unat ?a6 = unat ?a5 + unat (ucast (lwip_htons proto_len) :: u32)"
    by (rule plus [of _ 6]) (use 1 2 3 4 5 assms ms in linarith)+
  have "unat ?a6 = unat acc + le_sum (pseudo_header src dest proto proto_len)"
    unfolding 6 5 4 3 2 1 c pseudo_header_sum by simp
  then have "unat (FOLD_U32T (FOLD_U32T ?a6)) = oc (unat acc + le_sum (pseudo_header src dest proto proto_len))"
    by (simp only: fold_twice)
  then show ?thesis
    using not_chksum [of "FOLD_U32T (FOLD_U32T ?a6)"] oc_le by (simp add: pseudo_acc_def Let_def)
qed

section \<open>Properties\<close>

text \<open>
  The checksum does not depend on the buffers (C29). Over a chain of buffers cut in any way, odd
  lengths included, the checksum of TCP and UDP equals the Internet checksum of one
  contiguous buffer that holds the pseudo header followed by the data; no carry is lost for
  datagrams of up to 65535 octets.
\<close>

theorem inet_chksum_pseudo_contiguous:
  assumes "length (concat p) + 12 \<le> 65535"
  shows "inet_chksum_pseudo p src dest proto proto_len =
    inet_chksum (pseudo_header src dest proto proto_len @ concat p)"
proof -
  let ?h = "pseudo_header src dest proto proto_len"
  have len: "length ?h = 12" by (simp add: pseudo_header_def)
  have "\<forall>q \<in> set p. length q \<le> length (concat p)" by (induction p) auto
  then have "\<forall>q \<in> set p. length q \<le> 65535" using assms by fastforce
  note v = pbuf_acc_value [OF this]
  have "same_sum (le_sum (?h @ concat p)) (le_sum ?h + le_sum (concat p))" using le_sum_append [of ?h "concat p"] len by simp
  then have "oc (unat (pbuf_acc p) + le_sum ?h) = oc (le_sum (?h @ concat p))"
    by (simp add: same_sum_oc v oc_add add.commute)
  then have "unat (inet_chksum_pseudo p src dest proto proto_len) = unat (inet_chksum (?h @ concat p))"
    using pseudo_acc_value [of "pbuf_acc p"] v oc_le inet_chksum_value [of "?h @ concat p"] assms len
    by (simp add: inet_chksum_pseudo_def)
  then show ?thesis by (simp add: word_unat_eq_iff)
qed

theorem inet_chksum_pseudo_contiguous_witness:
  "inet_chksum_pseudo [[1, 2, 3], [4], [5, 6]] 0x0801A8C0 0xEA01A8C0 17 6 =
   inet_chksum (pseudo_header 0x0801A8C0 0xEA01A8C0 17 6 @ [1, 2, 3, 4, 5, 6])"
  using inet_chksum_pseudo_contiguous [of "[[1, 2, 3], [4], [5, 6]]"] by simp

text \<open>
  A sent checksum is accepted. When the checksum of a packet, computed with its checksum
  field zero, is stored in that field in the processor's byte order, the checksum over the
  whole packet is zero, which is the receiver's test.
\<close>

theorem inet_chksum_accepted:
  assumes "even (length xs)" and "length xs + length ys + 2 \<le> 65535"
  shows "let c = inet_chksum (xs @ [0, 0] @ ys)
    in inet_chksum (xs @ [ucast c, ucast (drop_bit 8 c)] @ ys) = 0"
proof -
  define c where "c = inet_chksum (xs @ [0, 0] @ ys)"
  let ?T = "le_sum xs + le_sum ys"
  have s: "oc (le_sum (xs @ [a, b] @ ys)) = oc (unat a + 256 * unat b + ?T)" for a b
    using le_sum_append [of xs "[a, b] @ ys"] assms(1) by (simp add: same_sum_oc add.left_commute)
  have c: "unat c = 65535 - oc ?T"
    using inet_chksum_value [of "xs @ [0, 0] @ ys"] s [of 0 0] assms(2) by (simp add: c_def)
  have "unat (ucast c :: u8) + 256 * unat (ucast (drop_bit 8 c) :: u8) = unat c"
  proof -
    have "unat c div 256 < 256" using unat_u16_le [of c] by (simp add: less_mult_imp_div_less)
    then show ?thesis
      by (simp add: unsigned_ucast_eq take_bit_eq_mod drop_bit_eq_div unat_div)
  qed
  then have "oc (le_sum (xs @ [ucast c, ucast (drop_bit 8 c)] @ ys)) = oc (unat c + oc ?T)"
    unfolding s by (simp only: oc_add')
  also have "unat c + oc ?T = 65535" using c oc_le [of ?T] by simp
  also have "oc 65535 = 65535" by (simp add: oc_def)
  finally have "unat (inet_chksum (xs @ [ucast c, ucast (drop_bit 8 c)] @ ys)) = 0"
    using inet_chksum_value [of "xs @ [ucast c, ucast (drop_bit 8 c)] @ ys"] assms(2) by simp
  then show ?thesis by (simp add: c_def Let_def unat_eq_zero)
qed

theorem inet_chksum_accepted_witness:
  "let c = inet_chksum ([0x45, 0, 0, 20] @ [0, 0] @ [192, 168, 1])
   in inet_chksum ([0x45, 0, 0, 20] @ [ucast c, ucast (drop_bit 8 c)] @ [192, 168, 1]) = 0"
  by (rule inet_chksum_accepted) simp_all

end
