(* ===== verification/Sd.thy ===== *)
theory Sd
  imports Mmio
begin

text \<open>
  The SD card driver: the SPI port of \<open>src/src/memory/sd_spi.c\<close> and the command, block and
  disk functions of \<open>src/src/memory/sd.c\<close>. Functions whose C name starts with an underscore
  carry it without the underscore. Debug prints have no effect on the state and are left out.
\<close>

section \<open>The SPI port (sd\_spi.c)\<close>

definition FIFOSIZE :: nat where "FIFOSIZE = 8"
definition SSPCR1_SSE :: u32 where "SSPCR1_SSE = 0x2"
definition SSPIMSC_RORIM :: u32 where "SSPIMSC_RORIM = 0x1"
definition SSPIMSC_RTIM :: u32 where "SSPIMSC_RTIM = 0x2"

definition SD_SPI_ENABLE :: "'d mmio \<Rightarrow> 'd \<Rightarrow> 'd" where
  "SD_SPI_ENABLE m d = wr m (FIOCLR 0) (push_bit 6 1) d"

definition SD_SPI_DISABLE :: "'d mmio \<Rightarrow> 'd \<Rightarrow> 'd" where
  "SD_SPI_DISABLE m d = wr m (FIOSET 0) (push_bit 6 1) d"

definition SPI_Init :: "'d mmio \<Rightarrow> 'd \<Rightarrow> 'd" where
  "SPI_Init m d =
     (let d = reg_or m SC_PCONP (push_bit 10 1) d;
          d = reg_or m SC_PCLKSEL0 (push_bit 20 1) d;
          d = reg_and m PINSEL0 (NOT (push_bit 14 3)) d;
          d = reg_or m PINSEL0 (push_bit 14 2) d;
          d = reg_and m PINSEL0 (NOT (push_bit 16 3)) d;
          d = reg_or m PINSEL0 (push_bit 16 2) d;
          d = reg_and m PINSEL0 (NOT (push_bit 18 3)) d;
          d = reg_or m PINSEL0 (push_bit 18 2) d;
          d = reg_and m PINSEL0 (NOT (push_bit 12 3)) d;
          d = reg_or m (FIODIR 0) (push_bit 6 1) d;
          d = wr m (SSP_CR0 1) 0x0707 d;
          d = wr m (SSP_CPSR 1) 0x2 d;
          d = reads m (SSP_DR 1) FIFOSIZE d;
          d = wr m (NVIC_ENABLE SSP1_IRQn) 1 d;
          d = wr m (SSP_CR1 1) SSPCR1_SSE d;
          d = wr m (SSP_IMSC 1) (SSPIMSC_RORIM OR SSPIMSC_RTIM) d
      in SD_SPI_DISABLE m d)"

definition SPI_Write :: "'d mmio \<Rightarrow> u8 \<Rightarrow> 'd \<Rightarrow> (u8 \<times> 'd) option" where
  "SPI_Write m data d = ssp_transfer m 1 data d"

definition SPI_Frequency :: "'d mmio \<Rightarrow> u32 \<Rightarrow> 'd \<Rightarrow> 'd" where
  "SPI_Frequency m frequency d =
     (if frequency = 1000000 then wr m (SSP_CPSR 1) 50 (wr m (SSP_CR0 1) 0x0107 d)
      else if frequency = 100000 then wr m (SSP_CPSR 1) 250 (wr m (SSP_CR0 1) 0x0307 d)
      else d)"

definition SSP1_IRQHandler :: "'d mmio \<Rightarrow> 'd \<Rightarrow> 'd" where
  "SSP1_IRQHandler m d = snd (rd m (SSP_MIS 1) d)"

text \<open>A sequence of \<open>SPI_Write\<close> calls whose results are ignored, and \<open>n\<close> calls that read.\<close>

fun spi_send :: "'d mmio \<Rightarrow> u8 list \<Rightarrow> 'd \<Rightarrow> 'd option" where
  "spi_send m [] d = Some d"
| "spi_send m (b # bs) d = do { (_, d) \<leftarrow> SPI_Write m b d; spi_send m bs d }"

fun spi_recv :: "'d mmio \<Rightarrow> nat \<Rightarrow> 'd \<Rightarrow> (u8 list \<times> 'd) option" where
  "spi_recv m 0 d = Some ([], d)"
| "spi_recv m (Suc n) d =
     do { (b, d) \<leftarrow> SPI_Write m 0xFF d; (bs, d) \<leftarrow> spi_recv m n d; Some (b # bs, d) }"

section \<open>Commands (sd.c)\<close>

definition SD_COMMAND_TIMEOUT :: nat where "SD_COMMAND_TIMEOUT = 5000"
definition R1_IDLE_STATE :: int where "R1_IDLE_STATE = 1"
definition R1_ILLEGAL_COMMAND :: int where "R1_ILLEGAL_COMMAND = 4"
definition SDCARD_FAIL :: int where "SDCARD_FAIL = 0"
definition SDCARD_V1 :: int where "SDCARD_V1 = 1"
definition SDCARD_V2 :: int where "SDCARD_V2 = 2"

text \<open>The six octets every command starts with: index, argument and the fixed CRC octet.\<close>

definition cmd_frame :: "u8 \<Rightarrow> u32 \<Rightarrow> u8 \<Rightarrow> u8 list" where
  "cmd_frame c arg crc =
     [0x40 OR c, ucast (drop_bit 24 arg), ucast (drop_bit 16 arg), ucast (drop_bit 8 arg), ucast arg, crc]"

text \<open>Release the card and clock it once, as every function does before it returns \<open>r\<close>.\<close>

definition spi_release :: "'d mmio \<Rightarrow> 'a \<Rightarrow> 'd \<Rightarrow> ('a \<times> 'd) option" where
  "spi_release m r d = do { (_, d) \<leftarrow> SPI_Write m 0xFF (SD_SPI_DISABLE m d); Some (r, d) }"

fun cmd_wait :: "'d mmio \<Rightarrow> nat \<Rightarrow> 'd \<Rightarrow> (int \<times> 'd) option" where
  "cmd_wait m 0 d = spi_release m (-1) d"
| "cmd_wait m (Suc i) d =
     do { (response, d) \<leftarrow> SPI_Write m 0xFF d;
          if response AND 0x80 = 0 then spi_release m (uint response) d
          else cmd_wait m i d }"

definition cmd :: "'d mmio \<Rightarrow> u8 \<Rightarrow> u32 \<Rightarrow> 'd \<Rightarrow> (int \<times> 'd) option" where
  "cmd m c arg d =
     do { d \<leftarrow> spi_send m (cmd_frame c arg 0x95) (SD_SPI_ENABLE m d);
          cmd_wait m SD_COMMAND_TIMEOUT d }"

text \<open>\<open>_cmdx\<close> leaves the card selected when it answers.\<close>

fun cmdx_wait :: "'d mmio \<Rightarrow> nat \<Rightarrow> 'd \<Rightarrow> (int \<times> 'd) option" where
  "cmdx_wait m 0 d = spi_release m (-1) d"
| "cmdx_wait m (Suc i) d =
     do { (response, d) \<leftarrow> SPI_Write m 0xFF d;
          if response AND 0x80 = 0 then Some (uint response, d)
          else cmdx_wait m i d }"

definition cmdx :: "'d mmio \<Rightarrow> u8 \<Rightarrow> u32 \<Rightarrow> 'd \<Rightarrow> (int \<times> 'd) option" where
  "cmdx m c arg d =
     do { d \<leftarrow> spi_send m (cmd_frame c arg 0x95) (SD_SPI_ENABLE m d);
          cmdx_wait m SD_COMMAND_TIMEOUT d }"

text \<open>\<open>_cmd58\<close> reads the four octets of the operating conditions register and drops them.\<close>

fun cmd58_wait :: "'d mmio \<Rightarrow> nat \<Rightarrow> 'd \<Rightarrow> (int \<times> 'd) option" where
  "cmd58_wait m 0 d = spi_release m (-1) d"
| "cmd58_wait m (Suc i) d =
     do { (response, d) \<leftarrow> SPI_Write m 0xFF d;
          if response AND 0x80 = 0 then
            do { (ocr, d) \<leftarrow> spi_recv m 4 d; spi_release m (uint response) d }
          else cmd58_wait m i d }"

definition cmd58 :: "'d mmio \<Rightarrow> 'd \<Rightarrow> (int \<times> 'd) option" where
  "cmd58 m d =
     do { d \<leftarrow> spi_send m (cmd_frame 58 0 0x95) (SD_SPI_ENABLE m d);
          cmd58_wait m SD_COMMAND_TIMEOUT d }"

text \<open>
  \<open>_cmd8\<close> stores the four octets that follow the response at \<open>response[i]\<close>, where \<open>i\<close> is
  the number of the poll that was answered and not the running index \<open>j\<close>. The array has
  five elements: \<open>i = 0\<close> overwrites the response itself and \<open>i\<close> from five on writes
  outside the array, which the model reports as a fault.
\<close>

datatype c_fault = Out_Of_Bounds

fun cmd8_wait :: "'d mmio \<Rightarrow> nat \<Rightarrow> nat \<Rightarrow> 'd \<Rightarrow> ((c_fault + int) \<times> 'd) option" where
  "cmd8_wait m i 0 d = spi_release m (Inr (-1)) d"
| "cmd8_wait m i (Suc k) d =
     do { (response0, d) \<leftarrow> SPI_Write m 0xFF d;
          if response0 AND 0x80 = 0 then
            do { (rest, d) \<leftarrow> spi_recv m 4 d;
                 spi_release m
                   (if 5 \<le> i then Inl Out_Of_Bounds
                    else Inr (uint (if i = 0 then last rest else response0))) d }
          else cmd8_wait m (Suc i) k d }"

definition cmd8 :: "'d mmio \<Rightarrow> 'd \<Rightarrow> ((c_fault + int) \<times> 'd) option" where
  "cmd8 m d =
     do { d \<leftarrow> spi_send m [0x40 OR 8, 0x00, 0x00, 0x01, 0xAA, 0x87] (SD_SPI_ENABLE m d);
          cmd8_wait m 0 (SD_COMMAND_TIMEOUT * 1000) d }"

section \<open>Data blocks\<close>

text \<open>\<open>while (SPI_Write(0xFF) != 0xFE);\<close> and \<open>while (SPI_Write(0xFF) == 0) i++;\<close>\<close>

partial_function (option) spi_until :: "'d mmio \<Rightarrow> (u8 \<Rightarrow> bool) \<Rightarrow> 'd \<Rightarrow> 'd option" where
  "spi_until m P d = do { (r, d) \<leftarrow> SPI_Write m 0xFF d; if P r then Some d else spi_until m P d }"

text \<open>The octets \<open>_block_read\<close> puts into the buffer, and the rest of the 512 it drops.\<close>

definition block_read :: "'d mmio \<Rightarrow> nat \<Rightarrow> 'd \<Rightarrow> (u8 list \<times> 'd) option" where
  "block_read m len d =
     do { d \<leftarrow> spi_until m (\<lambda>r. r = 0xFE) (SD_SPI_ENABLE m d);
          (buffer, d) \<leftarrow> spi_recv m len d;
          (dummy, d) \<leftarrow> spi_recv m (512 - len) d;
          d \<leftarrow> spi_send m [0xFF, 0xFF] d;
          spi_release m buffer d }"

definition block_write :: "'d mmio \<Rightarrow> u8 list \<Rightarrow> nat \<Rightarrow> 'd \<Rightarrow> (int \<times> 'd) option" where
  "block_write m buffer len d =
     do { d \<leftarrow> spi_send m ([0xFE] @ take len buffer @ replicate (512 - len) 0xFF @ [0xFF, 0xFF])
            (SD_SPI_ENABLE m d);
          (token, d) \<leftarrow> SPI_Write m 0xFF d;
          if token AND 0x1F \<noteq> 0x05 then spi_release m 1 d
          else do { d \<leftarrow> spi_until m (\<lambda>r. r \<noteq> 0) d; spi_release m 0 d } }"

section \<open>Disk access\<close>

definition disk_write :: "'d mmio \<Rightarrow> u8 list \<Rightarrow> nat \<Rightarrow> u64 \<Rightarrow> 'd \<Rightarrow> (int \<times> 'd) option" where
  "disk_write m buffer len block_number d =
     (if len > 512 then Some (0, d)
      else if block_number > 0x007FFFFF then Some (0, d)
      else do { (r, d) \<leftarrow> cmd m 24 (ucast (block_number * 512)) d;
                if r \<noteq> 0 then Some (1, d)
                else do { (_, d) \<leftarrow> block_write m buffer len d; Some (0, d) } })"

text \<open>The return value, the buffer afterwards and the state.\<close>

definition disk_read :: "'d mmio \<Rightarrow> u8 list \<Rightarrow> nat \<Rightarrow> u64 \<Rightarrow> 'd \<Rightarrow> (int \<times> u8 list \<times> 'd) option" where
  "disk_read m buffer len block_number d =
     (if len > 512 then Some (0, buffer, d)
      else if block_number > 0x007FFFFF then Some (0, buffer, d)
      else do { (r, d) \<leftarrow> cmd m 17 (ucast (block_number * 512)) d;
                if r \<noteq> 0 then Some (1, buffer, d)
                else do { (bs, d) \<leftarrow> block_read m len d; Some (0, bs @ drop len buffer, d) } })"

section \<open>Card size and initialisation\<close>

text \<open>The globals of \<open>sd.c\<close> beside the hardware state; \<open>sectors\<close> is \<open>_sectors\<close>.\<close>

record 'd sdst =
  hwst :: 'd
  sectors :: u64
  cdv :: int

definition ext_bits :: "u8 list \<Rightarrow> nat \<Rightarrow> nat \<Rightarrow> u32" where
  "ext_bits data msb lsb =
     fold (\<lambda>i bits.
         let position = lsb + i;
             byte = 15 - position div 8;
             bit = position mod 8;
             val = drop_bit bit (ucast (data ! byte)) AND 1
         in bits OR push_bit i val)
       [0..<1 + msb - lsb] 0"

definition sd_sectors :: "'d mmio \<Rightarrow> ('d, 'z) sdst_scheme \<Rightarrow> (u64 \<times> ('d, 'z) sdst_scheme) option" where
  "sd_sectors m s =
     do { (r, d) \<leftarrow> cmdx m 9 0 (hwst s);
          let s = s\<lparr>hwst := d\<rparr>;
          if r \<noteq> 0 then Some (0, s)
          else do {
            (csd, d) \<leftarrow> block_read m 16 (hwst s);
            let s = s\<lparr>hwst := d\<rparr>;
            let csd_structure = ext_bits csd 127 126;
            if csd_structure = 0 then
              (let c_size = ext_bits csd 73 62;
                   c_size_mult = ext_bits csd 49 47;
                   read_bl_len = ext_bits csd 83 80;
                   block_len = push_bit (unat read_bl_len) 1;
                   mult = push_bit (unat (c_size_mult + 2)) 1;
                   blocknr = (c_size + 1) * mult;
                   capacity = blocknr * block_len
               in Some (ucast (capacity div 512), s\<lparr>cdv := 512\<rparr>))
            else if csd_structure = 1 then
              (let hc_c_size = ext_bits csd 63 48
               in Some (ucast ((hc_c_size + 1) * 1024), s\<lparr>cdv := 1\<rparr>))
            else Some (0, s) } }"

fun init_v1_loop :: "'d mmio \<Rightarrow> nat \<Rightarrow> ('d, 'z) sdst_scheme \<Rightarrow> (int \<times> ('d, 'z) sdst_scheme) option" where
  "init_v1_loop m 0 s = Some (SDCARD_FAIL, s)"
| "init_v1_loop m (Suc i) s =
     do { (_, d) \<leftarrow> cmd m 55 0 (hwst s);
          (r, d) \<leftarrow> cmd m 41 0 d;
          if r = 0 then Some (SDCARD_V1, s\<lparr>hwst := d, cdv := 512\<rparr>)
          else init_v1_loop m i (s\<lparr>hwst := d\<rparr>) }"

definition initialise_card_v1 :: "'d mmio \<Rightarrow> ('d, 'z) sdst_scheme \<Rightarrow> (int \<times> ('d, 'z) sdst_scheme) option" where
  "initialise_card_v1 m s = init_v1_loop m SD_COMMAND_TIMEOUT s"

fun init_v2_loop :: "'d mmio \<Rightarrow> nat \<Rightarrow> ('d, 'z) sdst_scheme \<Rightarrow> (int \<times> ('d, 'z) sdst_scheme) option" where
  "init_v2_loop m 0 s = Some (SDCARD_FAIL, s)"
| "init_v2_loop m (Suc i) s =
     do { (_, d) \<leftarrow> cmd58 m (hwst s);
          (_, d) \<leftarrow> cmd m 55 0 d;
          (r, d) \<leftarrow> cmd m 41 0x40000000 d;
          if r = 0 then
            do { (_, d) \<leftarrow> cmd58 m d; Some (SDCARD_V2, s\<lparr>hwst := d, cdv := 1\<rparr>) }
          else init_v2_loop m i (s\<lparr>hwst := d\<rparr>) }"

definition initialise_card_v2 :: "'d mmio \<Rightarrow> ('d, 'z) sdst_scheme \<Rightarrow> (int \<times> ('d, 'z) sdst_scheme) option" where
  "initialise_card_v2 m s = init_v2_loop m SD_COMMAND_TIMEOUT s"

text \<open>
  \<open>for (i = 0; _cmd(0, 0) != R1_IDLE_STATE && i < 5; i++);\<close> with \<open>k\<close> the iterations left,
  so that \<open>i = 5 - k\<close>; the final value of \<open>i\<close> is returned.
\<close>

fun cmd0_loop :: "'d mmio \<Rightarrow> nat \<Rightarrow> 'd \<Rightarrow> (nat \<times> 'd) option" where
  "cmd0_loop m 0 d = do { (r, d) \<leftarrow> cmd m 0 0 d; Some (5, d) }"
| "cmd0_loop m (Suc k) d =
     do { (r, d) \<leftarrow> cmd m 0 0 d;
          if r \<noteq> R1_IDLE_STATE then cmd0_loop m k d else Some (5 - Suc k, d) }"

definition initialise_card ::
  "'d mmio \<Rightarrow> ('d, 'z) sdst_scheme \<Rightarrow> ((c_fault + int) \<times> ('d, 'z) sdst_scheme) option" where
  "initialise_card m s =
     do { let d = SD_SPI_DISABLE m (SPI_Frequency m 100000 (hwst s));
          d \<leftarrow> spi_send m (replicate 16 0xFF) d;
          (i, d) \<leftarrow> cmd0_loop m 5 d;
          if i = 5 then Some (Inr SDCARD_FAIL, s\<lparr>hwst := d\<rparr>)
          else do {
            (r, d) \<leftarrow> cmd8 m d;
            let s = s\<lparr>hwst := d\<rparr>;
            case r of
              Inl f \<Rightarrow> Some (Inl f, s)
            | Inr r \<Rightarrow>
                if r = R1_IDLE_STATE then map_option (apfst Inr) (initialise_card_v2 m s)
                else if r = (or R1_IDLE_STATE R1_ILLEGAL_COMMAND) then map_option (apfst Inr) (initialise_card_v1 m s)
                else Some (Inr SDCARD_FAIL, s) } }"

definition disk_initialize ::
  "'d mmio \<Rightarrow> ('d, 'z) sdst_scheme \<Rightarrow> ((c_fault + int) \<times> ('d, 'z) sdst_scheme) option" where
  "disk_initialize m s =
     do { (i, s) \<leftarrow> initialise_card m s;
          case i of
            Inl f \<Rightarrow> Some (Inl f, s)
          | Inr i \<Rightarrow>
              do { (n, s) \<leftarrow> sd_sectors m s;
                   let s = s\<lparr>sectors := n\<rparr>;
                   (r, d) \<leftarrow> cmd m 16 512 (hwst s);
                   let s = s\<lparr>hwst := d\<rparr>;
                   if r \<noteq> 0 then Some (Inr 1, s)
                   else Some (Inr 0, s\<lparr>hwst := SPI_Frequency m 1000000 (hwst s)\<rparr>) } }"

definition disk_sectors :: "('d, 'z) sdst_scheme \<Rightarrow> u64" where
  "disk_sectors s = sectors s"

end
