(* ===== verification/Radio_Irq.thy ===== *)
theory Radio_Irq
  imports Radio_Functions Sd
begin

text \<open>
  The radio's interrupt side, \<open>src/src/radio/radio_irq.c\<close>, its client side
  \<open>src/src/radio/radio.c\<close>, and the wiring of the interface to the microcontroller,
  \<open>src/src/radio/rf212.c\<close> and \<open>src/src/radio/rf212_functions.c\<close>. The main program waits for the
  interrupt handlers; which interrupt is taken while it waits is decided by the hardware.
\<close>

section \<open>Commands\<close>

definition radio_command :: "'d radif \<Rightarrow> 'd \<Rightarrow> ('d radif \<times> 'd) option" where
  "radio_command r d =
     do { (r, d) \<leftarrow>
            (if Command r = RADIF_NO_COMMAND then Some (r, d)
             else if Command r = RADIF_RESET then
               do { (v, d) \<leftarrow> radio_reset r d; Some (r\<lparr>CommandOutput := v\<rparr>, d) }
             else if Command r = RADIF_STARTUP then
               do { (r, d) \<leftarrow> radio_config r d; Some (r\<lparr>up := 0xFF\<rparr>, d) }
             else if Command r = RADIF_GET_RANDOM_NUMBER then
               do { (v, d) \<leftarrow> radio_get_random r d; Some (r\<lparr>CommandOutput := v\<rparr>, d) }
             else if Command r = RADIF_SET_MODULATION then
               do { d \<leftarrow> radio_set_modulation r d; Some (r, d) }
             else if Command r = RADIF_SET_FREQ then
               do { (v, d) \<leftarrow> radio_set_freq r d; Some (r\<lparr>CommandOutput := v\<rparr>, d) }
             else if Command r = RADIF_SET_POWER then
               do { d \<leftarrow> radio_set_pwr r d; Some (r, d) }
             else if Command r = RADIF_SET_ADDRESS then
               do { d \<leftarrow> radio_set_address r d; Some (r, d) }
             else if Command r = RADIF_ENERGY then
               do { (v, d) \<leftarrow> radio_measure_energy r d; Some (r\<lparr>CommandOutput := v\<rparr>, d) }
             else if Command r = RADIF_WAKE then
               do { d \<leftarrow> radio_wake r d; Some (r\<lparr>up := 0xFF\<rparr>, d) }
             else if Command r = RADIF_SLEEP then
               do { d \<leftarrow> radio_sleep r d; Some (r\<lparr>up := 0\<rparr>, d) }
             else Some (r, d));
          Some (r\<lparr>Command := RADIF_NO_COMMAND\<rparr>, d) }"

section \<open>Transmission\<close>

text \<open>The next index of a ring of eight frames, \<open>(index + 1) % 8\<close>.\<close>

definition frame_next :: "u8 \<Rightarrow> u8" where
  "frame_next index = of_nat ((unat index + 1) mod NUM_TXFRAMES)"

definition radio_tx :: "'d radif \<Rightarrow> 'd \<Rightarrow> ('d radif \<times> 'd) option" where
  "radio_tx r d =
     (let index = TxConsumeIndex r
      in if index \<noteq> TxProduceIndex r then
           do { (busy, d) \<leftarrow> radio_is_state_busy r d;
                if \<not> busy then
                  do { let tx = TxFrames r ! unat index;
                       (_, d) \<leftarrow> radio_set_state TRX_OFF r d;
                       (_, d) \<leftarrow> radio_set_state TX_ARET_ON r d;
                       (r, d) \<leftarrow> radio_frame_write tx r d;
                       d \<leftarrow> radio_reg_read_mod_write TRX_STATE CMD_TX_START 0x1F r d;
                       Some (r\<lparr>TxConsumeIndex := frame_next index\<rparr>, d) }
                else Some (r, d) }
         else Some (r, d))"

definition tx_end_stats :: "u8 \<Rightarrow> 'd radif \<Rightarrow> 'd radif" where
  "tx_end_stats trac_status r =
     (let r = r\<lparr>last_trac_status := ucast trac_status\<rparr>
      in if trac_status = TRAC_SUCCESS \<or> trac_status = TRAC_SUCCESS_DATA_PENDING
         then r\<lparr>tx_success_count := tx_success_count r + 1\<rparr>
         else if trac_status = TRAC_CHANNEL_ACCESS_FAIL then r\<lparr>tx_channel_fail := tx_channel_fail r + 1\<rparr>
         else if trac_status = TRAC_NO_ACK then r\<lparr>tx_noack := tx_noack r + 1\<rparr>
         else r\<lparr>tx_invalid := tx_invalid r + 1\<rparr>)"

definition radio_tx_end :: "'d radif \<Rightarrow> 'd \<Rightarrow> ('d radif \<times> 'd) option" where
  "radio_tx_end r d =
     do { (trac_status, d) \<leftarrow> radio_get_trac r d; Some (tx_end_stats trac_status r, d) }"

section \<open>Reception\<close>

definition radio_rx_end :: "'d radif \<Rightarrow> 'd \<Rightarrow> ('d radif \<times> 'd) option" where
  "radio_rx_end r d =
     do { let index = RxProduceIndex r;
          let next = frame_next index;
          (r, d) \<leftarrow>
            (if next \<noteq> RxConsumeIndex r then
               do { let rx = RxFrames r ! unat index;
                    (ed, d) \<leftarrow> radio_reg_read PHY_ED_LEVEL r d;
                    (rssi, d) \<leftarrow> radio_reg_read PHY_RSSI r d;
                    let rx = rx\<lparr>energy_detect := ed, crc_status := (if bit rssi 7 then 1 else 0)\<rparr>;
                    (_, rx, d) \<leftarrow> radio_frame_read rx r d;
                    Some (r\<lparr>RxFrames := (RxFrames r)[unat index := rx], RxProduceIndex := next,
                            rx_success_count := rx_success_count r + 1\<rparr>, d) }
             else
               do { d \<leftarrow> radio_frame_read_dummy (r\<lparr>rx_overflow := rx_overflow r + 1\<rparr>) d;
                    Some (r\<lparr>rx_overflow := rx_overflow r + 1\<rparr>, d) });
          d \<leftarrow> radio_wait_leaves BUSY_RX_AACK r d;
          Some (r, d) }"

definition radio_trx_end :: "'d radif \<Rightarrow> 'd \<Rightarrow> ('d radif \<times> 'd) option" where
  "radio_trx_end r d =
     do { (state, d) \<leftarrow> radio_get_state r d;
          if state = RX_ON \<or> state = RX_AACK_ON \<or> state = BUSY_RX_AACK then radio_rx_end r d
          else radio_tx_end r d }"

section \<open>The interrupt\<close>

text \<open>\<open>while (radio_set_state(RX_AACK_ON, radif) != RADIO_SUCCESS);\<close>\<close>

partial_function (option) radio_listen :: "'d radif \<Rightarrow> 'd \<Rightarrow> 'd option" where
  "radio_listen r d =
     do { (v, d) \<leftarrow> radio_set_state RX_AACK_ON r d;
          if v \<noteq> RADIO_SUCCESS then radio_listen r d else Some d }"

definition radio_irq :: "'d radif \<Rightarrow> 'd \<Rightarrow> ('d radif \<times> 'd) option" where
  "radio_irq r d =
     do { (r, d) \<leftarrow>
            (if up r \<noteq> 0 then
               do { (intp_src, d) \<leftarrow> radio_reg_read IRQ_STATUS r d;
                    (r, d) \<leftarrow> (if intp_src AND RADIO_IRQ_TRX_END \<noteq> 0 then radio_trx_end r d else Some (r, d));
                    radio_tx r d }
             else Some (r, d));
          (r, d) \<leftarrow> radio_command r d;
          if up r \<noteq> 0 then
            do { (busy, d) \<leftarrow> radio_is_state_busy r d;
                 if \<not> busy then do { d \<leftarrow> radio_listen r d; Some (r, d) }
                 else Some (r, d) }
          else Some (r, d) }"

definition TIMER2_IRQHandler :: "'d mmio \<Rightarrow> 'd radif \<Rightarrow> 'd \<Rightarrow> ('d radif \<times> 'd) option" where
  "TIMER2_IRQHandler m r d =
     (let d = reg_or m (TIM_IR 2) 0x3F d;
          d = wr m (NVIC_DISABLE TIMER2_IRQn) 1 d;
          d = wr m (TIM_TCR 2) 0x2 d;
          d = reg_and m SC_PCONP (NOT (push_bit 22 1)) d
      in radio_irq r d)"

definition EINT1_IRQHandler :: "'d mmio \<Rightarrow> 'd radif \<Rightarrow> 'd \<Rightarrow> ('d radif \<times> 'd) option" where
  "EINT1_IRQHandler m r d = radio_irq r (reg_or m SC_EXTINT (push_bit 1 1) d)"

text \<open>
  The interrupts that can preempt the applications; those run in the handler of the
  repetitive timer, which has the lowest priority and does not preempt itself.
\<close>

definition take_interrupt :: "'d mmio \<Rightarrow> irq \<Rightarrow> 'd radif \<Rightarrow> 'd \<Rightarrow> ('d radif \<times> 'd) option" where
  "take_interrupt m i r d =
     (case i of
        TIMER2_IRQn \<Rightarrow> TIMER2_IRQHandler m r d
      | EINT1_IRQn \<Rightarrow> EINT1_IRQHandler m r d
      | SSP1_IRQn \<Rightarrow> Some (r, SSP1_IRQHandler m d)
      | RIT_IRQn \<Rightarrow> Some (r, d))"

text \<open>\<open>while (P);\<close> where only an interrupt handler can end the wait.\<close>

partial_function (option) wait_interrupts ::
  "'d mmio \<Rightarrow> ('d radif \<Rightarrow> bool) \<Rightarrow> 'd radif \<Rightarrow> 'd \<Rightarrow> ('d radif \<times> 'd) option" where
  "wait_interrupts m P r d =
     (if \<not> P r then Some (r, d)
      else case intr m d of
        (None, d) \<Rightarrow> wait_interrupts m P r d
      | (Some i, d) \<Rightarrow> do { (r, d) \<leftarrow> take_interrupt m i r d; wait_interrupts m P r d })"

section \<open>The client side (radio.c)\<close>

definition radif_command :: "'d mmio \<Rightarrow> u8 \<Rightarrow> 'd radif \<Rightarrow> 'd \<Rightarrow> (u8 \<times> 'd radif \<times> 'd) option" where
  "radif_command m command r d =
     do { let r = r\<lparr>Command := command\<rparr>;
          let d = interrupt_trigger r d;
          (r, d) \<leftarrow> wait_interrupts m (\<lambda>r. Command r \<noteq> 0) r d;
          Some (CommandOutput r, r, d) }"

definition radif_send ::
  "'d mmio \<Rightarrow> u8 list \<Rightarrow> u8 \<Rightarrow> u16 \<Rightarrow> u8 \<Rightarrow> 'd radif \<Rightarrow> 'd \<Rightarrow> ('d radif \<times> 'd) option" where
  "radif_send m frame len dest_addr ack r d =
     (if len > 127 then None
      else
        let index = TxProduceIndex r;
            next = frame_next index;
            full = (next = TxConsumeIndex r)
        in if full \<and> up r = 0 then Some (r, d)
           else do {
             (r, d) \<leftarrow> (if full then wait_interrupts m (\<lambda>r. next = TxConsumeIndex r) r (interrupt_trigger r d)
                       else Some (r, d));
             let tx = TxFrames r ! unat index;
             let tx = tx\<lparr>tx_data := take (unat len) frame @ drop (unat len) (tx_data tx),
                         destination_address := dest_addr, tx_length := len, tx_ack := ack\<rparr>;
             let r = r\<lparr>TxFrames := (TxFrames r)[unat index := tx], TxProduceIndex := next\<rparr>;
             Some (r, interrupt_trigger r d) })"

definition blank_rx :: rx_frame where
  "blank_rx = \<lparr>rx_data = replicate FRAME_DATA 0, rx_length = 0, crc_status = 0, energy_detect = 0, source_address = 0\<rparr>"

definition blank_tx :: tx_frame where
  "blank_tx = \<lparr>tx_data = replicate FRAME_DATA 0, tx_length = 0, tx_ack = 0, destination_address = 0\<rparr>"

text \<open>
  \<open>memset\<close> of the structure to zero. A null function pointer has no meaning of its own;
  \<open>rf212_init\<close> sets all of them before the first call, so that the model keeps the argument's.
\<close>

definition radif_init_struct :: "'d radif \<Rightarrow> 'd radif" where
  "radif_init_struct r =
     r\<lparr>RxProduceIndex := 0, RxConsumeIndex := 0, TxConsumeIndex := 0, TxProduceIndex := 0,
       RxFrames := replicate NUM_RXFRAMES blank_rx, TxFrames := replicate NUM_TXFRAMES blank_tx,
       Command := 0, CommandOutput := 0, clkm_config := 0, auto_crc_gen := 0, promiscuous := 0,
       freq := 0, power := 0, modulation := 0, pan_id := 0, short_address := 0, up := 0, seq := 0,
       rx_callback := None, rx_success_count := 0, rx_overflow := 0, tx_success_count := 0,
       tx_channel_fail := 0, tx_noack := 0, tx_invalid := 0, last_trac_status := 0\<rparr>"

section \<open>Pins, SPI and timers (rf212\_functions.c)\<close>

definition RF212_SSEL_PIN :: nat where [simp]: "RF212_SSEL_PIN = 16"
definition RF212_RESET_PIN :: nat where [simp]: "RF212_RESET_PIN = 1"
definition RF212_SLPTR_PIN :: nat where [simp]: "RF212_SLPTR_PIN = 2"

definition rf212_reset_enable :: "'d mmio \<Rightarrow> 'd \<Rightarrow> 'd" where
  "rf212_reset_enable m d = wr m (FIOCLR 2) (push_bit RF212_RESET_PIN 1) d"
definition rf212_reset_disable :: "'d mmio \<Rightarrow> 'd \<Rightarrow> 'd" where
  "rf212_reset_disable m d = wr m (FIOSET 2) (push_bit RF212_RESET_PIN 1) d"
definition rf212_slptr_enable :: "'d mmio \<Rightarrow> 'd \<Rightarrow> 'd" where
  "rf212_slptr_enable m d = wr m (FIOSET 2) (push_bit RF212_SLPTR_PIN 1) d"
definition rf212_slptr_disable :: "'d mmio \<Rightarrow> 'd \<Rightarrow> 'd" where
  "rf212_slptr_disable m d = wr m (FIOCLR 2) (push_bit RF212_SLPTR_PIN 1) d"
definition rf212_spi_enable :: "'d mmio \<Rightarrow> 'd \<Rightarrow> 'd" where
  "rf212_spi_enable m d = wr m (FIOCLR 0) (push_bit RF212_SSEL_PIN 1) d"
definition rf212_spi_disable :: "'d mmio \<Rightarrow> 'd \<Rightarrow> 'd" where
  "rf212_spi_disable m d = wr m (FIOSET 0) (push_bit RF212_SSEL_PIN 1) d"

definition rf212_xfer :: "'d mmio \<Rightarrow> u8 \<Rightarrow> 'd \<Rightarrow> (u8 \<times> 'd) option" where
  "rf212_xfer m data d = ssp_transfer m 0 data d"

definition rf212_spi_init :: "'d mmio \<Rightarrow> 'd \<Rightarrow> 'd" where
  "rf212_spi_init m d =
     (let d = reg_or m SC_PCONP (push_bit 21 1) d;
          d = reg_or m SC_PCLKSEL0 (push_bit 10 1) d;
          d = reg_and m PINSEL0 (NOT (push_bit 30 3)) d;
          d = reg_or m PINSEL0 (push_bit 30 2) d;
          d = reg_and m PINSEL1 (NOT (push_bit 2 3)) d;
          d = reg_or m PINSEL1 (push_bit 2 2) d;
          d = reg_and m PINSEL1 (NOT (push_bit 4 3)) d;
          d = reg_or m PINSEL1 (push_bit 4 2) d;
          d = wr m (SSP_CR0 0) 0x0707 d;
          d = wr m (SSP_CPSR 0) 0x2 d;
          d = reads m (SSP_DR 0) FIFOSIZE d;
          d = wr m (SSP_CR1 0) SSPCR1_SSE d;
          d = wr m (SSP_IMSC 0) (SSPIMSC_RORIM OR SSPIMSC_RTIM) d
      in rf212_spi_disable m d)"

definition rf212_io_init :: "'d mmio \<Rightarrow> 'd \<Rightarrow> 'd" where
  "rf212_io_init m d =
     (let d = reg_or m (FIODIR 2) (push_bit RF212_RESET_PIN 1) d;
          d = reg_or m (FIODIR 2) (push_bit RF212_SLPTR_PIN 1) d;
          d = reg_or m (FIODIR 0) (push_bit RF212_SSEL_PIN 1) d;
          d = rf212_spi_init m d;
          d = reg_or m PINSEL4 (push_bit 22 1) d;
          d = reg_or m SC_EXTMODE (push_bit 1 1) d;
          d = reg_or m SC_EXTPOLAR (push_bit 1 1) d;
          d = reg_or m SC_EXTINT (push_bit 1 1) d;
          d = wr m (NVIC_PRIO EINT1_IRQn) 5 d
      in wr m (NVIC_ENABLE EINT1_IRQn) 1 d)"

definition rf212_delay_us :: "'d mmio \<Rightarrow> u32 \<Rightarrow> 'd \<Rightarrow> 'd option" where
  "rf212_delay_us m us d =
     do { let d = reg_or m SC_PCONP (push_bit 1 1) d;
          let d = wr m (TIM_TCR 0) 0x2 d;
          let d = wr m (TIM_PR 0) 25 d;
          let d = wr m (TIM_MR0 0) us d;
          let d = reg_or m (TIM_MCR 0) (push_bit 0 1 OR push_bit 2 1) d;
          let d = reg_or m (TIM_IR 0) 0x3F d;
          let d = wr m (TIM_TCR 0) 0x1 d;
          d \<leftarrow> poll m (TIM_IR 0) (\<lambda>v. v AND 0x1 \<noteq> 0) d;
          let d = wr m (TIM_TCR 0) 0x2 d;
          Some (reg_and m SC_PCONP (NOT (push_bit 1 1)) d) }"

definition rf212_trigger_interrupt :: "'d mmio \<Rightarrow> 'd \<Rightarrow> 'd" where
  "rf212_trigger_interrupt m d =
     (let d = reg_or m SC_PCONP (push_bit 22 1) d;
          d = wr m (TIM_TCR 2) 0x2 d;
          d = wr m (TIM_PR 2) 1 d;
          d = wr m (TIM_MR0 2) 1 d;
          d = reg_or m (TIM_MCR 2) (push_bit 0 1 OR push_bit 2 1) d;
          d = reg_or m (TIM_IR 2) 0x3F d;
          d = wr m (NVIC_PRIO TIMER2_IRQn) 5 d;
          d = wr m (NVIC_ENABLE TIMER2_IRQn) 1 d
      in wr m (TIM_TCR 2) 0x1 d)"

section \<open>Start-up (rf212.c)\<close>

definition rf212_connect :: "'d mmio \<Rightarrow> rx_callback_func \<Rightarrow> 'd radif \<Rightarrow> 'd radif" where
  "rf212_connect m callback r =
     (radif_init_struct r)\<lparr>
       spi_start := rf212_spi_enable m, spi_xfer := rf212_xfer m, spi_stop := rf212_spi_disable m,
       slptr_set := rf212_slptr_enable m, slptr_clear := rf212_slptr_disable m,
       reset_set := rf212_reset_enable m, reset_clear := rf212_reset_disable m,
       delay_us := rf212_delay_us m, interrupt_trigger := rf212_trigger_interrupt m,
       auto_crc_gen := 0xFF, clkm_config := 0x19, freq := 8683, power := 0xe8,
       modulation := RADIF_OQPSK_400KCHIPS_200KBITS_S, pan_id := 0x1234, short_address := 0x0001,
       rx_callback := Some callback\<rparr>"

definition rf212_init :: "'d mmio \<Rightarrow> rx_callback_func \<Rightarrow> 'd radif \<Rightarrow> 'd \<Rightarrow> ('d radif \<times> 'd) option" where
  "rf212_init m callback r d =
     do { let r = rf212_connect m callback r;
          let d = rf212_io_init m d;
          (_, r, d) \<leftarrow> radif_command m RADIF_RESET r d;
          (_, r, d) \<leftarrow> radif_command m RADIF_SET_MODULATION r d;
          (_, r, d) \<leftarrow> radif_command m RADIF_SET_FREQ r d;
          (_, r, d) \<leftarrow> radif_command m RADIF_SET_POWER r d;
          (_, r, d) \<leftarrow> radif_command m RADIF_SET_ADDRESS r d;
          (_, r, d) \<leftarrow> radif_command m RADIF_STARTUP r d;
          Some (r, d) }"

end
