(* ===== verification/Radio_Frames.thy ===== *)
theory Radio_Frames
  imports Radio_Functions
begin

text \<open>
  What goes over the air. The octets that \<open>radio_frame_write\<close> hands to the radio are
  characterised as a list, and a receiver that is given the same octets by its radio
  recovers the payload and the sender's address.
\<close>

section \<open>The octets of a frame\<close>

definition word_octets :: "u16 \<Rightarrow> u8 list" where
  "word_octets w = [ucast (w AND 0xFF), ucast (drop_bit 8 w AND 0xFF)]"

definition header_octets :: "tx_frame \<Rightarrow> 'd radif \<Rightarrow> u8 list" where
  "header_octets tx r =
     word_octets (ieee_fcf tx) @ [seq r] @ word_octets (pan_id r) @
     word_octets (destination_address tx) @ word_octets (short_address r)"

definition psdu :: "tx_frame \<Rightarrow> 'd radif \<Rightarrow> u8 list" where
  "psdu tx r = header_octets tx r @ take (unat (tx_length tx)) (tx_data tx)"

lemma xfers_append:
  "xfers r (as @ bs) d = do { (xs, d) \<leftarrow> xfers r as d; (ys, d) \<leftarrow> xfers r bs d; Some (xs @ ys, d) }"
  by (induction as arbitrary: d) (auto split: bind_splits prod.splits)

lemma xfers_length: "xfers r bs d = Some (xs, d') \<Longrightarrow> length xs = length bs"
  by (induction bs arbitrary: d xs) (auto split: bind_splits)

lemma xfers_split:
  assumes "xfers r (replicate (length as + n) 0) d = Some (as @ bs, d')"
  obtains d1 where "xfers r (replicate (length as) 0) d = Some (as, d1)" "xfers r (replicate n 0) d1 = Some (bs, d')"
proof -
  from assms obtain xs d1 ys where
    1: "xfers r (replicate (length as) 0) d = Some (xs, d1)" "xfers r (replicate n 0) d1 = Some (ys, d')" "as @ bs = xs @ ys"
    by (auto simp: replicate_add xfers_append split: bind_splits)
  with xfers_length [OF 1(1)] that show ?thesis by auto
qed

lemma word_octets_join [simp]:
  "push_bit 8 (ucast (ucast (drop_bit 8 w AND 0xFF) :: u8)) OR ucast (ucast (w AND 0xFF) :: u8) = (w :: u16)"
proof (rule bit_word_eqI)
  fix n assume "n < LENGTH(16)"
  have "0xFF = (mask 8 :: u16)" by (simp add: mask_eq_exp_minus_1)
  then show "bit (push_bit 8 (ucast (ucast (drop_bit 8 w AND 0xFF) :: u8)) OR ucast (ucast (w AND 0xFF) :: u8) :: u16) n = bit w n"
    using \<open>n < LENGTH(16)\<close> by (simp only: bit_simps) auto
qed

lemma length_header_octets [simp]: "length (header_octets tx r) = 9"
  by (simp add: header_octets_def word_octets_def)

text \<open>Sending words and the header is sending their octets.\<close>

lemma write_spi_word_xfers: "write_spi_word w r d = do { (_, d) \<leftarrow> xfers r (word_octets w) d; Some d }"
  by (auto simp: write_spi_word_def word_octets_def split: bind_splits)

lemma xfers_seq [simp]: "xfers (r\<lparr>seq := x\<rparr>) bs d = xfers r bs d"
  by (induction bs arbitrary: d) (simp_all)

lemma write_out_ieee_header_xfers:
  "write_out_ieee_header tx r d =
     do { (_, d) \<leftarrow> xfers r (header_octets tx r) d; Some (r\<lparr>seq := seq r + 1\<rparr>, d) }"
  by (auto simp: write_out_ieee_header_def header_octets_def write_spi_word_xfers xfers_append Let_def
      split: bind_splits)

lemma read_spi_word_xfers:
  "xfers r [0, 0] d = Some (word_octets w, d') \<Longrightarrow> read_spi_word r d = Some (w, d')"
  by (auto simp: read_spi_word_def word_octets_def split: bind_splits)

lemma fcf_fields:
  "ieee_fcf tx AND 0x40 = 0x40" "drop_bit 10 (ieee_fcf tx) AND 3 = 2" "drop_bit 14 (ieee_fcf tx) AND 3 = 2"
  by (simp_all add: ieee_fcf_def Let_def)

lemma read_in_header_octets:
  assumes "xfers r (replicate 9 0) d = Some (header_octets tx r', d')"
  shows "read_in_ieee_header rx r d = Some (9, rx\<lparr>source_address := short_address r'\<rparr>, d')"
proof -
  have "replicate 9 (0 :: u8) = [0, 0] @ [0] @ [0, 0] @ [0, 0] @ [0, 0]"
    by (simp add: numeral_eq_Suc)
  with assms obtain d1 d2 d3 d4 where
    x: "xfers r [0, 0] d = Some (word_octets (ieee_fcf tx), d1)" "xfers r [0] d1 = Some ([seq r'], d2)"
      "xfers r [0, 0] d2 = Some (word_octets (pan_id r'), d3)"
      "xfers r [0, 0] d3 = Some (word_octets (destination_address tx), d4)"
      "xfers r [0, 0] d4 = Some (word_octets (short_address r'), d')"
    by (auto simp: xfers_append header_octets_def word_octets_def split: bind_splits)
  have "spi_xfer r 0 d1 = Some (seq r', d2)" using x(2) by (auto split: bind_splits)
  then show ?thesis
    using read_spi_word_xfers [OF x(1)] read_spi_word_xfers [OF x(3)] read_spi_word_xfers [OF x(4)]
      read_spi_word_xfers [OF x(5)]
    by (simp add: read_in_ieee_header_def Let_def fcf_fields)
qed

lemma length_psdu:
  "length (tx_data tx) = FRAME_DATA \<Longrightarrow> unat (tx_length tx) \<le> FRAME_DATA \<Longrightarrow> length (psdu tx r) = 9 + unat (tx_length tx)"
  by (simp add: psdu_def)

section \<open>Properties\<close>

text \<open>
  Transmitted octets (C32). For a payload of up to 116 octets \<open>radio_frame_write\<close> selects the
  radio, sends the frame write command, the length of the whole frame with its check
  sequence, the nine octets of the data frame header, the payload and two placeholder
  octets, in this order and nothing else, releases the radio and advances the sequence
  number. A longer payload, which \<open>radif_send\<close> accepts up to 127 octets, halts the firmware.
\<close>

theorem radio_frame_write_octets:
  assumes "length (tx_data tx) = FRAME_DATA" and "unat (tx_length tx) \<le> FRAME_DATA"
  shows "radio_frame_write tx r d =
    (if unat (tx_length tx) \<le> 116 then
       do { (_, d) \<leftarrow> xfers r ([RADIO_SPI_CMD_FW, of_nat (length (psdu tx r) + 2)] @ psdu tx r @ [0, 0]) (spi_start r d);
            Some (r\<lparr>seq := seq r + 1\<rparr>, spi_stop r d) }
     else None)"
proof -
  let ?n = "unat (tx_length tx)"
  have len: "tx_length tx + ieee_header_len tx + 2 = of_nat (length (psdu tx r) + 2)"
    by (simp add: length_psdu [OF assms] ieee_header_len_def)
  have le: "tx_length tx + ieee_header_len tx + 2 > 127 \<longleftrightarrow> \<not> ?n \<le> 116"
  proof -
    have "unat (tx_length tx + ieee_header_len tx + 2) = ?n + 11"
      unfolding len length_psdu [OF assms] using assms(2) by (subst unat_of_nat_small) simp_all
    then show ?thesis by (auto simp: word_less_nat_alt)
  qed
  show ?thesis
  proof (cases "?n \<le> 116")
    case True
    then show ?thesis
      using le unfolding radio_frame_write_def len
      by (auto simp: write_out_ieee_header_xfers psdu_def xfers_append Let_def split: bind_splits)
  next
    case False
    then show ?thesis using le unfolding radio_frame_write_def
      by (auto simp: Let_def split: bind_splits)
  qed
qed

text \<open>A radio that plays back a tape of octets and records what it is sent.\<close>

record tape =
  incoming :: "u8 list"
  outgoing :: "u8 list"

definition tape_xfer :: "u8 \<Rightarrow> tape \<Rightarrow> (u8 \<times> tape) option" where
  "tape_xfer b t =
     (case incoming t of
        [] \<Rightarrow> Some (0, t\<lparr>outgoing := outgoing t @ [b]\<rparr>)
      | x # xs \<Rightarrow> Some (x, t\<lparr>incoming := xs, outgoing := outgoing t @ [b]\<rparr>))"

definition tape_radif :: "tape radif" where
  "tape_radif = \<lparr>RxProduceIndex = 0, RxConsumeIndex = 0, TxConsumeIndex = 0, TxProduceIndex = 0,
     RxFrames = [], TxFrames = [], Command = 0, CommandOutput = 0, clkm_config = 0, auto_crc_gen = 0,
     promiscuous = 0, freq = 8683, power = 0, modulation = 9, pan_id = 0x1234, short_address = 0x0001,
     up = 0xFF, seq = 7, rx_callback = None, spi_start = (\<lambda>d. d), spi_stop = (\<lambda>d. d), spi_xfer = tape_xfer,
     slptr_set = (\<lambda>d. d), slptr_clear = (\<lambda>d. d), reset_set = (\<lambda>d. d), reset_clear = (\<lambda>d. d),
     delay_us = (\<lambda>_ d. Some d), interrupt_trigger = (\<lambda>d. d), rx_success_count = 0, rx_overflow = 0,
     tx_success_count = 0, tx_channel_fail = 0, tx_noack = 0, tx_invalid = 0, last_trac_status = 0\<rparr>"

definition sample_tx :: tx_frame where
  "sample_tx = \<lparr>tx_data = [0x41, 0x42, 0x43] @ replicate 124 0, tx_length = 3, tx_ack = 1, destination_address = 0xBEEF\<rparr>"

lemma tape_xfers: "xfers tape_radif bs \<lparr>incoming = [], outgoing = out\<rparr> =
    Some (replicate (length bs) 0, \<lparr>incoming = [], outgoing = out @ bs\<rparr>)"
  by (induction bs arbitrary: out) (simp_all add: tape_radif_def tape_xfer_def)

theorem radio_frame_write_octets_witness:
  "\<exists>r t. radio_frame_write sample_tx tape_radif \<lparr>incoming = [], outgoing = []\<rparr> = Some (r, t) \<and>
     outgoing t = [0x60, 14] @ [0x61, 0x98, 7, 0x34, 0x12, 0xEF, 0xBE, 0x01, 0x00] @ [0x41, 0x42, 0x43] @ [0, 0]"
proof -
  have p: "psdu sample_tx tape_radif = [0x61, 0x98, 7, 0x34, 0x12, 0xEF, 0xBE, 0x01, 0x00, 0x41, 0x42, 0x43]"
    by (simp add: psdu_def header_octets_def word_octets_def sample_tx_def tape_radif_def ieee_fcf_def Let_def)
  have "spi_start tape_radif d = d" "spi_stop tape_radif d = d" for d by (simp_all add: tape_radif_def)
  moreover have "length (tx_data sample_tx) = FRAME_DATA" "unat (tx_length sample_tx) = 3"
    by (simp_all add: sample_tx_def)
  ultimately show ?thesis
    using radio_frame_write_octets [of sample_tx tape_radif "\<lparr>incoming = [], outgoing = []\<rparr>"]
    by (simp add: p tape_xfers del: xfers.simps)
qed



text \<open>
  Short frames overrun the buffer (C33). After a header of nine octets, \<open>radio_frame_read\<close> stays
  inside the 127 octets of \<open>rx->data\<close> only if the length octet of the frame is at least 11:
  a smaller one, which the radio delivers for a truncated or malicious frame, makes the
  eight-bit subtraction wrap, and the copy loop runs past the array.
\<close>

theorem short_frame_overruns:
  assumes "xfers r' (RADIO_SPI_CMD_FR # replicate 10 0) (spi_start r' d) = Some (x # len # header_octets tx r, d')"
    and "unat len < 11"
  shows "127 < unat (len - (9 + 2)) \<and> radio_frame_read rx r' d = None"
proof -
  from assms(1) obtain d1 d2 where
    1: "spi_xfer r' 0x20 (spi_start r' d) = Some (x, d1)" "spi_xfer r' 0 d1 = Some (len, d2)"
      "xfers r' (replicate 9 0) d2 = Some (header_octets tx r, d')"
    by (auto simp: numeral_eq_Suc split: bind_splits)
  have "len \<in> {0, 1, 2, 3, 4, 5, 6, 7, 8, 9, 10}"
    using assms(2) by (simp add: word_unat_eq_iff) presburger
  then have "127 < unat (len - (9 + 2))" by (auto simp: unsigned_minus_1_eq_mask mask_eq_exp_minus_1)
  with 1(1,2) read_in_header_octets [OF 1(3)] show ?thesis
    by (simp add: radio_frame_read_def Let_def)
qed

theorem short_frame_overruns_witness:
  "radio_frame_read \<lparr>rx_data = replicate 127 0, rx_length = 0, crc_status = 1, energy_detect = 0, source_address = 0\<rparr>
      tape_radif \<lparr>incoming = 0 # 5 # header_octets sample_tx tape_radif, outgoing = []\<rparr> = None"
proof -
  let ?in = "\<lparr>incoming = 0 # 5 # header_octets sample_tx tape_radif, outgoing = []\<rparr>"
  have p: "header_octets sample_tx tape_radif = [0x61, 0x98, 7, 0x34, 0x12, 0xEF, 0xBE, 0x01, 0x00]"
    by (simp add: header_octets_def word_octets_def sample_tx_def tape_radif_def ieee_fcf_def Let_def)
  have x: "xfers tape_radif (RADIO_SPI_CMD_FR # replicate 10 0) (spi_start tape_radif ?in) =
      Some (0 # 5 # header_octets sample_tx tape_radif, \<lparr>incoming = [], outgoing = 0x20 # replicate 10 0\<rparr>)"
    unfolding p by (simp add: tape_radif_def tape_xfer_def numeral_eq_Suc)
  from short_frame_overruns [OF x] show ?thesis by simp
qed

end
