(* ===== verification/Radio_Ring.thy ===== *)
theory Radio_Ring
  imports Radio_Irq Radio_Frames
begin

text \<open>
  The two rings of frames in \<open>struct radif\<close> are shared between the applications and the radio
  interrupt. The applications fill the transmit ring in \<open>radif_send\<close>, the interrupt empties it
  in \<open>radio_tx\<close>; the receive ring runs the other way. An interrupt may come between any two
  accesses of the applications, so that \<open>radif_send\<close> is split here into its accesses and a
  step relation interleaves them with whole runs of the interrupt handler \<open>radio_irq\<close>.
\<close>

section \<open>Rings of eight\<close>

definition ring_frames :: "'f list \<Rightarrow> nat \<Rightarrow> nat \<Rightarrow> 'f list" where
  "ring_frames xs c p = map (\<lambda>i. xs ! ((c + i) mod 8)) [0..<(p + 8 - c) mod 8]"

lemma mod8_cases: "(n :: nat) < 8 \<Longrightarrow> n \<in> {0, 1, 2, 3, 4, 5, 6, 7}"
  by auto

lemma ring_dist_push:
  assumes "c < 8" "p < 8" "Suc p mod 8 \<noteq> c"
  shows "(Suc p mod 8 + 8 - c) mod 8 = Suc ((p + 8 - c) mod 8)"
  using mod8_cases [OF assms(1)] mod8_cases [OF assms(2)] assms(3) by auto

lemma ring_pos_last: "(c :: nat) < 8 \<Longrightarrow> p < 8 \<Longrightarrow> (c + (p + 8 - c) mod 8) mod 8 = p"
  by (simp add: mod_add_right_eq)

lemma ring_pos_other:
  fixes c p i :: nat
  assumes "c < 8" "p < 8" "i < (p + 8 - c) mod 8"
  shows "p \<noteq> (c + i) mod 8"
proof
  assume "p = (c + i) mod 8"
  moreover have "i < 8" using assms(3) mod_less_divisor [of 8 "p + 8 - c"] by linarith
  ultimately show False using mod8_cases [OF assms(1)] mod8_cases [of i] assms(2,3) by auto
qed

lemma ring_frames_fill:
  "c < 8 \<Longrightarrow> p < 8 \<Longrightarrow> ring_frames (xs[p := f]) c p = ring_frames xs c p"
  by (simp add: ring_frames_def ring_pos_other)

lemma ring_frames_push:
  assumes "length xs = 8" "c < 8" "p < 8" "Suc p mod 8 \<noteq> c"
  shows "ring_frames (xs[p := f]) c (Suc p mod 8) = ring_frames xs c p @ [f]"
proof -
  have "ring_frames (xs[p := f]) c (Suc p mod 8) = ring_frames (xs[p := f]) c p @ [xs[p := f] ! p]"
    unfolding ring_frames_def ring_dist_push [OF assms(2-4)] using ring_pos_last [OF assms(2,3)] by simp
  then show ?thesis using assms by (simp add: ring_frames_fill)
qed

lemma ring_frames_pop:
  assumes "c < 8" "p < 8" "c \<noteq> p"
  shows "ring_frames xs c p = xs ! c # ring_frames xs (Suc c mod 8) p"
proof -
  have d: "(p + 8 - c) mod 8 = Suc ((p + 8 - Suc c mod 8) mod 8)"
    using mod8_cases [OF assms(1)] mod8_cases [OF assms(2)] assms(3) by auto
  have "(c + Suc i) mod 8 = (Suc c mod 8 + i) mod 8" for i by (simp add: mod_simps)
  then show ?thesis
    using assms(1) unfolding ring_frames_def d
    by (simp add: upt_conv_Cons map_Suc_upt [symmetric] comp_def del: upt_Suc)
qed

lemma length_ring_frames: "length (ring_frames xs c p) < 8"
  by (simp add: ring_frames_def)

lemma unat_frame_next: "unat (frame_next i) = Suc (unat i) mod 8"
proof -
  have "Suc (unat i) mod 8 < 2 ^ LENGTH(8)" by (rule less_trans [OF mod_less_divisor]) simp_all
  then show ?thesis by (simp add: frame_next_def unat_of_nat_small)
qed

lemma frame_next_lt: "unat (frame_next i) < 8"
  by (simp add: unat_frame_next)

section \<open>The transmit ring\<close>

definition tx_ok :: "'d radif \<Rightarrow> bool" where
  "tx_ok r \<longleftrightarrow> unat (TxConsumeIndex r) < 8 \<and> unat (TxProduceIndex r) < 8 \<and> length (TxFrames r) = 8"

definition tx_queue :: "'d radif \<Rightarrow> tx_frame list" where
  "tx_queue r = ring_frames (TxFrames r) (unat (TxConsumeIndex r)) (unat (TxProduceIndex r))"

text \<open>The accesses of \<open>radif_send\<close>: the test for room, the copy into the slot, the new index.\<close>

definition tx_room :: "'d radif \<Rightarrow> bool" where
  "tx_room r \<longleftrightarrow> frame_next (TxProduceIndex r) \<noteq> TxConsumeIndex r"

definition tx_fill :: "u8 list \<Rightarrow> u8 \<Rightarrow> u16 \<Rightarrow> u8 \<Rightarrow> tx_frame \<Rightarrow> tx_frame" where
  "tx_fill frame len dest_addr ack tx =
     tx\<lparr>tx_data := take (unat len) frame @ drop (unat len) (tx_data tx),
        destination_address := dest_addr, tx_length := len, tx_ack := ack\<rparr>"

definition tx_store :: "tx_frame \<Rightarrow> 'd radif \<Rightarrow> 'd radif" where
  "tx_store f r = r\<lparr>TxFrames := (TxFrames r)[unat (TxProduceIndex r) := f]\<rparr>"

definition tx_publish :: "'d radif \<Rightarrow> 'd radif" where
  "tx_publish r = r\<lparr>TxProduceIndex := frame_next (TxProduceIndex r)\<rparr>"

lemma radif_send_accesses:
  assumes "\<not> 127 < len" "tx_room r"
  shows "radif_send m frame len dest_addr ack r d =
    (let r' = tx_publish (tx_store (tx_fill frame len dest_addr ack (TxFrames r ! unat (TxProduceIndex r))) r)
     in Some (r', interrupt_trigger r' d))"
  using assms
  by (simp add: radif_send_def tx_room_def tx_publish_def tx_store_def tx_fill_def Let_def)

text \<open>What the interrupt handler does to the transmit ring: nothing, or it takes the oldest frame.\<close>

definition tx_same :: "'d radif \<Rightarrow> 'd radif \<Rightarrow> bool" where
  "tx_same r r' \<longleftrightarrow> TxFrames r' = TxFrames r \<and> TxProduceIndex r' = TxProduceIndex r \<and> TxConsumeIndex r' = TxConsumeIndex r"

definition tx_taken :: "'d radif \<Rightarrow> 'd radif \<Rightarrow> bool" where
  "tx_taken r r' \<longleftrightarrow> TxFrames r' = TxFrames r \<and> TxProduceIndex r' = TxProduceIndex r \<and>
     TxConsumeIndex r \<noteq> TxProduceIndex r \<and> TxConsumeIndex r' = frame_next (TxConsumeIndex r)"

lemmas tx_frame_rules = tx_same_def tx_taken_def

lemma write_out_same: "write_out_ieee_header tx r d = Some (r', d') \<Longrightarrow> tx_same r r'"
  by (auto simp: write_out_ieee_header_def tx_same_def Let_def split: bind_splits)

lemma radio_frame_write_same: "radio_frame_write tx r d = Some (r', d') \<Longrightarrow> tx_same r r'"
  by (auto simp: radio_frame_write_def tx_same_def Let_def split: bind_splits if_splits
      dest!: write_out_same [unfolded tx_same_def])

lemma radio_config_same: "radio_config r d = Some (r', d') \<Longrightarrow> tx_same r r'"
  by (auto simp: radio_config_def tx_same_def Let_def split: bind_splits)

lemma radio_command_same: "radio_command r d = Some (r', d') \<Longrightarrow> tx_same r r'"
  unfolding radio_command_def
  by (auto simp only: bind_eq_Some_conv case_prod_beta option.inject prod.inject tx_same_def radif.simps fst_conv snd_conv
      split: if_splits prod.splits dest!: radio_config_same) simp_all

lemma tx_end_stats_same: "tx_same r (tx_end_stats v r)"
  by (simp add: tx_end_stats_def tx_same_def Let_def)

lemma radio_rx_end_same: "radio_rx_end r d = Some (r', d') \<Longrightarrow> tx_same r r'"
  by (auto simp: radio_rx_end_def tx_same_def Let_def split: bind_splits if_splits)

lemma radio_trx_end_same: "radio_trx_end r d = Some (r', d') \<Longrightarrow> tx_same r r'"
  by (auto simp: radio_trx_end_def radio_tx_end_def tx_end_stats_same split: bind_splits if_splits dest: radio_rx_end_same)

lemma radio_tx_ring: "radio_tx r d = Some (r', d') \<Longrightarrow> tx_same r r' \<or> tx_taken r r'"
  by (auto simp: radio_tx_def Let_def tx_frame_rules split: bind_splits if_splits
      dest!: radio_frame_write_same [unfolded tx_same_def])

lemma radio_irq_ring:
  assumes "radio_irq r d = Some (r', d')"
  shows "tx_same r r' \<or> tx_taken r r'"
proof -
  from assms obtain r1 d1 r2 d2 where
    1: "(if up r \<noteq> 0 then do { (intp_src, d) \<leftarrow> radio_reg_read IRQ_STATUS r d;
           (r, d) \<leftarrow> (if intp_src AND RADIO_IRQ_TRX_END \<noteq> 0 then radio_trx_end r d else Some (r, d));
           radio_tx r d } else Some (r, d)) = Some (r1, d1)"
    and 2: "radio_command r1 d1 = Some (r2, d2)" and 3: "r' = r2"
    unfolding radio_irq_def by (auto split: bind_splits if_splits)
  have "tx_same r r1 \<or> tx_taken r r1"
  proof (cases "up r \<noteq> 0")
    case True
    with 1 obtain v d0 r0 d0' where
      a: "(if v AND RADIO_IRQ_TRX_END \<noteq> 0 then radio_trx_end r d0 else Some (r, d0)) = Some (r0, d0')" "radio_tx r0 d0' = Some (r1, d1)"
      by (auto split: bind_splits)
    then have "tx_same r r0" using radio_trx_end_same [of r d0 r0 d0'] by (auto simp: tx_same_def split: if_splits)
    with radio_tx_ring [OF a(2)] show ?thesis by (auto simp: tx_frame_rules)
  qed (use 1 in \<open>auto simp: tx_same_def\<close>)
  with radio_command_same [OF 2] 3 show ?thesis by (auto simp: tx_frame_rules)
qed

section \<open>Interleavings of sender and interrupt\<close>

text \<open>
  The sender is between calls, has found room, or has filled the slot but not yet moved the
  index. The state also logs the frames handed to the ring and those taken from it.
\<close>

datatype sender = Between | Found_room | Filled tx_frame

record 'd tx_state =
  sender :: sender
  radio :: "'d radif"
  chip :: 'd
  handed :: "tx_frame list"
  taken :: "tx_frame list"

inductive tx_step :: "'d tx_state \<Rightarrow> 'd tx_state \<Rightarrow> bool" where
  check: "sender s = Between \<Longrightarrow> tx_room (radio s) \<Longrightarrow> tx_step s (s\<lparr>sender := Found_room\<rparr>)"
| fill: "sender s = Found_room \<Longrightarrow> f = tx_fill frame len dest_addr ack (TxFrames (radio s) ! unat (TxProduceIndex (radio s))) \<Longrightarrow>
    tx_step s (s\<lparr>sender := Filled f, radio := tx_store f (radio s)\<rparr>)"
| publish: "sender s = Filled f \<Longrightarrow>
    tx_step s (s\<lparr>sender := Between, radio := tx_publish (radio s),
                 chip := interrupt_trigger (radio s) (chip s), handed := handed s @ [f]\<rparr>)"
| interrupt: "radio_irq (radio s) (chip s) = Some (r', d') \<Longrightarrow>
    tx_step s (s\<lparr>radio := r', chip := d',
                 taken := taken s @ (if TxConsumeIndex r' = TxConsumeIndex (radio s) then []
                                     else [TxFrames (radio s) ! unat (TxConsumeIndex (radio s))])\<rparr>)"

definition tx_inv :: "'d tx_state \<Rightarrow> bool" where
  "tx_inv s \<longleftrightarrow> tx_ok (radio s) \<and> handed s = taken s @ tx_queue (radio s) \<and>
     (sender s \<noteq> Between \<longrightarrow> tx_room (radio s)) \<and>
     (\<forall>f. sender s = Filled f \<longrightarrow> TxFrames (radio s) ! unat (TxProduceIndex (radio s)) = f)"

lemma tx_taken_queue:
  assumes "tx_ok r" "tx_taken r r'"
  shows "tx_ok r'" and "tx_queue r = TxFrames r ! unat (TxConsumeIndex r) # tx_queue r'" and "tx_room r'"
    and "TxConsumeIndex r' \<noteq> TxConsumeIndex r"
proof -
  let ?c = "unat (TxConsumeIndex r)" and ?p = "unat (TxProduceIndex r)"
  have b: "?c < 8" "?p < 8" "?c \<noteq> ?p" and c': "unat (TxConsumeIndex r') = Suc ?c mod 8"
    using assms by (auto simp: tx_ok_def tx_taken_def word_unat_eq_iff unat_frame_next)
  show "tx_ok r'" using assms c' by (simp add: tx_ok_def tx_taken_def)
  show "tx_queue r = TxFrames r ! ?c # tx_queue r'"
    using ring_frames_pop [OF b] assms(2) c' by (simp add: tx_queue_def tx_taken_def)
  have "Suc ?p mod 8 \<noteq> Suc ?c mod 8" "Suc ?c mod 8 \<noteq> ?c"
    using mod8_cases [OF b(1)] mod8_cases [OF b(2)] b(3) by auto
  then show "tx_room r'" "TxConsumeIndex r' \<noteq> TxConsumeIndex r"
    using assms(2) c' by (auto simp: tx_room_def tx_taken_def word_unat_eq_iff unat_frame_next)
qed

lemma tx_same_queue:
  "tx_same r r' \<Longrightarrow> tx_ok r' = tx_ok r \<and> tx_queue r' = tx_queue r \<and> tx_room r' = tx_room r"
  by (simp add: tx_same_def tx_ok_def tx_queue_def tx_room_def)

lemma tx_store_ring:
  assumes "tx_ok r"
  shows "tx_ok (tx_store f r)" "tx_queue (tx_store f r) = tx_queue r" "tx_room (tx_store f r) = tx_room r"
    and "TxFrames (tx_store f r) ! unat (TxProduceIndex (tx_store f r)) = f"
  using assms by (simp_all add: tx_ok_def tx_store_def tx_queue_def tx_room_def ring_frames_fill)

lemma tx_publish_ring:
  assumes "tx_ok r" "tx_room r" "TxFrames r ! unat (TxProduceIndex r) = f"
  shows "tx_ok (tx_publish r)" "tx_queue (tx_publish r) = tx_queue r @ [f]"
proof -
  let ?c = "unat (TxConsumeIndex r)" and ?p = "unat (TxProduceIndex r)"
  have b: "length (TxFrames r) = 8" "?c < 8" "?p < 8" "Suc ?p mod 8 \<noteq> ?c"
    using assms by (auto simp: tx_ok_def tx_room_def word_unat_eq_iff unat_frame_next)
  have "(TxFrames r)[?p := f] = TxFrames r" using assms(3) by (metis list_update_id)
  then show "tx_queue (tx_publish r) = tx_queue r @ [f]"
    using ring_frames_push [OF b, of f] by (simp add: tx_queue_def tx_publish_def unat_frame_next)
  show "tx_ok (tx_publish r)" using assms(1) by (simp add: tx_ok_def tx_publish_def unat_frame_next)
qed

lemma tx_step_inv: "tx_step s s' \<Longrightarrow> tx_inv s \<Longrightarrow> tx_inv s'"
proof (induction rule: tx_step.induct)
  case (fill s f frame len dest_addr ack)
  then show ?case by (auto simp: tx_inv_def tx_store_ring)
next
  case (publish s f)
  then show ?case by (auto simp: tx_inv_def tx_publish_ring)
next
  case (interrupt s r' d')
  from radio_irq_ring [OF interrupt(1)] show ?case
  proof
    assume "tx_same (radio s) r'"
    with tx_same_queue [OF this] interrupt(2) show ?thesis by (auto simp: tx_inv_def tx_same_def)
  next
    assume t: "tx_taken (radio s) r'"
    have ok: "tx_ok (radio s)" using interrupt(2) by (simp add: tx_inv_def)
    from tx_taken_queue [OF ok t] t interrupt(2) show ?thesis by (auto simp: tx_inv_def tx_taken_def)
  qed
qed (auto simp: tx_inv_def)


definition sample_tx_state :: "tape tx_state" where
  "sample_tx_state = \<lparr>sender = Between, radio = tape_radif\<lparr>TxFrames := replicate 8 blank_tx, up := 0\<rparr>,
     chip = \<lparr>incoming = [], outgoing = []\<rparr>, handed = [], taken = []\<rparr>"


section \<open>Commands complete\<close>

lemma radio_command_clears: "radio_command r d = Some (r', d') \<Longrightarrow> Command r' = 0"
  by (auto simp: radio_command_def bind_eq_Some_conv)

lemma radio_irq_clears: "radio_irq r d = Some (r', d') \<Longrightarrow> Command r' = 0"
  by (auto simp: radio_irq_def split: bind_splits if_splits dest!: radio_command_clears)

text \<open>
  Commands complete (C36). When the timer interrupt that \<open>radif_command\<close> triggers is taken and its
  handler returns, the wait ends with that handler: \<open>radif_command\<close> returns the handler's
  command output, and no command is left pending.
\<close>

theorem radif_command_completes:
  assumes "command \<noteq> 0" and "intr m (interrupt_trigger (r\<lparr>Command := command\<rparr>) d) = (Some TIMER2_IRQn, d1)"
    and "TIMER2_IRQHandler m (r\<lparr>Command := command\<rparr>) d1 = Some (r', d')"
  shows "radif_command m command r d = Some (CommandOutput r', r', d') \<and> Command r' = 0"
proof -
  have "Command r' = 0" using assms(3) by (auto simp: TIMER2_IRQHandler_def Let_def dest: radio_irq_clears)
  moreover from this have "wait_interrupts m (\<lambda>r. Command r \<noteq> 0) r' d' = Some (r', d')"
    by (subst wait_interrupts.simps) simp
  ultimately show ?thesis using assms
    by (simp add: radif_command_def Let_def)
      (subst wait_interrupts.simps, simp add: take_interrupt_def)
qed

definition tape_mmio :: "tape mmio" where
  "tape_mmio = \<lparr>rd = (\<lambda>_ d. (0, d)), wr = (\<lambda>_ _ d. d), intr = (\<lambda>d. (Some TIMER2_IRQn, d))\<rparr>"

theorem radif_command_completes_witness:
  "\<exists>r' d'. radif_command tape_mmio RADIF_SET_POWER (tape_radif\<lparr>up := 0\<rparr>) \<lparr>incoming = [], outgoing = []\<rparr> =
     Some (CommandOutput r', r', d') \<and> Command r' = 0"
proof -
  let ?r = "tape_radif\<lparr>up := 0\<rparr>" and ?d = "\<lparr>incoming = [], outgoing = []\<rparr>"
  have "TIMER2_IRQHandler tape_mmio (?r\<lparr>Command := RADIF_SET_POWER\<rparr>) ?d =
      Some (?r\<lparr>Command := 0\<rparr>, \<lparr>incoming = [], outgoing = [0xC5, 0]\<rparr>)"
    by (simp add: TIMER2_IRQHandler_def tape_mmio_def reg_or_def reg_and_def radio_irq_def radio_command_def
        radio_set_pwr_def radio_reg_write_def tape_radif_def tape_xfer_def Let_def)
  from radif_command_completes [OF _ _ this] show ?thesis
    by (simp add: tape_mmio_def tape_radif_def)
qed

end
