(* ===== verification/Sd_Card.thy ===== *)
theory Sd_Card
  imports Sd
begin

text \<open>
  The contract between the driver of \<open>sd.c\<close> and an SD card in SPI mode. The locale
  \<open>sd_card\<close> states, octet by octet, what a ready standard-capacity card does with the
  single block read (CMD17) and write (CMD24) commands; its lemmas show that \<open>disk_read\<close>
  and \<open>disk_write\<close> return and transfer the block. The locale \<open>sd_disk\<close> is the contract
  of those two functions that the users of the driver rely on. A reference card, a state
  machine behind the SSP registers, interprets both.
\<close>

section \<open>Polling a card\<close>

text \<open>\<open>polls_to x P n d r d'\<close>: within \<open>n\<close> exchanges of 0xFF the card answers \<open>r\<close> with \<open>P r\<close>.\<close>

inductive polls_to :: "(u8 \<Rightarrow> 'd \<Rightarrow> u8 \<times> 'd) \<Rightarrow> (u8 \<Rightarrow> bool) \<Rightarrow> nat \<Rightarrow> 'd \<Rightarrow> u8 \<Rightarrow> 'd \<Rightarrow> bool"
  for x :: "u8 \<Rightarrow> 'd \<Rightarrow> u8 \<times> 'd" and P :: "u8 \<Rightarrow> bool" where
  hit: "x 0xFF d = (r, d') \<Longrightarrow> P r \<Longrightarrow> polls_to x P (Suc n) d r d'"
| miss: "x 0xFF d = (r, d1) \<Longrightarrow> \<not> P r \<Longrightarrow> polls_to x P n d1 r' d' \<Longrightarrow> polls_to x P (Suc n) d r' d'"

definition select_release :: "'d mmio \<Rightarrow> (u8 \<Rightarrow> 'd \<Rightarrow> u8 \<times> 'd) \<Rightarrow> 'd \<Rightarrow> 'd" where
  "select_release m x d = snd (x 0xFF (SD_SPI_DISABLE m d))"

text \<open>
  \<open>answers m x c d d'\<close>: the card is selected, takes the command frame \<open>c\<close>, answers zero (no
  error) before the driver's time-out and is released.
\<close>

definition answers :: "'d mmio \<Rightarrow> (u8 \<Rightarrow> 'd \<Rightarrow> u8 \<times> 'd) \<Rightarrow> u8 list \<Rightarrow> 'd \<Rightarrow> 'd \<Rightarrow> bool" where
  "answers m x c d d' \<longleftrightarrow>
     (\<exists>d1. polls_to x (\<lambda>r. r AND 0x80 = 0) SD_COMMAND_TIMEOUT (snd (exchanges x c (SD_SPI_ENABLE m d))) 0 d1 \<and>
           d' = select_release m x d1)"

section \<open>The card's contract\<close>

locale sd_card = ssp_port m 1 exch
  for m :: "'d mmio" and exch :: "u8 \<Rightarrow> 'd \<Rightarrow> u8 \<times> 'd" +
  fixes ready :: "'d \<Rightarrow> bool" and blocks :: "'d \<Rightarrow> nat \<Rightarrow> u8 list" and capacity :: nat
  assumes capacity_le: "capacity \<le> 0x800000"
    and block_len: "ready d \<Longrightarrow> length (blocks d b) = 512"
    and timer_read: "ready d \<Longrightarrow> rd m (TIM_TC 3) d = (v, d') \<Longrightarrow> ready d' \<and> blocks d' = blocks d"
    and read_single_block:
      "ready d \<Longrightarrow> b < capacity \<Longrightarrow>
       \<exists>d1 n d2 d3 crc d4. answers m exch (cmd_frame 17 (of_nat (b * 512)) 0x95) d d1 \<and>
         polls_to exch (\<lambda>r. r = 0xFE) n (SD_SPI_ENABLE m d1) 0xFE d2 \<and>
         exchanges exch (replicate 512 0xFF) d2 = (blocks d b, d3) \<and>
         exchanges exch [0xFF, 0xFF] d3 = (crc, d4) \<and>
         ready (select_release m exch d4) \<and> blocks (select_release m exch d4) = blocks d"
    and write_single_block:
      "ready d \<Longrightarrow> b < capacity \<Longrightarrow> length data = 512 \<Longrightarrow>
       \<exists>d1 rs d2 t d3 n r d4. answers m exch (cmd_frame 24 (of_nat (b * 512)) 0x95) d d1 \<and>
         exchanges exch ([0xFE] @ data @ [0xFF, 0xFF]) (SD_SPI_ENABLE m d1) = (rs, d2) \<and>
         exch 0xFF d2 = (t, d3) \<and> t AND 0x1F = 0x05 \<and>
         polls_to exch (\<lambda>r. r \<noteq> 0) n d3 r d4 \<and>
         ready (select_release m exch d4) \<and> blocks (select_release m exch d4) = (blocks d)(b := data)"

section \<open>The disk's contract\<close>

text \<open>
  What the users of the driver rely on: within the card's capacity a read returns the
  block's first octets and changes nothing, a write replaces the block, padded with 0xFF,
  and nothing else, and both return.
\<close>

locale sd_disk =
  fixes m :: "'d mmio" and ready :: "'d \<Rightarrow> bool" and blocks :: "'d \<Rightarrow> nat \<Rightarrow> u8 list" and capacity :: nat
  assumes disk_capacity: "capacity \<le> 0x800000"
    and disk_block_len: "ready d \<Longrightarrow> length (blocks d b) = 512"
    and disk_timer_read: "ready d \<Longrightarrow> rd m (TIM_TC 3) d = (v, d') \<Longrightarrow> ready d' \<and> blocks d' = blocks d"
    and disk_read_block:
      "ready d \<Longrightarrow> b < capacity \<Longrightarrow> n \<le> 512 \<Longrightarrow>
       \<exists>d'. disk_read m buffer n (of_nat b) d = Some (0, take n (blocks d b) @ drop n buffer, d') \<and>
            ready d' \<and> blocks d' = blocks d"
    and disk_write_block:
      "ready d \<Longrightarrow> b < capacity \<Longrightarrow> n \<le> 512 \<Longrightarrow> n \<le> length buffer \<Longrightarrow>
       \<exists>d'. disk_write m buffer n (of_nat b) d = Some (0, d') \<and>
            ready d' \<and> blocks d' = (blocks d)(b := take n buffer @ replicate (512 - n) 0xFF)"

section \<open>The driver on a card\<close>

context sd_card
begin

lemma SPI_Write_exch [simp]: "SPI_Write m b d = Some (exch b d)"
  unfolding SPI_Write_def by (rule ssp_transfer_exch)

lemma spi_send_exch [simp]: "spi_send m bs d = Some (snd (exchanges exch bs d))"
  by (induction bs arbitrary: d) (simp_all add: case_prod_beta)

lemma spi_recv_exch [simp]: "spi_recv m n d = Some (exchanges exch (replicate n 0xFF) d)"
  by (induction n arbitrary: d) (simp_all add: case_prod_beta)

lemma spi_release_exch [simp]: "spi_release m r d = Some (r, select_release m exch d)"
  by (simp add: spi_release_def select_release_def case_prod_beta)

lemma cmd_wait_polls:
  "polls_to exch (\<lambda>r. r AND 0x80 = 0) n d r d' \<Longrightarrow> cmd_wait m n d = Some (uint r, select_release m exch d')"
  by (induction rule: polls_to.induct) simp_all

lemma spi_until_polls: "polls_to exch P n d r d' \<Longrightarrow> spi_until m P d = Some d'"
  by (induction rule: polls_to.induct) (subst spi_until.simps, simp)+

lemma cmd_answers: "answers m exch (cmd_frame c arg 0x95) d d' \<Longrightarrow> cmd m c arg d = Some (0, d')"
  by (auto simp: answers_def cmd_def dest: cmd_wait_polls)

lemma block_arg: "(ucast (of_nat b * 512 :: u64) :: u32) = of_nat (b * 512)"
proof -
  have "(of_nat b * 512 :: u64) = of_nat (b * 512)" by simp
  also have "(ucast (of_nat (b * 512) :: u64) :: u32) = of_nat (b * 512)"
    by (rule bit_word_eqI) (simp only: bit_simps, simp)
  finally show ?thesis .
qed

lemma block_in_range: "b < capacity \<Longrightarrow> \<not> (0x007FFFFF :: u64) < of_nat b"
  using capacity_le
  by (simp add: word_less_nat_alt unsigned_of_nat take_bit_nat_eq_self)

lemma split_recv:
  assumes "exchanges exch (replicate 512 0xFF) d = (bs, d')" and "n \<le> 512"
  obtains d1 rest where "exchanges exch (replicate n 0xFF) d = (take n bs, d1)"
    and "exchanges exch (replicate (512 - n) 0xFF) d1 = (rest, d')"
proof -
  obtain as d1 where 1: "exchanges exch (replicate n 0xFF) d = (as, d1)" by fastforce
  obtain cs d2 where 2: "exchanges exch (replicate (512 - n) 0xFF) d1 = (cs, d2)" by fastforce
  have "replicate 512 (0xFF :: u8) = replicate n 0xFF @ replicate (512 - n) 0xFF"
    using assms(2) by (simp flip: replicate_add)
  with assms(1) 1 2 have "bs = as @ cs" "d' = d2" by (simp_all add: exchanges_append)
  moreover have "length as = n" using 1 length_exchanges [of exch "replicate n 0xFF" d] by simp
  ultimately show ?thesis using 1 2 that by simp
qed

lemma disk_read_ok:
  assumes "ready d" "b < capacity" "n \<le> 512"
  shows "\<exists>d'. disk_read m buffer n (of_nat b) d = Some (0, take n (blocks d b) @ drop n buffer, d') \<and>
            ready d' \<and> blocks d' = blocks d"
proof -
  from read_single_block [OF assms(1,2)] obtain d1 k d2 d3 crc d4 where
    card: "answers m exch (cmd_frame 17 (of_nat (b * 512)) 0x95) d d1"
      "polls_to exch (\<lambda>r. r = 0xFE) k (SD_SPI_ENABLE m d1) 0xFE d2"
      "exchanges exch (replicate 512 0xFF) d2 = (blocks d b, d3)"
      "exchanges exch [0xFF, 0xFF] d3 = (crc, d4)"
      "ready (select_release m exch d4)" "blocks (select_release m exch d4) = blocks d"
    by blast
  obtain d5 rest where "exchanges exch (replicate n 0xFF) d2 = (take n (blocks d b), d5)"
    "exchanges exch (replicate (512 - n) 0xFF) d5 = (rest, d3)"
    using split_recv [OF card(3) assms(3)] .
  then have "block_read m n d1 = Some (take n (blocks d b), select_release m exch d4)"
    using spi_until_polls [OF card(2)] card(4) by (simp add: block_read_def del: exchanges.simps spi_send.simps)
  with card(5,6) cmd_answers [OF card(1)] assms show ?thesis
    by (simp add: disk_read_def block_in_range block_arg)
qed

lemma disk_write_ok:
  assumes "ready d" "b < capacity" "n \<le> 512" "n \<le> length buffer"
  shows "\<exists>d'. disk_write m buffer n (of_nat b) d = Some (0, d') \<and>
            ready d' \<and> blocks d' = (blocks d)(b := take n buffer @ replicate (512 - n) 0xFF)"
proof -
  let ?data = "take n buffer @ replicate (512 - n) 0xFF"
  have "length ?data = 512" using assms(3,4) by simp
  from write_single_block [OF assms(1,2) this] obtain d1 rs d2 t d3 k r d4 where
    card: "answers m exch (cmd_frame 24 (of_nat (b * 512)) 0x95) d d1"
      "exchanges exch ([0xFE] @ ?data @ [0xFF, 0xFF]) (SD_SPI_ENABLE m d1) = (rs, d2)"
      "exch 0xFF d2 = (t, d3)" "t AND 0x1F = 0x05" "polls_to exch (\<lambda>r. r \<noteq> 0) k d3 r d4"
      "ready (select_release m exch d4)" "blocks (select_release m exch d4) = (blocks d)(b := ?data)"
    by blast
  have "block_write m buffer n d1 = Some (0, select_release m exch d4)"
    using card(2-4) spi_until_polls [OF card(5)] by (simp add: block_write_def del: exchanges.simps spi_send.simps)
  with card(6,7) cmd_answers [OF card(1)] assms show ?thesis
    by (simp add: disk_write_def block_in_range block_arg)
qed

end

sublocale sd_card \<subseteq> disk: sd_disk m ready blocks capacity
  by unfold_locales (rule capacity_le block_len timer_read disk_read_ok disk_write_ok; assumption)+

end
