(* ===== verification/Ref_Card.thy ===== *)
theory Ref_Card
  imports Sd_Card
begin

text \<open>
  A reference SD card behind the SSP 1 registers: a state machine that takes the single
  block commands in SPI mode. It shows that the contract \<open>sd_card\<close> can be met and is the
  hardware on which the properties that assume the contract are evaluated.
\<close>

datatype phase =
    Idle
  | Cmd_octets "u8 list"
  | Reply u8 phase
  | Token nat
  | Sending "u8 list"
  | Await nat
  | Receiving nat "u8 list"
  | Accepted
  | Busy

record rcard =
  selected :: bool
  phase :: phase
  store :: "nat \<Rightarrow> u8 list"
  ssp_dr :: u8
  tcount :: u32

definition card_accept :: "u8 list \<Rightarrow> phase" where
  "card_accept bs =
     (let blk = unat (le32_word (bs ! 4) (bs ! 3) (bs ! 2) (bs ! 1)) div 512
      in if bs ! 0 = 0x40 OR 17 then Reply 0 (Token blk)
         else if bs ! 0 = 0x40 OR 24 then Reply 0 (Await blk)
         else Reply 4 Idle)"

fun card_step :: "u8 \<Rightarrow> rcard \<Rightarrow> u8 \<times> rcard" where
  "card_step b d =
     (if \<not> selected d then (0xFF, d) else
      case phase d of
        Idle \<Rightarrow> (0xFF, if b AND 0xC0 = 0x40 then d\<lparr>phase := Cmd_octets [b]\<rparr> else d)
      | Cmd_octets bs \<Rightarrow> (0xFF, d\<lparr>phase := if length bs < 5 then Cmd_octets (bs @ [b]) else card_accept bs\<rparr>)
      | Reply r p \<Rightarrow> (r, d\<lparr>phase := p\<rparr>)
      | Token blk \<Rightarrow> (0xFE, d\<lparr>phase := Sending (store d blk @ [0xFF, 0xFF])\<rparr>)
      | Sending bs \<Rightarrow> (case bs of [] \<Rightarrow> (0xFF, d\<lparr>phase := Idle\<rparr>)
                        | x # xs \<Rightarrow> (x, d\<lparr>phase := if xs = [] then Idle else Sending xs\<rparr>))
      | Await blk \<Rightarrow> (0xFF, if b = 0xFE then d\<lparr>phase := Receiving blk []\<rparr> else d)
      | Receiving blk bs \<Rightarrow>
          (0xFF, if length bs < 513 then d\<lparr>phase := Receiving blk (bs @ [b])\<rparr>
                 else d\<lparr>phase := Accepted, store := (store d)(blk := take 512 bs)\<rparr>)
      | Accepted \<Rightarrow> (0x05, d\<lparr>phase := Busy\<rparr>)
      | Busy \<Rightarrow> (0x00, d\<lparr>phase := Idle\<rparr>))"

definition card_exch :: "u8 \<Rightarrow> rcard \<Rightarrow> u8 \<times> rcard" where
  "card_exch b d = (case card_step b d of (x, d) \<Rightarrow> (x, d\<lparr>ssp_dr := x\<rparr>))"

definition card_rd :: "reg \<Rightarrow> rcard \<Rightarrow> u32 \<times> rcard" where
  "card_rd r d =
     (if r = SSP_SR 1 then (SSPSR_RNE, d)
      else if r = SSP_DR 1 then (ucast (ssp_dr d), d)
      else if r = TIM_TC 3 then (tcount d, d\<lparr>tcount := tcount d + 1\<rparr>)
      else (0, d))"

definition card_wr :: "reg \<Rightarrow> u32 \<Rightarrow> rcard \<Rightarrow> rcard" where
  "card_wr r v d =
     (if r = SSP_DR 1 then snd (card_exch (ucast v) d)
      else if r = FIOCLR 0 \<and> bit v 6 then d\<lparr>selected := True\<rparr>
      else if r = FIOSET 0 \<and> bit v 6 then d\<lparr>selected := False\<rparr>
      else if r = TIM_TC 3 then d\<lparr>tcount := v\<rparr>
      else d)"

definition card_mmio :: "rcard mmio" where
  "card_mmio = \<lparr>rd = card_rd, wr = card_wr, intr = (\<lambda>d. (None, d))\<rparr>"

definition card_ready :: "rcard \<Rightarrow> bool" where
  "card_ready d \<longleftrightarrow> phase d = Idle \<and> (\<forall>b. length (store d b) = 512)"

definition blank_card :: rcard where
  "blank_card = \<lparr>selected = False, phase = Idle, store = (\<lambda>_. replicate 512 0), ssp_dr = 0, tcount = 0\<rparr>"

section \<open>The card meets the contract\<close>

lemma card_ssp: "ssp_port card_mmio 1 card_exch"
proof unfold_locales
  fix b :: u8 and d :: rcard
  have "\<And>x. (ucast (ucast (x :: u8) :: u32) :: u8) = x" by (rule bit_word_eqI) (simp add: bit_simps)
  then show "\<exists>k. (\<forall>j<k. \<not> ssp_done (fst (rd card_mmio (SSP_SR 1) (reads card_mmio (SSP_SR 1) j (wr card_mmio (SSP_DR 1) (ucast b) d))))) \<and>
         ssp_done (fst (rd card_mmio (SSP_SR 1) (reads card_mmio (SSP_SR 1) k (wr card_mmio (SSP_DR 1) (ucast b) d)))) \<and>
         (case rd card_mmio (SSP_DR 1) (reads card_mmio (SSP_SR 1) (Suc k) (wr card_mmio (SSP_DR 1) (ucast b) d)) of
            (v, d') \<Rightarrow> (ucast v, d') = card_exch b d)"
    by (intro exI [of _ 0])
      (simp add: card_mmio_def card_rd_def card_wr_def card_exch_def ssp_done_def SSPSR_RNE_def SSPSR_BSY_def
        case_prod_beta)
qed

lemma card_select [simp]:
  "SD_SPI_ENABLE card_mmio d = d\<lparr>selected := True\<rparr>"
  "SD_SPI_DISABLE card_mmio d = d\<lparr>selected := False\<rparr>"
  by (simp_all add: SD_SPI_ENABLE_def SD_SPI_DISABLE_def card_mmio_def card_wr_def bit_simps)

lemma card_release [simp]: "select_release card_mmio card_exch d = d\<lparr>selected := False, ssp_dr := 0xFF\<rparr>"
  by (simp add: select_release_def card_exch_def)

lemma card_command:
  assumes "phase d = Idle" and "c AND 0xC0 = 0"
  shows "snd (exchanges card_exch (cmd_frame c arg crc) (d\<lparr>selected := True\<rparr>)) =
     d\<lparr>selected := True, ssp_dr := 0xFF, phase := card_accept (take 5 (cmd_frame c arg crc))\<rparr>"
proof -
  have "(0x40 OR c) AND 0xC0 = 0x40"
    using assms(2) by (simp add: bit.conj_disj_distrib2)
  with assms(1) show ?thesis by (simp add: cmd_frame_def card_exch_def)
qed

lemma card_block_arg: "b < 0x800000 \<Longrightarrow> unat (of_nat (b * 512) :: u32) div 512 = b"
  by (simp add: unsigned_of_nat take_bit_nat_eq_self del: of_nat_mult)

lemma card_sending:
  "selected d \<Longrightarrow> phase d = Sending (xs @ y # ys) \<Longrightarrow> xs \<noteq> [] \<Longrightarrow>
   exchanges card_exch (replicate (length xs) 0xFF) d = (xs, d\<lparr>phase := Sending (y # ys), ssp_dr := last xs\<rparr>)"
proof (induction xs arbitrary: d)
  case (Cons x xs)
  show ?case
  proof (cases "xs = []")
    case False
    then show ?thesis
      using Cons.prems Cons.IH [of "d\<lparr>phase := Sending (xs @ y # ys), ssp_dr := x\<rparr>"]
      by (simp add: card_exch_def)
  qed (use Cons.prems in \<open>simp add: card_exch_def\<close>)
qed simp

lemma card_receiving:
  "selected d \<Longrightarrow> phase d = Receiving b as \<Longrightarrow> length as + length xs \<le> 513 \<Longrightarrow> xs \<noteq> [] \<Longrightarrow>
   snd (exchanges card_exch xs d) = d\<lparr>phase := Receiving b (as @ xs), ssp_dr := 0xFF\<rparr>"
proof (induction xs arbitrary: d as)
  case (Cons x xs)
  show ?case
  proof (cases "xs = []")
    case False
    then show ?thesis
      using Cons.prems Cons.IH [of "d\<lparr>phase := Receiving b (as @ [x]), ssp_dr := 0xFF\<rparr>" "as @ [x]"]
      by (simp add: card_exch_def case_prod_beta)
  qed (use Cons.prems in \<open>simp add: card_exch_def\<close>)
qed simp

lemma card_reply:
  assumes "selected d" and "phase d = Reply 0 p"
  shows "polls_to card_exch (\<lambda>r. r AND 0x80 = 0) SD_COMMAND_TIMEOUT d 0 (d\<lparr>phase := p, ssp_dr := 0\<rparr>)"
proof -
  have "polls_to card_exch (\<lambda>r. r AND 0x80 = 0) (Suc 4999) d 0 (d\<lparr>phase := p, ssp_dr := 0\<rparr>)"
    using assms by (intro polls_to.hit) (simp_all add: card_exch_def)
  then show ?thesis by (simp add: SD_COMMAND_TIMEOUT_def)
qed

lemma card_answers:
  assumes "phase d = Idle" and "c AND 0xC0 = 0" and "card_accept (take 5 (cmd_frame c arg crc)) = Reply 0 p"
  shows "answers card_mmio card_exch (cmd_frame c arg crc) d (d\<lparr>phase := p, selected := False, ssp_dr := 0xFF\<rparr>)"
  unfolding answers_def
  by (intro exI conjI, simp only: card_select card_command [OF assms(1,2)] assms(3), rule card_reply) simp_all

lemma card_accept_single:
  assumes "b < 0x800000"
  shows "card_accept (take 5 (cmd_frame 17 (of_nat (b * 512)) crc)) = Reply 0 (Token b)"
    and "card_accept (take 5 (cmd_frame 24 (of_nat (b * 512)) crc)) = Reply 0 (Await b)"
  using card_block_arg [OF assms] by (simp_all add: card_accept_def cmd_frame_def)

lemma card_read_single:
  assumes "card_ready d" "b < 0x800000"
  shows "\<exists>d1 n d2 d3 crc d4. answers card_mmio card_exch (cmd_frame 17 (of_nat (b * 512)) 0x95) d d1 \<and>
         polls_to card_exch (\<lambda>r. r = 0xFE) n (SD_SPI_ENABLE card_mmio d1) 0xFE d2 \<and>
         exchanges card_exch (replicate 512 0xFF) d2 = (store d b, d3) \<and>
         exchanges card_exch [0xFF, 0xFF] d3 = (crc, d4) \<and>
         card_ready (select_release card_mmio card_exch d4) \<and>
         store (select_release card_mmio card_exch d4) = store d"
proof -
  let ?d1 = "d\<lparr>phase := Token b, selected := False, ssp_dr := 0xFF\<rparr>"
  let ?d2 = "d\<lparr>phase := Sending (store d b @ [0xFF, 0xFF]), selected := True, ssp_dr := 0xFE\<rparr>"
  let ?d3 = "?d2\<lparr>phase := Sending [0xFF, 0xFF], ssp_dr := last (store d b)\<rparr>"
  have len: "length (store d b) = 512" and idle: "phase d = Idle"
    using assms(1) by (simp_all add: card_ready_def)
  have "answers card_mmio card_exch (cmd_frame 17 (of_nat (b * 512)) 0x95) d ?d1"
    using idle by (rule card_answers [OF _ _ card_accept_single(1) [OF assms(2)]]) simp
  moreover have "polls_to card_exch (\<lambda>r. r = 0xFE) (Suc 0) (SD_SPI_ENABLE card_mmio ?d1) 0xFE ?d2"
    by (rule polls_to.hit) (simp_all add: card_exch_def)
  moreover have "exchanges card_exch (replicate 512 0xFF) ?d2 = (store d b, ?d3)"
    using card_sending [of ?d2 "store d b" "0xFF" "[0xFF]"] len by fastforce
  moreover have "exchanges card_exch [0xFF, 0xFF] ?d3 =
      ([0xFF, 0xFF], ?d3\<lparr>phase := Idle, ssp_dr := 0xFF\<rparr>)"
    by (simp add: card_exch_def)
  ultimately show ?thesis using assms(1)
    by (intro exI [of _ ?d1] exI [of _ "Suc 0"] exI [of _ ?d2] exI [of _ ?d3] exI [of _ "[0xFF, 0xFF]"]
        exI [of _ "?d3\<lparr>phase := Idle, ssp_dr := 0xFF\<rparr>"] conjI) (simp_all add: card_ready_def)
qed

lemma card_write_single:
  assumes "card_ready d" "b < 0x800000" "length data = 512"
  shows "\<exists>d1 rs d2 t d3 n r d4. answers card_mmio card_exch (cmd_frame 24 (of_nat (b * 512)) 0x95) d d1 \<and>
         exchanges card_exch ([0xFE] @ data @ [0xFF, 0xFF]) (SD_SPI_ENABLE card_mmio d1) = (rs, d2) \<and>
         card_exch 0xFF d2 = (t, d3) \<and> t AND 0x1F = 0x05 \<and>
         polls_to card_exch (\<lambda>r. r \<noteq> 0) n d3 r d4 \<and>
         card_ready (select_release card_mmio card_exch d4) \<and>
         store (select_release card_mmio card_exch d4) = (store d)(b := data)"
proof -
  let ?d1 = "d\<lparr>phase := Await b, selected := False, ssp_dr := 0xFF\<rparr>"
  let ?s = "(store d)(b := data)"
  let ?d2 = "d\<lparr>phase := Accepted, selected := True, ssp_dr := 0xFF, store := ?s\<rparr>"
  let ?d3 = "?d2\<lparr>phase := Busy, ssp_dr := 0x05\<rparr>"
  have idle: "phase d = Idle" using assms(1) by (simp add: card_ready_def)
  have "answers card_mmio card_exch (cmd_frame 24 (of_nat (b * 512)) 0x95) d ?d1"
    using idle by (rule card_answers [OF _ _ card_accept_single(2) [OF assms(2)]]) simp
  moreover have "snd (exchanges card_exch ([0xFE] @ data @ [0xFF, 0xFF]) (SD_SPI_ENABLE card_mmio ?d1)) = ?d2"
  proof -
    have "[0xFE] @ data @ [0xFF, 0xFF] = [0xFE] @ (data @ [0xFF]) @ [0xFF]" by simp
    moreover have "snd (exchanges card_exch [0xFE] (SD_SPI_ENABLE card_mmio ?d1)) =
        d\<lparr>phase := Receiving b [], selected := True, ssp_dr := 0xFF\<rparr>" (is "_ = ?e")
      by (simp add: card_exch_def)
    moreover have "snd (exchanges card_exch (data @ [0xFF]) ?e) = ?e\<lparr>phase := Receiving b (data @ [0xFF])\<rparr>"
      using card_receiving [of ?e b "[]" "data @ [0xFF]"] assms(3) by simp
    ultimately show ?thesis using assms(3)
      by (simp only: snd_exchanges_append) (simp add: card_exch_def)
  qed
  moreover have "card_exch 0xFF ?d2 = (0x05, ?d3)" by (simp add: card_exch_def)
  moreover have "polls_to card_exch (\<lambda>r. r \<noteq> 0) (Suc (Suc 0)) ?d3 0xFF (?d3\<lparr>phase := Idle, ssp_dr := 0xFF\<rparr>)"
    by (rule polls_to.miss [where r = 0 and ?d1.0 = "?d3\<lparr>phase := Idle, ssp_dr := 0\<rparr>"], simp add: card_exch_def, simp,
        rule polls_to.hit, simp_all add: card_exch_def)
  ultimately show ?thesis using assms(1,3)
    by (intro exI [of _ ?d1] exI [of _ "fst (exchanges card_exch ([0xFE] @ data @ [0xFF, 0xFF]) (SD_SPI_ENABLE card_mmio ?d1))"]
        exI [of _ ?d2] exI [of _ "0x05"] exI [of _ ?d3] exI [of _ "Suc (Suc 0)"] exI [of _ "0xFF"]
        exI [of _ "?d3\<lparr>phase := Idle, ssp_dr := 0xFF\<rparr>"] conjI)
      (simp_all only: prod_eq_iff fst_conv snd_conv, simp_all add: card_ready_def)
qed

interpretation rc: sd_card card_mmio card_exch card_ready store "0x800000"
proof (rule sd_card.intro [OF card_ssp], unfold_locales)
  fix d v d' assume "card_ready d" "rd card_mmio (TIM_TC 3) d = (v, d')"
  then show "card_ready d' \<and> store d' = store d"
    by (auto simp: card_mmio_def card_rd_def card_ready_def)
qed (rule card_read_single card_write_single; assumption | simp add: card_ready_def)+

section \<open>Properties of the driver\<close>

text \<open>
  Disk round trip (C11). On a card that meets the contract, \<open>disk_write\<close> of up to 512 octets to a
  block within its capacity returns success, \<open>disk_read\<close> of the same block then returns exactly
  these octets, and no other block of the card has changed.
\<close>

theorem disk_write_read:
  assumes "sd_card m exch ready blocks capacity" and "ready d" and "b < capacity"
    and "length buffer \<le> 512"
  shows "\<exists>d' d''. disk_write m buffer (length buffer) (of_nat b) d = Some (0, d') \<and>
    disk_read m buf (length buffer) (of_nat b) d' = Some (0, buffer @ drop (length buffer) buf, d'') \<and>
    ready d'' \<and> (\<forall>b'. b' \<noteq> b \<longrightarrow> blocks d'' b' = blocks d b')"
proof -
  from sd_card.disk_write_ok [OF assms order_refl] obtain d' where
    w: "disk_write m buffer (length buffer) (of_nat b) d = Some (0, d')" "ready d'"
      "blocks d' = (blocks d)(b := buffer @ replicate (512 - length buffer) 0xFF)"
    by auto
  from sd_card.disk_read_ok [OF assms(1) w(2) assms(3,4), of buf] w show ?thesis by auto
qed

theorem disk_write_read_witness:
  "\<exists>d' d''. disk_write card_mmio [1, 2, 3] 3 7 blank_card = Some (0, d') \<and>
     disk_read card_mmio [9, 9, 9, 9] 3 7 d' = Some (0, [1, 2, 3, 9], d'') \<and>
     card_ready d'' \<and> (\<forall>b'. b' \<noteq> 7 \<longrightarrow> store d'' b' = store blank_card b')"
  using disk_write_read [OF rc.sd_card_axioms, of blank_card 7 "[1, 2, 3]" "[9, 9, 9, 9]"]
  by (simp add: blank_card_def card_ready_def numeral_3_eq_3)

text \<open>The register of \<open>data\<close> read as one number, most significant octet first.\<close>

definition be_nat :: "u8 list \<Rightarrow> nat" where
  "be_nat data = foldl (\<lambda>n b. n * 256 + unat b) 0 data"

lemma bit_foldl_be:
  "bit (foldl (\<lambda>n b. n * 256 + unat (b :: u8)) a data) i \<longleftrightarrow>
     (if i < 8 * length data then bit (data ! (length data - 1 - i div 8)) (i mod 8)
      else bit a (i - 8 * length data))"
proof (induction data arbitrary: i rule: rev_induct)
  case (snoc b data)
  let ?n = "foldl (\<lambda>n b. n * 256 + unat (b :: u8)) a data"
  have "?n * 256 + unat b = push_bit 8 ?n OR unat b"
  proof -
    have "push_bit 8 ?n AND unat b = 0"
      by (rule bit_eqI) (auto simp: bit_simps dest: bit_imp_le_length)
    then have "push_bit 8 ?n + unat b = push_bit 8 ?n OR unat b" by (rule disjunctive_add_eq_or)
    then show ?thesis by (simp add: push_bit_eq_mult)
  qed
  then have "bit (?n * 256 + unat b) i \<longleftrightarrow> (if i < 8 then bit b i else bit ?n (i - 8))"
    by (auto simp: bit_simps)
  moreover have "i < 8 \<Longrightarrow> i div 8 = 0" "i < 8 \<Longrightarrow> i mod 8 = i" by simp_all
  moreover have "8 \<le> i \<Longrightarrow> i div 8 = Suc ((i - 8) div 8)" "8 \<le> i \<Longrightarrow> (i - 8) mod 8 = i mod 8"
    by (simp_all add: le_div_geq le_mod_geq)
  ultimately show ?case
    by (auto simp: snoc.IH nth_append less_diff_conv2)
qed simp

lemma bit_ext_bits_fold:
  assumes "k \<le> 32"
  shows "bit (fold (\<lambda>i bits. bits OR push_bit i (drop_bit (p i mod 8) (ucast (g i :: u8)) AND 1)) [0..<k] (0 :: u32)) j
     \<longleftrightarrow> j < k \<and> bit (g j) (p j mod 8)"
proof -
  have "p i mod 8 < 32" for i using mod_less_divisor [of 8 "p i"] by linarith
  with assms show ?thesis by (induction k) (auto simp: bit_simps less_Suc_eq)
qed

text \<open>
  Bit fields of the card-specific data register. \<open>ext_bits(data, msb, lsb)\<close> is the field of
  at most 32 bits from bit \<open>msb\<close> down to bit \<open>lsb\<close> of the 128-bit big-endian number that the 16
  octets of the register hold, for every register content.
\<close>

theorem ext_bits_field:
  assumes "length data = 16" and "lsb \<le> msb" and "msb < 128" and "msb - lsb < 32"
  shows "unat (ext_bits data msb lsb) = (be_nat data div 2 ^ lsb) mod 2 ^ (msb - lsb + 1)"
proof -
  let ?k = "1 + msb - lsb"
  let ?field = "take_bit ?k (drop_bit lsb (be_nat data))"
  have k: "?k = msb - lsb + 1" "?k \<le> 32" using assms by simp_all
  have "ext_bits data msb lsb = of_nat ?field"
  proof (rule bit_word_eqI)
    fix j assume "j < LENGTH(32)"
    moreover have "bit (ext_bits data msb lsb) j \<longleftrightarrow> j < ?k \<and> bit (data ! (15 - (lsb + j) div 8)) ((lsb + j) mod 8)"
      unfolding ext_bits_def Let_def by (rule bit_ext_bits_fold [OF k(2)])
    moreover have "j < ?k \<Longrightarrow> bit (be_nat data) (lsb + j) \<longleftrightarrow> bit (data ! (15 - (lsb + j) div 8)) ((lsb + j) mod 8)"
      using assms by (simp add: be_nat_def bit_foldl_be)
    ultimately show "bit (ext_bits data msb lsb) j = bit (of_nat ?field :: u32) j"
      by (simp add: bit_of_nat_iff bit_take_bit_iff bit_drop_bit_eq) blast
  qed
  then have "ext_bits data msb lsb = of_nat ((be_nat data div 2 ^ lsb) mod 2 ^ (msb - lsb + 1))"
    by (simp only: k(1) take_bit_eq_mod drop_bit_eq_div)
  moreover have "(be_nat data div 2 ^ lsb) mod 2 ^ (msb - lsb + 1) < 2 ^ 32"
  proof -
    have "(be_nat data div 2 ^ lsb) mod 2 ^ (msb - lsb + 1) < 2 ^ (msb - lsb + 1)"
      by (rule mod_less_divisor) simp
    also have "\<dots> \<le> 2 ^ 32" using assms(4) by (intro power_increasing) simp_all
    finally show ?thesis .
  qed
  ultimately show ?thesis by (simp add: unsigned_of_nat take_bit_nat_eq_self del: power_Suc)
qed

theorem ext_bits_field_witness:
  "unat (ext_bits [0x40, 0x0E, 0, 0x32, 0x5B, 0x59, 0, 0, 0xED, 0xC8, 0x7F, 0x80, 0x0A, 0x40, 0x40, 0xC3] 127 126) = 1"
  using ext_bits_field [of "[0x40, 0x0E, 0, 0x32, 0x5B, 0x59, 0, 0, 0xED, 0xC8, 0x7F, 0x80, 0x0A, 0x40, 0x40, 0xC3]" 126 127]
  by (simp add: be_nat_def)

end
