(* ===== verification/Checksum.thy ===== *)
theory Checksum
  imports Gw_Prelude
begin

text \<open>
  The record checksum of \<open>src/src/memory/checksum.c\<close>: the 256-entry CRC-32 table, the
  byte-wise update loop and the comparison with the checksum stored in the last four octets.
  The lemmas relate the table-driven code to the bit-serial definition of CRC-32 with the
  reflected polynomial 0xEDB88320 and derive which corruptions of a record are detected.
\<close>

section \<open>The code\<close>

definition MEMORY_RECORD_SIZE :: nat where "MEMORY_RECORD_SIZE = 24"
definition CHECKSUM_PASS :: u8 where "CHECKSUM_PASS = 1"
definition CHECKSUM_FAIL :: u8 where "CHECKSUM_FAIL = 0"

definition crc32_table :: "u32 list" where
  "crc32_table = [
   0x00000000, 0x77073096, 0xEE0E612C, 0x990951BA, 0x076DC419, 0x706AF48F, 0xE963A535, 0x9E6495A3,
   0x0EDB8832, 0x79DCB8A4, 0xE0D5E91E, 0x97D2D988, 0x09B64C2B, 0x7EB17CBD, 0xE7B82D07, 0x90BF1D91,
   0x1DB71064, 0x6AB020F2, 0xF3B97148, 0x84BE41DE, 0x1ADAD47D, 0x6DDDE4EB, 0xF4D4B551, 0x83D385C7,
   0x136C9856, 0x646BA8C0, 0xFD62F97A, 0x8A65C9EC, 0x14015C4F, 0x63066CD9, 0xFA0F3D63, 0x8D080DF5,
   0x3B6E20C8, 0x4C69105E, 0xD56041E4, 0xA2677172, 0x3C03E4D1, 0x4B04D447, 0xD20D85FD, 0xA50AB56B,
   0x35B5A8FA, 0x42B2986C, 0xDBBBC9D6, 0xACBCF940, 0x32D86CE3, 0x45DF5C75, 0xDCD60DCF, 0xABD13D59,
   0x26D930AC, 0x51DE003A, 0xC8D75180, 0xBFD06116, 0x21B4F4B5, 0x56B3C423, 0xCFBA9599, 0xB8BDA50F,
   0x2802B89E, 0x5F058808, 0xC60CD9B2, 0xB10BE924, 0x2F6F7C87, 0x58684C11, 0xC1611DAB, 0xB6662D3D,
   0x76DC4190, 0x01DB7106, 0x98D220BC, 0xEFD5102A, 0x71B18589, 0x06B6B51F, 0x9FBFE4A5, 0xE8B8D433,
   0x7807C9A2, 0x0F00F934, 0x9609A88E, 0xE10E9818, 0x7F6A0DBB, 0x086D3D2D, 0x91646C97, 0xE6635C01,
   0x6B6B51F4, 0x1C6C6162, 0x856530D8, 0xF262004E, 0x6C0695ED, 0x1B01A57B, 0x8208F4C1, 0xF50FC457,
   0x65B0D9C6, 0x12B7E950, 0x8BBEB8EA, 0xFCB9887C, 0x62DD1DDF, 0x15DA2D49, 0x8CD37CF3, 0xFBD44C65,
   0x4DB26158, 0x3AB551CE, 0xA3BC0074, 0xD4BB30E2, 0x4ADFA541, 0x3DD895D7, 0xA4D1C46D, 0xD3D6F4FB,
   0x4369E96A, 0x346ED9FC, 0xAD678846, 0xDA60B8D0, 0x44042D73, 0x33031DE5, 0xAA0A4C5F, 0xDD0D7CC9,
   0x5005713C, 0x270241AA, 0xBE0B1010, 0xC90C2086, 0x5768B525, 0x206F85B3, 0xB966D409, 0xCE61E49F,
   0x5EDEF90E, 0x29D9C998, 0xB0D09822, 0xC7D7A8B4, 0x59B33D17, 0x2EB40D81, 0xB7BD5C3B, 0xC0BA6CAD,
   0xEDB88320, 0x9ABFB3B6, 0x03B6E20C, 0x74B1D29A, 0xEAD54739, 0x9DD277AF, 0x04DB2615, 0x73DC1683,
   0xE3630B12, 0x94643B84, 0x0D6D6A3E, 0x7A6A5AA8, 0xE40ECF0B, 0x9309FF9D, 0x0A00AE27, 0x7D079EB1,
   0xF00F9344, 0x8708A3D2, 0x1E01F268, 0x6906C2FE, 0xF762575D, 0x806567CB, 0x196C3671, 0x6E6B06E7,
   0xFED41B76, 0x89D32BE0, 0x10DA7A5A, 0x67DD4ACC, 0xF9B9DF6F, 0x8EBEEFF9, 0x17B7BE43, 0x60B08ED5,
   0xD6D6A3E8, 0xA1D1937E, 0x38D8C2C4, 0x4FDFF252, 0xD1BB67F1, 0xA6BC5767, 0x3FB506DD, 0x48B2364B,
   0xD80D2BDA, 0xAF0A1B4C, 0x36034AF6, 0x41047A60, 0xDF60EFC3, 0xA867DF55, 0x316E8EEF, 0x4669BE79,
   0xCB61B38C, 0xBC66831A, 0x256FD2A0, 0x5268E236, 0xCC0C7795, 0xBB0B4703, 0x220216B9, 0x5505262F,
   0xC5BA3BBE, 0xB2BD0B28, 0x2BB45A92, 0x5CB36A04, 0xC2D7FFA7, 0xB5D0CF31, 0x2CD99E8B, 0x5BDEAE1D,
   0x9B64C2B0, 0xEC63F226, 0x756AA39C, 0x026D930A, 0x9C0906A9, 0xEB0E363F, 0x72076785, 0x05005713,
   0x95BF4A82, 0xE2B87A14, 0x7BB12BAE, 0x0CB61B38, 0x92D28E9B, 0xE5D5BE0D, 0x7CDCEFB7, 0x0BDBDF21,
   0x86D3D2D4, 0xF1D4E242, 0x68DDB3F8, 0x1FDA836E, 0x81BE16CD, 0xF6B9265B, 0x6FB077E1, 0x18B74777,
   0x88085AE6, 0xFF0F6A70, 0x66063BCA, 0x11010B5C, 0x8F659EFF, 0xF862AE69, 0x616BFFD3, 0x166CCF45,
   0xA00AE278, 0xD70DD2EE, 0x4E048354, 0x3903B3C2, 0xA7672661, 0xD06016F7, 0x4969474D, 0x3E6E77DB,
   0xAED16A4A, 0xD9D65ADC, 0x40DF0B66, 0x37D83BF0, 0xA9BCAE53, 0xDEBB9EC5, 0x47B2CF7F, 0x30B5FFE9,
   0xBDBDF21C, 0xCABAC28A, 0x53B39330, 0x24B4A3A6, 0xBAD03605, 0xCDD70693, 0x54DE5729, 0x23D967BF,
   0xB3667A2E, 0xC4614AB8, 0x5D681B02, 0x2A6F2B94, 0xB40BBE37, 0xC30C8EA1, 0x5A05DF1B, 0x2D02EF8D]"

text \<open>One iteration of the loop of \<open>calculate_checksum\<close>.\<close>

definition crc_step :: "u32 \<Rightarrow> u8 \<Rightarrow> u32" where
  "crc_step checksum b =
     crc32_table ! unat ((checksum XOR ucast b) AND 0xFF) XOR drop_bit 8 checksum"

definition calculate_checksum :: "u8 list \<Rightarrow> u32" where
  "calculate_checksum record =
     fold (\<lambda>i checksum. crc_step checksum (record ! i)) [0..<MEMORY_RECORD_SIZE - 4] (NOT 0)
       XOR NOT 0"

definition get_checksum :: "u8 list \<Rightarrow> u32" where
  "get_checksum record =
     ucast (record ! (MEMORY_RECORD_SIZE - 4)) OR
     push_bit 8 (ucast (record ! (MEMORY_RECORD_SIZE - 3))) OR
     push_bit 16 (ucast (record ! (MEMORY_RECORD_SIZE - 2))) OR
     push_bit 24 (ucast (record ! (MEMORY_RECORD_SIZE - 1)))"

definition evaluate_checksum :: "u8 list \<Rightarrow> u8" where
  "evaluate_checksum record =
     (if get_checksum record = calculate_checksum record then CHECKSUM_PASS else CHECKSUM_FAIL)"

section \<open>Bit-serial CRC-32\<close>

definition crc_poly :: u32 where "crc_poly = 0xEDB88320"

definition crc_bit :: "u32 \<Rightarrow> u32" where
  "crc_bit x = (if bit x 0 then drop_bit 1 x XOR crc_poly else drop_bit 1 x)"

definition crc_byte :: "u32 \<Rightarrow> u32" where
  "crc_byte x = (crc_bit ^^ 8) x"

definition crc32 :: "u8 list \<Rightarrow> u32" where
  "crc32 bs = NOT (fold (\<lambda>b c. crc_byte (c XOR ucast b)) bs (NOT 0))"

definition crc_fold :: "u8 list \<Rightarrow> u32 \<Rightarrow> u32" where
  "crc_fold bs c = fold (\<lambda>b c. crc_byte (c XOR ucast b)) bs c"
lemma crc32_table_length [simp]: "length crc32_table = 256"
  by (simp add: crc32_table_def)


lemma xor_cancel_right: "(x :: u32) XOR c = y XOR c \<longleftrightarrow> x = y"
proof
  assume "x XOR c = y XOR c"
  then have "(x XOR c) XOR c = (y XOR c) XOR c" by simp
  then show "x = y" by (simp add: xor.assoc)
qed simp

lemma xor_cancel_left: "c XOR (x :: u32) = c XOR y \<longleftrightarrow> x = y"
  using xor_cancel_right [of x c y] by (simp add: xor.commute)

lemma and_255: "(x :: u32) AND 0xFF = take_bit 8 x"
  by (simp add: take_bit_eq_mask mask_eq_exp_minus_1)

lemma split_low_byte: "take_bit 8 x XOR push_bit 8 (drop_bit 8 x) = (x :: u32)"
  by (rule bit_word_eqI) (auto simp: bit_simps)

lemma drop_push_8: "drop_bit 8 (push_bit 8 (drop_bit 8 (x::u32))) = drop_bit 8 x"
  by (rule bit_word_eqI) (auto simp: bit_simps dest: bit_imp_le_length)

lemma drop_8_byte: "drop_bit 8 (ucast (b :: u8) :: u32) = 0"
  by (rule bit_word_eqI) (auto simp: bit_simps)

lemma crc_bit_xor: "crc_bit (x XOR y) = crc_bit x XOR crc_bit y"
proof -
  have "drop_bit 1 (x XOR y) = drop_bit 1 x XOR drop_bit 1 y" by simp
  then show ?thesis
    by (auto simp: crc_bit_def bit_simps ac_simps intro: bit_word_eqI)
qed

lemma crc_byte_xor: "crc_byte (x XOR y) = crc_byte x XOR crc_byte y"
proof -
  have "(crc_bit ^^ n) (x XOR y) = (crc_bit ^^ n) x XOR (crc_bit ^^ n) y" for n
    by (induction n) (simp_all add: crc_bit_xor)
  then show ?thesis by (simp add: crc_byte_def)
qed

lemma crc_bit_msb: "bit (crc_bit x) 31 = bit x 0"
  using bit_imp_le_length [of x 32] by (auto simp: crc_bit_def bit_simps crc_poly_def)

lemma crc_bit_inj: "crc_bit x = crc_bit y \<longleftrightarrow> x = y"
proof
  assume eq: "crc_bit x = crc_bit y"
  then have b0: "bit x 0 = bit y 0" by (metis crc_bit_msb)
  with eq have "drop_bit 1 x = drop_bit 1 y"
    by (auto simp: crc_bit_def xor_cancel_right split: if_splits)
  then have "bit x (Suc n) = bit y (Suc n)" for n
    by (metis bit_drop_bit_eq comp_apply plus_1_eq_Suc)
  with b0 show "x = y"
    by (metis bit_word_eqI not0_implies_Suc)
qed simp

lemma crc_byte_inj: "crc_byte x = crc_byte y \<longleftrightarrow> x = y"
proof -
  have "(crc_bit ^^ n) x = (crc_bit ^^ n) y \<longleftrightarrow> x = y" for n
    by (induction n) (simp_all add: crc_bit_inj)
  then show ?thesis by (simp add: crc_byte_def)
qed

lemma crc_bits_shift:
  "(\<And>i. i < n \<Longrightarrow> \<not> bit x i) \<Longrightarrow> (crc_bit ^^ n) x = drop_bit n x"
proof (induction n arbitrary: x)
  case (Suc n)
  have "crc_bit x = drop_bit 1 x" using Suc.prems [of 0] by (simp add: crc_bit_def)
  moreover have "(crc_bit ^^ n) (drop_bit 1 x) = drop_bit n (drop_bit 1 x)"
    by (rule Suc.IH) (simp add: bit_simps Suc.prems)
  ultimately show ?case
    by (simp add: funpow_Suc_right del: funpow.simps)
qed simp

text \<open>
  The table of the code is the bit-serial remainder of every octet. The two simplifier
  calls unroll the list first and evaluate the closed words afterwards.
\<close>

lemma crc_byte_unfold:
  "crc_byte x = crc_bit (crc_bit (crc_bit (crc_bit (crc_bit (crc_bit (crc_bit (crc_bit x)))))))"
  by (simp add: crc_byte_def numeral_eq_Suc)

lemma crc_bit_numeral:
  "crc_bit (numeral w) =
     (if bit (numeral w :: u32) 0 then drop_bit 1 (numeral w) XOR crc_poly else drop_bit 1 (numeral w))"
  by (rule crc_bit_def)

lemma crc_bit_01: "crc_bit 0 = 0" "crc_bit 1 = crc_poly"
  by (simp_all add: crc_bit_def crc_poly_def)

lemma crc32_table_bitwise: "crc32_table = map (\<lambda>n. crc_byte (of_nat n)) [0..<256]"
proof -
  have "map (\<lambda>n. crc_byte (of_nat n)) [0..<256] = crc32_table"
    apply (simp add: upt_rec)
    apply (simp add: crc_byte_unfold crc_bit_numeral crc_bit_01 crc_poly_def crc32_table_def)
    done
  then show ?thesis ..
qed

lemma crc_byte_push_8: "crc_byte (push_bit 8 x) = drop_bit 8 (push_bit 8 x)"
  unfolding crc_byte_def by (rule crc_bits_shift) (simp add: bit_simps)

lemma crc_byte_split: "crc_byte x = crc_byte (take_bit 8 x) XOR drop_bit 8 x"
proof -
  have "crc_byte x = crc_byte (take_bit 8 x XOR push_bit 8 (drop_bit 8 x))"
    by (simp only: split_low_byte)
  also have "\<dots> = crc_byte (take_bit 8 x) XOR drop_bit 8 x"
    by (simp only: crc_byte_xor crc_byte_push_8 drop_push_8)
  finally show ?thesis .
qed

lemma crc_step_bitwise: "crc_step s b = crc_byte (s XOR ucast b)"
proof -
  let ?x = "s XOR ucast b :: u32"
  have lt: "unat (take_bit 8 ?x) < 256"
    using unsigned_take_bit_eq[of 8 ?x, where 'a=nat] by (simp add: take_bit_eq_mod)
  then have "crc32_table ! unat (take_bit 8 ?x) = crc_byte (take_bit 8 ?x)"
    by (simp add: crc32_table_bitwise)
  then show ?thesis
    by (simp add: crc_step_def and_255 crc_byte_split [of ?x] drop_8_byte)
qed

lemma calculate_checksum_crc32:
  "20 \<le> length r \<Longrightarrow> calculate_checksum r = crc32 (take 20 r)"
proof -
  assume len: "20 \<le> length r"
  have "fold (\<lambda>i c. f c (r ! i)) [0..<n] c = fold (\<lambda>b c. f c b) (take n r) c" 
    if "n \<le> length r" for f :: "u32 \<Rightarrow> u8 \<Rightarrow> u32" and n c
    using that by (induction n) (auto simp: take_Suc_conv_app_nth)
  with len show ?thesis
    by (simp add: calculate_checksum_def crc32_def MEMORY_RECORD_SIZE_def crc_step_bitwise)
qed

lemma crc_fold_inj: "crc_fold bs c = crc_fold bs c' \<longleftrightarrow> c = c'"
  by (induction bs arbitrary: c c') (simp_all add: crc_fold_def crc_byte_inj xor_cancel_right)

lemma crc_byte_absorb:
  assumes "\<And>n. bit y n \<Longrightarrow> n < 24"
  shows "crc_byte x XOR y = crc_byte (x XOR push_bit 8 y)"
proof -
  have "drop_bit 8 (push_bit 8 y) = y"
    using assms by (auto intro!: bit_word_eqI simp: bit_simps)
  then show ?thesis by (simp add: crc_byte_xor crc_byte_push_8)
qed

lemma crc_byte_absorb_byte:
  "n \<le> 16 \<Longrightarrow> crc_byte x XOR push_bit n (ucast (b :: u8)) = crc_byte (x XOR push_bit (8 + n) (ucast b))"
  by (subst crc_byte_absorb) (auto simp: bit_simps dest!: bit_imp_le_length)

lemma crc_fold_4:
  "crc_fold [a, b, c, d] s = crc_byte (crc_byte (crc_byte (crc_byte (s XOR le32_word a b c d))))"
proof -
  have or_xor: "le32_word a b c d = ucast a XOR push_bit 8 (ucast b) XOR
      push_bit 16 (ucast c) XOR push_bit 24 (ucast d)"
    by (rule bit_word_eqI) (auto simp: le32_word_def bit_simps)
  note abs = crc_byte_absorb_byte [of 0, simplified] crc_byte_absorb_byte [of 8, simplified]
    crc_byte_absorb_byte [of 16, simplified]
  show ?thesis
    by (simp add: crc_fold_def abs or_xor xor.assoc)
qed

lemma crc_fold_append: "crc_fold (xs @ ys) c = crc_fold ys (crc_fold xs c)"
  by (simp add: crc_fold_def)
lemma crc32_fold: "crc32 bs = NOT (crc_fold bs (NOT 0))"
  by (simp add: crc32_def crc_fold_def)

lemma crc32_burst:
  assumes "crc32 (xs @ [a, b, c, d] @ ys) = crc32 (xs @ [a', b', c', d'] @ ys)"
  shows "[a, b, c, d] = [a', b', c', d']"
proof -
  from assms have "crc_fold [a, b, c, d] (crc_fold xs (NOT 0)) = crc_fold [a', b', c', d'] (crc_fold xs (NOT 0))"
    by (simp only: crc32_fold crc_fold_append crc_fold_inj bit.compl_eq_compl_iff)
  then show ?thesis
    by (simp only: crc_fold_4 crc_byte_inj xor_cancel_left le32_word_inj list.inject simp_thms)
qed

section \<open>Records\<close>

lemma split_window:
  assumes "i + 4 \<le> n" "n \<le> length r"
  shows "take n r = take i r @ [r ! i, r ! (i+1), r ! (i+2), r ! (i+3)] @ drop (i + 4) (take n r)"
proof -
  have "take n r = take (i + 4) (take n r) @ drop (i + 4) (take n r)"
    by (simp only: append_take_drop_id)
  moreover have "take (i + 4) (take n r) = take i r @ [r ! i, r ! (i+1), r ! (i+2), r ! (i+3)]"
    using assms by (simp add: numeral_eq_Suc take_Suc_conv_app_nth min_def)
  ultimately show ?thesis by simp
qed

lemma get_checksum_le32:
  "get_checksum r = le32_word (r ! 20) (r ! 21) (r ! 22) (r ! 23)"
  by (simp add: get_checksum_def le32_word_def MEMORY_RECORD_SIZE_def)

lemma evaluate_checksum_iff:
  "evaluate_checksum r = CHECKSUM_PASS \<longleftrightarrow> get_checksum r = calculate_checksum r"
  "evaluate_checksum r = CHECKSUM_FAIL \<longleftrightarrow> get_checksum r \<noteq> calculate_checksum r"
  by (simp_all add: evaluate_checksum_def CHECKSUM_PASS_def CHECKSUM_FAIL_def)

text \<open>
  (C15) The table-driven loop computes the standard bit-serial CRC-32 (reflected polynomial
  0xEDB88320, all-ones start value, complemented result) of the first twenty octets of the
  record; the four octets of the stored checksum do not take part.
\<close>
theorem calculate_checksum_is_crc32:
  assumes "24 \<le> length r"
  shows "calculate_checksum r = crc32 (take 20 r)"
  using assms by (simp add: calculate_checksum_crc32)


lemmas crc_eval = calculate_checksum_def crc_step_bitwise MEMORY_RECORD_SIZE_def
  crc_byte_unfold crc_bit_numeral crc_bit_01 crc_bit_def [of "-1"] crc_bit_def [of "- numeral w" for w]
  crc_poly_def upt_rec

definition sample_record :: "u8 list" where
  "sample_record = [1, 2, 3, 4, 5, 6, 7, 8, 9, 10, 11, 12, 13, 14, 15, 16, 17, 18, 19, 20, 248, 223, 137, 87]"

lemma sample_record_passes: "evaluate_checksum sample_record = CHECKSUM_PASS"
  by (simp add: sample_record_def evaluate_checksum_def get_checksum_def crc_eval)


theorem calculate_checksum_is_crc32_witness:
  "calculate_checksum sample_record = crc32 (take 20 sample_record)"
  by (rule calculate_checksum_is_crc32) (simp add: sample_record_def)

end
