(* ===== verification/Memory.thy ===== *)
theory Memory
  imports Ref_Card Checksum
begin

text \<open>
  The store of sample records on the SD card, \<open>src/src/memory/memory.c\<close>: block 0 of the card
  holds the read and write indexes, eight words that repeat the pair with an offset, and the
  other blocks form a ring of records. The state is the globals of \<open>memory.c\<close> on top of those
  of \<open>sd.c\<close>. Theory \<open>Memory_Queue\<close> has the correctness of these functions.
\<close>

section \<open>Globals\<close>

record memory_indexes =
  write_index :: u32
  read_index :: u32

record 'd memst = "'d sdst" +
  indexes_buf :: "u8 list"
  mem_buf :: "u32 list"
  memory_indexes :: memory_indexes
  last_write_time :: u32

definition INDEXES_LEN :: nat where "INDEXES_LEN = 32"

section \<open>Indexes\<close>

text \<open>The words of a block 0 that holds the given indexes, and the test that it is intact.\<close>

definition index_words :: "memory_indexes \<Rightarrow> u32 list" where
  "index_words ix = concat (map (\<lambda>i. [read_index ix + of_nat i, write_index ix + of_nat i]) [0, 2, 4, 6])"

definition indexes_match :: "u32 list \<Rightarrow> bool" where
  "indexes_match words \<longleftrightarrow>
     list_all (\<lambda>i. \<not> (words ! i \<noteq> words ! 0 + of_nat i \<or> words ! (i + 1) \<noteq> words ! 1 + of_nat i)) [2, 4, 6]"

definition get_memory_indexes ::
  "'d mmio \<Rightarrow> ('d, 'z) memst_scheme \<Rightarrow> (u8 \<times> memory_indexes \<times> ('d, 'z) memst_scheme) option" where
  "get_memory_indexes m s =
     do { (_, buf, d) \<leftarrow> disk_read m (indexes_buf s) INDEXES_LEN 0 (hwst s);
          let s = s\<lparr>hwst := d, indexes_buf := buf\<rparr>;
          let words = words_of_bytes buf;
          if indexes_match words then Some (1, \<lparr>write_index = words ! 1, read_index = words ! 0\<rparr>, s)
          else Some (0, \<lparr>write_index = 0xFFFFFFFF, read_index = 0xFFFFFFFF\<rparr>, s) }"

definition put_memory_indexes ::
  "'d mmio \<Rightarrow> memory_indexes \<Rightarrow> ('d, 'z) memst_scheme \<Rightarrow> (u8 \<times> ('d, 'z) memst_scheme) option" where
  "put_memory_indexes m indexes s =
     do { let s = s\<lparr>indexes_buf := bytes_of_words (index_words indexes)\<rparr>;
          (_, d) \<leftarrow> disk_write m (indexes_buf s) INDEXES_LEN 0 (hwst s);
          Some (1, s\<lparr>hwst := d\<rparr>) }"

section \<open>Block control\<close>

definition is_block_valid :: "('d, 'z) sdst_scheme \<Rightarrow> u32 \<Rightarrow> bool" where
  "is_block_valid s block \<longleftrightarrow>
     \<not> (block = 0 \<or> block > 0x007FFFFF \<or> (ucast block :: u64) > disk_sectors s - 1)"

definition next_block :: "('d, 'z) sdst_scheme \<Rightarrow> u32 \<Rightarrow> u32" where
  "next_block s current_block =
     (let next = current_block + 1 in if \<not> is_block_valid s next then 1 else next)"

section \<open>Reading and writing\<close>

definition get_sample ::
  "'d mmio \<Rightarrow> u32 \<Rightarrow> ('d, 'z) memst_scheme \<Rightarrow> (u32 list option \<times> ('d, 'z) memst_scheme) option" where
  "get_sample m index s =
     do { (r, buf, d) \<leftarrow> disk_read m (bytes_of_words (mem_buf s)) MEMORY_RECORD_SIZE (ucast index) (hwst s);
          let s = s\<lparr>hwst := d, mem_buf := words_of_bytes buf\<rparr>;
          if r \<noteq> 0 then Some (None, s)
          else if evaluate_checksum (bytes_of_words (mem_buf s)) = CHECKSUM_FAIL then Some (None, s)
          else Some (Some (mem_buf s), s) }"

definition get_current_read_block :: "('d, 'z) memst_scheme \<Rightarrow> u32" where
  "get_current_read_block s = read_index (memory_indexes s)"

definition get_blocks_to_read ::
  "'d mmio \<Rightarrow> ('d, 'z) memst_scheme \<Rightarrow> u16 \<times> ('d, 'z) memst_scheme" where
  "get_blocks_to_read m s =
     (let blocks = write_index (memory_indexes s) - read_index (memory_indexes s)
      in if sint blocks < 0 then (0, s)
         else case rd m (TIM_TC 3) (hwst s) of (tc, d) \<Rightarrow>
           (let s = s\<lparr>hwst := d\<rparr>
            in if tc - last_write_time s < 3 then (0, s)
               else (if sint blocks < 1000 then ucast blocks else 1000, s)))"

definition put_sample ::
  "'d mmio \<Rightarrow> u8 list \<Rightarrow> ('d, 'z) memst_scheme \<Rightarrow> (u8 \<times> ('d, 'z) memst_scheme) option" where
  "put_sample m block s =
     (let next = next_block s (write_index (memory_indexes s))
      in if next \<noteq> read_index (memory_indexes s) then
           do { (_, d) \<leftarrow> disk_write m block MEMORY_RECORD_SIZE (ucast next) (hwst s);
                let s = s\<lparr>hwst := d, memory_indexes := (memory_indexes s)\<lparr>write_index := next\<rparr>\<rparr>;
                let (tc, d) = rd m (TIM_TC 3) (hwst s);
                let s = s\<lparr>hwst := d, last_write_time := tc\<rparr>;
                if next AND 0x7 = 0 then
                  do { (_, s) \<leftarrow> put_memory_indexes m (memory_indexes s) s; Some (1, s) }
                else Some (1, s) }
         else Some (0, s))"

section \<open>Upload done\<close>

definition good_upload_done ::
  "'d mmio \<Rightarrow> ('d, 'z) memst_scheme \<Rightarrow> ('d, 'z) memst_scheme option" where
  "good_upload_done m s =
     (let s = s\<lparr>memory_indexes :=
                 (memory_indexes s)\<lparr>read_index := next_block s (read_index (memory_indexes s))\<rparr>\<rparr>
      in if read_index (memory_indexes s) AND 0x7 = 0 then
           do { (_, s) \<leftarrow> put_memory_indexes m (memory_indexes s) s; Some s }
         else Some s)"

definition bad_upload_done ::
  "'d mmio \<Rightarrow> ('d, 'z) memst_scheme \<Rightarrow> ('d, 'z) memst_scheme option" where
  "bad_upload_done m s =
     do { (r, buf, d) \<leftarrow> disk_read m (bytes_of_words (mem_buf s)) MEMORY_RECORD_SIZE
            (ucast (read_index (memory_indexes s))) (hwst s);
          let s = s\<lparr>hwst := d, mem_buf := words_of_bytes buf\<rparr>;
          if r \<noteq> 0 then Some s else good_upload_done m s }"

section \<open>Initialisation\<close>

definition memory_init ::
  "'d mmio \<Rightarrow> ('d, 'z) memst_scheme \<Rightarrow> ((c_fault + u8) \<times> ('d, 'z) memst_scheme) option" where
  "memory_init m s =
     do { (r, s) \<leftarrow> disk_initialize m (s\<lparr>hwst := SPI_Init m (hwst s)\<rparr>);
          case r of
            Inl f \<Rightarrow> Some (Inl f, s)
          | Inr _ \<Rightarrow>
              do { let s = s\<lparr>last_write_time := 0,
                             memory_indexes := \<lparr>write_index = 0xFFFFFFFF, read_index = 0xFFFFFFFF\<rparr>\<rparr>;
                   (_, ix, s) \<leftarrow> get_memory_indexes m s;
                   Some (Inr 1, s\<lparr>memory_indexes := ix\<rparr>) } }"

end
