(* ===== verification/Memory_Queue.thy ===== *)
theory Memory_Queue
  imports Memory
begin

text \<open>
  Correctness of the record store of \<open>memory.c\<close>. The blocks between the read and the write
  index are a ring; on a card that meets its contract \<open>put_sample\<close> and \<open>good_upload_done\<close>
  refine a bounded first-in first-out queue of records (locale \<open>record_queue\<close>, obtained for
  the code's functions from the disk contract by \<open>sublocale\<close>).
\<close>

section \<open>The ring of blocks\<close>

text \<open>
  With \<open>M\<close> data blocks, numbered from 1, the block after \<open>b\<close>, and the list of blocks from the
  read index \<open>r\<close> to the write index \<open>w\<close>, both included.
\<close>

definition ring_next :: "nat \<Rightarrow> nat \<Rightarrow> nat" where
  "ring_next M b = (if b < M then b + 1 else 1)"

definition ring_pos :: "nat \<Rightarrow> nat \<Rightarrow> nat \<Rightarrow> nat" where
  "ring_pos M r i = (if r + i \<le> M then r + i else r + i - M)"

definition ring_dist :: "nat \<Rightarrow> nat \<Rightarrow> nat \<Rightarrow> nat" where
  "ring_dist M r w = (if r \<le> w then w - r else w + M - r)"

definition ring :: "nat \<Rightarrow> nat \<Rightarrow> nat \<Rightarrow> nat list" where
  "ring M r w = map (ring_pos M r) [0..<Suc (ring_dist M r w)]"

lemmas ring_defs = ring_next_def ring_pos_def ring_dist_def

lemma ring_next_range: "0 < M \<Longrightarrow> ring_next M b \<in> {1..M}"
  by (auto simp: ring_next_def)

lemma length_ring: "length (ring M r w) = Suc (ring_dist M r w)"
  by (simp add: ring_def)

lemma ring_pos_dist: "r \<in> {1..M} \<Longrightarrow> w \<in> {1..M} \<Longrightarrow> ring_pos M r (ring_dist M r w) = w"
  by (auto simp: ring_defs)

lemma ring_pos_range: "r \<in> {1..M} \<Longrightarrow> i < M \<Longrightarrow> ring_pos M r i \<in> {1..M}"
  by (auto simp: ring_defs)

lemma ring_pos_inj: "r \<in> {1..M} \<Longrightarrow> i < M \<Longrightarrow> j < M \<Longrightarrow> ring_pos M r i = ring_pos M r j \<Longrightarrow> i = j"
  by (auto simp: ring_defs split: if_splits)

lemma ring_dist_less: "r \<in> {1..M} \<Longrightarrow> w \<in> {1..M} \<Longrightarrow> ring_dist M r w < M"
  by (auto simp: ring_defs)

lemma ring_dist_next:
  "r \<in> {1..M} \<Longrightarrow> w \<in> {1..M} \<Longrightarrow> ring_next M w \<noteq> r \<Longrightarrow> ring_dist M r (ring_next M w) = Suc (ring_dist M r w)"
  by (auto simp: ring_defs)

lemma ring_full: "r \<in> {1..M} \<Longrightarrow> w \<in> {1..M} \<Longrightarrow> ring_next M w = r \<longleftrightarrow> length (ring M r w) = M"
  by (auto simp: length_ring ring_defs)

lemma set_ring: "r \<in> {1..M} \<Longrightarrow> w \<in> {1..M} \<Longrightarrow> b \<in> set (ring M r w) \<Longrightarrow> b \<in> {1..M}"
  using ring_dist_less [of r M w] ring_pos_range [of r M] by (auto simp: ring_def less_Suc_eq_le)

lemma ring_snoc:
  assumes "r \<in> {1..M}" "w \<in> {1..M}" "ring_next M w \<noteq> r"
  shows "ring M r (ring_next M w) = ring M r w @ [ring_next M w]"
proof -
  have "ring_next M w \<in> {1..M}" using assms(1) by (intro ring_next_range) auto
  then have "ring_pos M r (Suc (ring_dist M r w)) = ring_next M w"
    using ring_pos_dist [OF assms(1)] ring_dist_next [OF assms] by fastforce
  then show ?thesis by (simp add: ring_def ring_dist_next [OF assms])
qed

lemma ring_next_fresh:
  assumes "r \<in> {1..M}" "w \<in> {1..M}" "ring_next M w \<noteq> r"
  shows "ring_next M w \<notin> set (ring M r w)"
proof
  have d: "ring_dist M r (ring_next M w) = Suc (ring_dist M r w)" and n: "ring_next M w \<in> {1..M}"
    using assms ring_next_range [of M w] by (auto intro: ring_dist_next)
  assume "ring_next M w \<in> set (ring M r w)"
  then obtain i where "i \<le> ring_dist M r w" "ring_next M w = ring_pos M r i"
    by (auto simp: ring_def less_Suc_eq_le simp del: upt_Suc)
  then show False
    using ring_pos_inj [OF assms(1), of i "Suc (ring_dist M r w)"] ring_pos_dist [OF assms(1) n]
      ring_dist_less [OF assms(1) n] d by auto
qed

lemma ring_tl:
  assumes "r \<in> {1..M}" "w \<in> {1..M}" "r \<noteq> w"
  shows "ring M (ring_next M r) w = tl (ring M r w)"
proof (rule nth_equalityI)
  have "Suc (ring_dist M (ring_next M r) w) = ring_dist M r w" using assms by (auto simp: ring_defs)
  then show "length (ring M (ring_next M r) w) = length (tl (ring M r w))" by (simp add: length_ring)
  fix i assume "i < length (ring M (ring_next M r) w)"
  then have "i < ring_dist M r w"
    using \<open>Suc (ring_dist M (ring_next M r) w) = ring_dist M r w\<close> by (simp add: length_ring)
  moreover from this have "i + 1 < M" using ring_dist_less [OF assms(1,2)] by simp
  then have "ring_pos M (ring_next M r) i = ring_pos M r (Suc i)" using assms(1) by (auto simp: ring_defs)
  ultimately show "ring M (ring_next M r) w ! i = tl (ring M r w) ! i"
    using \<open>Suc (ring_dist M (ring_next M r) w) = ring_dist M r w\<close>
    by (simp add: ring_def nth_tl del: upt_Suc)
qed

lemma hd_ring: "r \<in> {1..M} \<Longrightarrow> hd (ring M r w) = r"
  by (simp add: ring_def ring_pos_def upt_conv_Cons del: upt_Suc)

section \<open>Block arithmetic on the ring\<close>

text \<open>A card whose size allows at least one record and fits the addresses of the driver.\<close>

definition card_size_ok :: "('d, 'z) sdst_scheme \<Rightarrow> bool" where
  "card_size_ok s \<longleftrightarrow> 2 \<le> sectors s \<and> sectors s \<le> 0x800000"

lemma card_size_nat: "card_size_ok s \<Longrightarrow> 2 \<le> unat (sectors s) \<and> unat (sectors s) \<le> 0x800000"
  by (simp add: card_size_ok_def word_le_nat_alt)

lemma is_block_valid_iff:
  assumes "card_size_ok s"
  shows "is_block_valid s b \<longleftrightarrow> unat b \<in> {1..<unat (sectors s)}"
proof -
  have n: "2 \<le> unat (sectors s)" "unat (sectors s) \<le> 0x800000" using card_size_nat [OF assms] by simp_all
  have "unat (sectors s - 1) = unat (sectors s) - 1"
    using n by (intro unat_minus_one) auto
  moreover have "unat (ucast b :: u64) = unat b"
    by (simp add: unsigned_ucast_eq take_bit_nat_eq_self less_trans [OF unat_u32_lt])
  ultimately show ?thesis using n
    by (auto simp: is_block_valid_def disk_sectors_def word_less_nat_alt unat_eq_0 Suc_le_eq unat_gt_0)
qed

lemma next_block_ring:
  assumes "card_size_ok s" "unat b < unat (sectors s)"
  shows "unat (next_block s b) = ring_next (unat (sectors s) - 1) (unat b)"
proof -
  have n: "2 \<le> unat (sectors s)" "unat (sectors s) \<le> 0x800000" using card_size_nat [OF assms(1)] by simp_all
  have "unat (b + 1) = unat b + 1"
    using assms(2) n by (subst unat_add_lem [THEN iffD1]) simp_all
  then show ?thesis using assms n
    by (auto simp: next_block_def is_block_valid_iff ring_next_def Let_def)
qed

lemma next_block_valid: "card_size_ok s \<Longrightarrow> is_block_valid s (next_block s b)"
  using card_size_nat [of s] by (auto simp: next_block_def Let_def is_block_valid_iff)

section \<open>The contract of the record store\<close>

text \<open>
  A bounded queue of records. \<open>put\<close> appends a record if there is room, \<open>done'\<close> removes the
  oldest one. The lemma on sequences of operations is the first-in first-out order: no
  accepted record is lost, repeated or moved until the operations that remove the front
  have reached it. \<open>store_run\<close> returns the accepted records and the number of removals.
\<close>

datatype store_op = Put "u8 list" | Done

fun store_run :: "(u8 list \<Rightarrow> 's \<Rightarrow> (u8 \<times> 's) option) \<Rightarrow> ('s \<Rightarrow> 's option) \<Rightarrow> ('s \<Rightarrow> bool) \<Rightarrow>
    store_op list \<Rightarrow> 's \<Rightarrow> (u8 list list \<times> nat \<times> 's) option" where
  "store_run put done' avail [] s = Some ([], 0, s)"
| "store_run put done' avail (Put x # ops) s =
     do { (r, s) \<leftarrow> put x s;
          (acc, k, s) \<leftarrow> store_run put done' avail ops s;
          Some (if r = 1 then x # acc else acc, k, s) }"
| "store_run put done' avail (Done # ops) s =
     (if avail s then
        do { s \<leftarrow> done' s;
             (acc, k, s) \<leftarrow> store_run put done' avail ops s;
             Some (acc, Suc k, s) }
      else store_run put done' avail ops s)"

fun op_record_ok :: "store_op \<Rightarrow> bool" where
  "op_record_ok (Put x) = (length x = MEMORY_RECORD_SIZE)"
| "op_record_ok Done = True"

locale record_queue =
  fixes put :: "u8 list \<Rightarrow> 's \<Rightarrow> (u8 \<times> 's) option" and done' :: "'s \<Rightarrow> 's option" and avail :: "'s \<Rightarrow> bool"
    and ok :: "'s \<Rightarrow> bool" and queue :: "'s \<Rightarrow> u8 list list" and room :: "'s \<Rightarrow> bool"
  assumes queue_put: "ok s \<Longrightarrow> length x = MEMORY_RECORD_SIZE \<Longrightarrow>
      \<exists>s'. put x s = Some (if room s then 1 else 0, s') \<and> ok s' \<and>
           queue s' = (if room s then queue s @ [x] else queue s)"
    and queue_done: "ok s \<Longrightarrow> avail s \<Longrightarrow> \<exists>s'. done' s = Some s' \<and> ok s' \<and> queue s' = tl (queue s)"
    and queue_avail: "ok s \<Longrightarrow> avail s \<Longrightarrow> queue s \<noteq> []"
begin

lemma store_run_fifo:
  "ok s \<Longrightarrow> list_all op_record_ok ops \<Longrightarrow>
   \<exists>acc k s'. store_run put done' avail ops s = Some (acc, k, s') \<and> ok s' \<and>
     k \<le> length (queue s @ acc) \<and> queue s' = drop k (queue s @ acc)"
proof (induction ops arbitrary: s)
  case (Cons x ops)
  show ?case
  proof (cases x)
    case (Put r)
    with Cons.prems queue_put [of s r] obtain s1 where
      1: "put r s = Some (if room s then 1 else 0, s1)" "ok s1" "queue s1 = (if room s then queue s @ [r] else queue s)"
      by auto
    from Cons.IH [OF 1(2)] Cons.prems obtain acc k s' where
      "store_run put done' avail ops s1 = Some (acc, k, s')" "ok s'"
      "k \<le> length (queue s1 @ acc)" "queue s' = drop k (queue s1 @ acc)"
      by auto
    with 1 Put show ?thesis by (cases "room s") (simp_all del: drop_append)
  next
    case Done
    show ?thesis
    proof (cases "avail s")
      case True
      with Cons.prems queue_done [of s] obtain s1 where
        1: "done' s = Some s1" "ok s1" "queue s1 = tl (queue s)" by auto
      have 2: "queue s \<noteq> []" using queue_avail Cons.prems True by simp
      from Cons.IH [OF 1(2)] Cons.prems obtain acc k s' where
        3: "store_run put done' avail ops s1 = Some (acc, k, s')" "ok s'"
        "k \<le> length (queue s1 @ acc)" "queue s' = drop k (queue s1 @ acc)"
        by auto
      have "drop k (tl (queue s) @ acc) = drop (Suc k) (queue s @ acc)"
        using 2 by (cases "queue s") simp_all
      moreover have "Suc k \<le> length (queue s @ acc)" using 2 3(3) 1(3) by (cases "queue s") auto
      ultimately show ?thesis using 1 3 Done True by simp
    next
      case False
      with Done Cons.IH [OF Cons.prems(1)] Cons.prems(2) show ?thesis by simp
    qed
  qed
qed simp

end

section \<open>The ring refines the queue\<close>

definition mem_ok :: "('d \<Rightarrow> bool) \<Rightarrow> nat \<Rightarrow> ('d, 'z) memst_scheme \<Rightarrow> bool" where
  "mem_ok ready capacity s \<longleftrightarrow>
     ready (hwst s) \<and> card_size_ok s \<and> unat (sectors s) \<le> capacity \<and> length (mem_buf s) = 6 \<and>
     is_block_valid s (read_index (memory_indexes s)) \<and> is_block_valid s (write_index (memory_indexes s))"

definition mem_ring :: "('d, 'z) memst_scheme \<Rightarrow> nat list" where
  "mem_ring s = ring (unat (sectors s) - 1) (unat (read_index (memory_indexes s))) (unat (write_index (memory_indexes s)))"

definition mem_queue :: "('d \<Rightarrow> nat \<Rightarrow> u8 list) \<Rightarrow> ('d, 'z) memst_scheme \<Rightarrow> u8 list list" where
  "mem_queue blocks s = map (\<lambda>b. take MEMORY_RECORD_SIZE (blocks (hwst s) b)) (mem_ring s)"

text \<open>The record that a block holds; \<open>None\<close> when its checksum is wrong.\<close>

definition record_at :: "(nat \<Rightarrow> u8 list) \<Rightarrow> nat \<Rightarrow> u32 list option" where
  "record_at bl b =
     (let r = take MEMORY_RECORD_SIZE (bl b)
      in if evaluate_checksum r = CHECKSUM_FAIL then None else Some (words_of_bytes r))"

definition mem_room :: "('d, 'z) memst_scheme \<Rightarrow> bool" where
  "mem_room s \<longleftrightarrow> length (mem_ring s) < unat (sectors s) - 1"

definition mem_avail :: "('d, 'z) memst_scheme \<Rightarrow> bool" where
  "mem_avail s \<longleftrightarrow> read_index (memory_indexes s) \<noteq> write_index (memory_indexes s)"

lemma mem_ok_ring:
  assumes "mem_ok ready capacity s"
  shows "unat (read_index (memory_indexes s)) \<in> {1..unat (sectors s) - 1}"
    and "unat (write_index (memory_indexes s)) \<in> {1..unat (sectors s) - 1}"
    and "0 \<notin> set (mem_ring s)"
    and "unat (next_block s (write_index (memory_indexes s))) =
           ring_next (unat (sectors s) - 1) (unat (write_index (memory_indexes s)))"
    and "unat (next_block s (read_index (memory_indexes s))) =
           ring_next (unat (sectors s) - 1) (unat (read_index (memory_indexes s)))"
    and "mem_room s \<longleftrightarrow> next_block s (write_index (memory_indexes s)) \<noteq> read_index (memory_indexes s)"
proof -
  have size: "card_size_ok s" using assms by (simp add: mem_ok_def)
  show r: "unat (read_index (memory_indexes s)) \<in> {1..unat (sectors s) - 1}"
    and w: "unat (write_index (memory_indexes s)) \<in> {1..unat (sectors s) - 1}"
    using assms is_block_valid_iff [OF size] by (auto simp: mem_ok_def)
  show "0 \<notin> set (mem_ring s)" using set_ring [OF r w, of 0] by (auto simp: mem_ring_def)
  show n: "unat (next_block s (write_index (memory_indexes s))) =
           ring_next (unat (sectors s) - 1) (unat (write_index (memory_indexes s)))"
    and "unat (next_block s (read_index (memory_indexes s))) =
           ring_next (unat (sectors s) - 1) (unat (read_index (memory_indexes s)))"
    using next_block_ring [OF size] r w by fastforce+
  show "mem_room s \<longleftrightarrow> next_block s (write_index (memory_indexes s)) \<noteq> read_index (memory_indexes s)"
    using ring_full [OF r w] n ring_dist_less [OF r w]
    by (auto simp: mem_room_def mem_ring_def length_ring word_unat_eq_iff)
qed

lemma index_words_length [simp]: "length (index_words ix) = 8"
  by (simp add: index_words_def)

lemma index_words_match: "indexes_match (index_words ix)"
  by (simp add: indexes_match_def index_words_def)

lemma index_words_nth: "index_words ix ! 0 = read_index ix" "index_words ix ! 1 = write_index ix"
  by (simp_all add: index_words_def)

context sd_disk
begin

lemma put_memory_indexes_ok:
  assumes "ready (hwst s)" "0 < capacity"
  shows "\<exists>d. put_memory_indexes m ix s = Some (1, s\<lparr>indexes_buf := bytes_of_words (index_words ix), hwst := d\<rparr>) \<and>
     ready d \<and> blocks d = (blocks (hwst s))(0 := bytes_of_words (index_words ix) @ replicate 480 0xFF)"
  using disk_write_block [OF assms, of 32 "bytes_of_words (index_words ix)"]
  by (auto simp: put_memory_indexes_def INDEXES_LEN_def Let_def)

lemma get_memory_indexes_ok:
  assumes "ready (hwst s)" "0 < capacity" "length (indexes_buf s) = 32"
    and "take 32 (blocks (hwst s) 0) = bytes_of_words (index_words ix)"
  shows "\<exists>d. get_memory_indexes m s = Some (1, ix, s\<lparr>hwst := d, indexes_buf := bytes_of_words (index_words ix)\<rparr>) \<and>
     ready d \<and> blocks d = blocks (hwst s)"
  using disk_read_block [OF assms(1,2), of 32 "indexes_buf s"] assms(3,4)
  by (auto simp: get_memory_indexes_def INDEXES_LEN_def Let_def index_words_match index_words_nth [simplified])

lemma mem_queue_put:
  assumes "mem_ok ready capacity s" "mem_room s" "length block = MEMORY_RECORD_SIZE"
    and "next = next_block s (write_index (memory_indexes s))"
    and "\<forall>b. b \<noteq> 0 \<longrightarrow> bl b = ((blocks (hwst s))(unat next := block @ pad)) b" "blocks (hwst s') = bl"
    and "memory_indexes s' = (memory_indexes s)\<lparr>write_index := next\<rparr>" "sectors s' = sectors s"
  shows "mem_queue blocks s' = mem_queue blocks s @ [block]"
proof -
  note r = mem_ok_ring [OF assms(1)]
  have ne: "ring_next (unat (sectors s) - 1) (unat (write_index (memory_indexes s))) \<noteq> unat (read_index (memory_indexes s))"
    using r(4,6) assms(2) by (auto simp: word_unat_eq_iff)
  have n: "unat next = ring_next (unat (sectors s) - 1) (unat (write_index (memory_indexes s)))"
    using r(4) assms(4) by simp
  then have "mem_ring s' = mem_ring s @ [unat next]"
    using ring_snoc [OF r(1,2) ne] assms(7,8) by (simp add: mem_ring_def)
  moreover have "unat next \<notin> set (mem_ring s)"
    using ring_next_fresh [OF r(1,2) ne] n by (simp add: mem_ring_def)
  moreover have "unat next \<noteq> 0"
    by (simp add: n ring_next_def)
  moreover have "b \<in> set (mem_ring s) \<Longrightarrow> b \<noteq> 0" for b using r(3) by metis
  ultimately show ?thesis using assms(3,5,6) by (auto simp: mem_queue_def)
qed

lemma put_sample_queue:
  assumes "mem_ok ready capacity s" "length block = MEMORY_RECORD_SIZE"
  shows "\<exists>s'. put_sample m block s = Some (if mem_room s then 1 else 0, s') \<and> mem_ok ready capacity s' \<and>
     mem_queue blocks s' = (if mem_room s then mem_queue blocks s @ [block] else mem_queue blocks s)"
proof (cases "mem_room s")
  case False
  then show ?thesis using assms mem_ok_ring(6) [OF assms(1)] by (simp add: put_sample_def Let_def)
next
  case True
  define n where "n = next_block s (write_index (memory_indexes s))"
  note ok = assms(1) [unfolded mem_ok_def]
  have valid: "is_block_valid s n" using ok next_block_valid n_def by blast
  then have "unat n < capacity" using ok is_block_valid_iff [of s n] by auto
  from disk_write_block [OF _ this, of "hwst s" MEMORY_RECORD_SIZE block] ok assms(2) obtain d1 where
    1: "disk_write m block MEMORY_RECORD_SIZE (ucast n) (hwst s) = Some (0, d1)" "ready d1"
      "blocks d1 = (blocks (hwst s))(unat n := block @ replicate (512 - MEMORY_RECORD_SIZE) 0xFF)"
    by (auto simp: MEMORY_RECORD_SIZE_def)
  obtain tc d2 where 2: "rd m (TIM_TC 3) d1 = (tc, d2)" by fastforce
  with disk_timer_read 1 have 3: "ready d2" "blocks d2 = blocks d1" by blast+
  let ?s = "s\<lparr>memory_indexes := (memory_indexes s)\<lparr>write_index := n\<rparr>, hwst := d2, last_write_time := tc\<rparr>"
  have cap: "0 < capacity" using \<open>unat n < capacity\<close> by simp
  obtain d4 where 4: "put_memory_indexes m (memory_indexes ?s) ?s =
      Some (1, ?s\<lparr>indexes_buf := bytes_of_words (index_words (memory_indexes ?s)), hwst := d4\<rparr>)" "ready d4"
      "blocks d4 = (blocks d2)(0 := bytes_of_words (index_words (memory_indexes ?s)) @ replicate 480 0xFF)"
    using put_memory_indexes_ok [of ?s "memory_indexes ?s"] 3 cap by auto
  have ok': "mem_ok ready capacity t"
    if "ready (hwst t)" "sectors t = sectors s" "mem_buf t = mem_buf s" "memory_indexes t = memory_indexes ?s"
    for t :: "('d, 'c) memst_scheme"
    using ok valid that by (simp add: mem_ok_def is_block_valid_def card_size_ok_def disk_sectors_def)
  have q: "mem_queue blocks t = mem_queue blocks s @ [block]"
    if "\<forall>b. b \<noteq> 0 \<longrightarrow> blocks (hwst t) b = blocks d1 b" "sectors t = sectors s" "memory_indexes t = memory_indexes ?s"
    for t :: "('d, 'c) memst_scheme"
    by (rule mem_queue_put [OF assms(1) True assms(2) n_def,
          of "blocks (hwst t)" "replicate (512 - MEMORY_RECORD_SIZE) 0xFF"]) (use that 1(3) in simp_all)
  have next': "n \<noteq> read_index (memory_indexes s)" using True mem_ok_ring(6) [OF assms(1)] n_def by simp
  show ?thesis
  proof (cases "n AND 7 = 0")
    case aligned: True
    let ?t = "?s\<lparr>indexes_buf := bytes_of_words (index_words (memory_indexes ?s)), hwst := d4\<rparr>"
    have "put_sample m block s = Some (1, ?t)"
      using aligned next' 1(1) 2 4(1) by (simp add: put_sample_def Let_def n_def [symmetric])
    moreover have "mem_ok ready capacity ?t" "mem_queue blocks ?t = mem_queue blocks s @ [block]"
      using 4(2,3) 3(2) by (auto intro!: ok' q)
    ultimately show ?thesis using True by auto
  next
    case False
    have "put_sample m block s = Some (1, ?s)"
      using False next' 1(1) 2 by (simp add: put_sample_def Let_def n_def [symmetric])
    moreover have "mem_ok ready capacity ?s" "mem_queue blocks ?s = mem_queue blocks s @ [block]"
      using 3 by (auto intro!: ok' q)
    ultimately show ?thesis using True by auto
  qed
qed

lemma good_upload_done_queue:
  assumes "mem_ok ready capacity s" "mem_avail s"
  shows "\<exists>s'. good_upload_done m s = Some s' \<and> mem_ok ready capacity s' \<and>
     mem_queue blocks s' = tl (mem_queue blocks s)"
proof -
  note r = mem_ok_ring [OF assms(1)] and ok = assms(1) [unfolded mem_ok_def]
  define n where "n = next_block s (read_index (memory_indexes s))"
  have valid: "is_block_valid s n" using ok next_block_valid n_def by blast
  let ?s = "s\<lparr>memory_indexes := (memory_indexes s)\<lparr>read_index := n\<rparr>\<rparr>"
  have cap: "0 < capacity" using ok card_size_nat [of s] by simp
  obtain d4 where 4: "put_memory_indexes m (memory_indexes ?s) ?s =
      Some (1, ?s\<lparr>indexes_buf := bytes_of_words (index_words (memory_indexes ?s)), hwst := d4\<rparr>)" "ready d4"
      "blocks d4 = (blocks (hwst s))(0 := bytes_of_words (index_words (memory_indexes ?s)) @ replicate 480 0xFF)"
    using put_memory_indexes_ok [of ?s "memory_indexes ?s"] cap ok by auto
  have ok': "mem_ok ready capacity (?s\<lparr>indexes_buf := ib, hwst := d\<rparr>)" if "ready d" for d ib
    using ok valid that by (simp add: mem_ok_def is_block_valid_def card_size_ok_def disk_sectors_def)
  have ring: "mem_ring (?s\<lparr>indexes_buf := ib, hwst := d\<rparr>) = tl (mem_ring s)" for ib d
    using ring_tl [OF r(1,2)] assms(2) r(5) n_def by (simp add: mem_ring_def mem_avail_def word_unat_eq_iff)
  have q: "mem_queue blocks (?s\<lparr>indexes_buf := ib, hwst := d\<rparr>) = tl (mem_queue blocks s)"
    if "\<forall>b. b \<noteq> 0 \<longrightarrow> blocks d b = blocks (hwst s) b" for d ib
  proof -
    have "b \<in> set (tl (mem_ring s)) \<Longrightarrow> b \<noteq> 0" for b using r(3) list.set_sel(2) by (metis tl_Nil)
    then show ?thesis using that by (simp add: mem_queue_def ring flip: map_tl)
  qed
  have same: "?s\<lparr>indexes_buf := indexes_buf s, hwst := hwst s\<rparr> = ?s" by simp
  show ?thesis
  proof (cases "n AND 7 = 0")
    case True
    then show ?thesis using 4 ok' [of d4] q [of d4]
      by (simp add: good_upload_done_def Let_def n_def [symmetric])
  next
    case False
    then show ?thesis using ok ok' [of "hwst s" "indexes_buf s"] q [of "hwst s" "indexes_buf s"]
      by (simp add: good_upload_done_def Let_def n_def [symmetric] same)
  qed
qed

lemma get_sample_effect:
  assumes "mem_ok ready capacity s" "unat index < capacity"
  shows "\<exists>d b. get_sample m index s = Some (record_at (blocks (hwst s)) (unat index), s\<lparr>hwst := d, mem_buf := b\<rparr>) \<and>
     ready d \<and> blocks d = blocks (hwst s) \<and> length b = 6"
proof -
  note ok = assms(1) [unfolded mem_ok_def]
  let ?r = "take MEMORY_RECORD_SIZE (blocks (hwst s) (unat index))"
  from disk_read_block [OF _ assms(2), of "hwst s" MEMORY_RECORD_SIZE "bytes_of_words (mem_buf s)"] ok obtain d where
    1: "disk_read m (bytes_of_words (mem_buf s)) MEMORY_RECORD_SIZE (ucast index) (hwst s) = Some (0, ?r, d)"
      "ready d" "blocks d = blocks (hwst s)"
    by (auto simp: MEMORY_RECORD_SIZE_def)
  have len: "length ?r = 24" using disk_block_len ok by (simp add: MEMORY_RECORD_SIZE_def)
  then have "bytes_of_words (words_of_bytes ?r) = ?r" "length (words_of_bytes ?r) = 6"
    by (simp_all add: bytes_of_words_of_bytes)
  with 1 show ?thesis
    by (intro exI [of _ d] exI [of _ "words_of_bytes ?r"]) (simp add: get_sample_def record_at_def Let_def)
qed

lemma get_sample_read:
  assumes "mem_ok ready capacity s" "unat index < capacity"
  shows "\<exists>s'. get_sample m index s = Some (record_at (blocks (hwst s)) (unat index), s') \<and>
     mem_ok ready capacity s' \<and> mem_queue blocks s' = mem_queue blocks s"
  using get_sample_effect [OF assms] assms(1)
  by (auto simp: mem_ok_def is_block_valid_def card_size_ok_def disk_sectors_def mem_queue_def mem_ring_def)

lemma mem_queue_avail: "mem_queue blocks s \<noteq> []"
  by (simp add: mem_queue_def mem_ring_def ring_def)

end

sublocale sd_disk \<subseteq> rq: record_queue "put_sample m" "good_upload_done m" mem_avail "mem_ok ready capacity"
    "mem_queue blocks" mem_room
  by unfold_locales (rule put_sample_queue good_upload_done_queue mem_queue_avail; assumption)+

section \<open>Properties\<close>

definition sample_store :: "rcard memst" where
  "sample_store = \<lparr>hwst = blank_card, sectors = 8, cdv = 512, indexes_buf = replicate 32 0,
     mem_buf = replicate 6 0, memory_indexes = \<lparr>write_index = 1, read_index = 1\<rparr>, last_write_time = 0\<rparr>"

lemma sample_store_ok: "mem_ok card_ready 0x800000 sample_store"
  by (simp add: mem_ok_def sample_store_def card_size_ok_def is_block_valid_def disk_sectors_def
      card_ready_def blank_card_def)

context sd_card
begin

lemma card_disk: "sd_disk m ready blocks capacity"
  by unfold_locales

lemma card_queue:
  "record_queue (put_sample m) (good_upload_done m) mem_avail (mem_ok ready capacity) (mem_queue blocks) mem_room"
  by unfold_locales

end



lemma last_mem_ring:
  assumes "mem_ok ready capacity s"
  shows "last (mem_ring s) = unat (write_index (memory_indexes s))"
  using ring_pos_dist [OF mem_ok_ring(1,2) [OF assms]] by (simp add: mem_ring_def ring_def)

text \<open>
  A stored sample is readable. When there is room, \<open>put_sample\<close> of a record with a valid
  checksum is accepted, and \<open>get_sample\<close> of the block at the new write index returns its six
  words.
\<close>

theorem put_get_sample:
  assumes "sd_card m exch ready blocks capacity" and "mem_ok ready capacity s" and "mem_room s"
    and "length block = MEMORY_RECORD_SIZE" and "evaluate_checksum block \<noteq> CHECKSUM_FAIL"
  shows "\<exists>s' s''. put_sample m block s = Some (1, s') \<and>
     get_sample m (write_index (memory_indexes s')) s' = Some (Some (words_of_bytes block), s'')"
proof -
  note disk = sd_card.card_disk [OF assms(1)]
  from sd_disk.put_sample_queue [OF disk assms(2,4)] assms(3) obtain s' where
    p: "put_sample m block s = Some (1, s')" "mem_ok ready capacity s'" "mem_queue blocks s' = mem_queue blocks s @ [block]"
    by auto
  have "take MEMORY_RECORD_SIZE (blocks (hwst s') (unat (write_index (memory_indexes s')))) = last (mem_queue blocks s')"
    using last_mem_ring [OF p(2)] by (simp add: mem_queue_def last_map mem_ring_def ring_def)
  also have "\<dots> = block" using p(3) by simp
  finally have b: "take MEMORY_RECORD_SIZE (blocks (hwst s') (unat (write_index (memory_indexes s')))) = block" .
  have "unat (write_index (memory_indexes s')) < capacity"
    using p(2) is_block_valid_iff [of s' "write_index (memory_indexes s')"] by (auto simp: mem_ok_def)
  from sd_disk.get_sample_read [OF disk p(2) this] b assms(5) p(1) show ?thesis by (auto simp: record_at_def Let_def)
qed

theorem put_get_sample_witness:
  "\<exists>s' s''. put_sample card_mmio sample_record sample_store = Some (1, s') \<and>
     get_sample card_mmio (write_index (memory_indexes s')) s' = Some (Some (words_of_bytes sample_record), s'')"
proof (rule put_get_sample [OF rc.sd_card_axioms sample_store_ok])
  show "mem_room sample_store" by (simp add: mem_room_def sample_store_def mem_ring_def ring_def ring_dist_def)
  show "length sample_record = MEMORY_RECORD_SIZE" by (simp add: sample_record_def MEMORY_RECORD_SIZE_def)
  show "evaluate_checksum sample_record \<noteq> CHECKSUM_FAIL"
    by (simp add: sample_record_passes) (simp add: CHECKSUM_PASS_def CHECKSUM_FAIL_def)
qed

text \<open>
  A full store refuses (C37). \<open>put_sample\<close> answers 0 exactly when all data blocks of the card are
  between the read and the write index, and then it touches neither the card nor the indexes.
\<close>

theorem put_sample_full:
  assumes "mem_ok ready capacity s"
  shows "put_sample m block s = Some (0, s) \<longleftrightarrow>
           length (mem_ring s) = unat (sectors s) - 1"
proof -
  have "length (mem_ring s) \<le> unat (sectors s) - 1"
    using ring_dist_less [OF mem_ok_ring(1,2) [OF assms]] by (simp add: mem_ring_def length_ring)
  then have "length (mem_ring s) = unat (sectors s) - 1 \<longleftrightarrow> \<not> mem_room s" by (auto simp: mem_room_def)
  moreover have "put_sample m block s = Some (0, s) \<longleftrightarrow> \<not> mem_room s"
  proof (cases "mem_room s")
    case True
    then have "fst r \<noteq> 0" if "put_sample m block s = Some r" for r
      using that mem_ok_ring(6) [OF assms]
      by (auto simp: put_sample_def Let_def split: bind_splits prod.splits if_splits)
    with True show ?thesis by force
  qed (use mem_ok_ring(6) [OF assms] in \<open>simp add: put_sample_def Let_def\<close>)
  ultimately show ?thesis by simp
qed

definition full_store :: "rcard memst" where
  "full_store = sample_store\<lparr>memory_indexes := \<lparr>write_index = 7, read_index = 1\<rparr>\<rparr>"

theorem put_sample_full_witness: "put_sample card_mmio sample_record full_store = Some (0, full_store)"
  using put_sample_full [of card_ready "0x800000" full_store card_mmio sample_record]
  by (simp add: full_store_def sample_store_def mem_ok_def card_size_ok_def is_block_valid_def disk_sectors_def
      card_ready_def blank_card_def mem_ring_def ring_def ring_dist_def)

text \<open>
  The indexes survive on the card (C25). After \<open>put_memory_indexes\<close> on a card that meets its
  contract, \<open>get_memory_indexes\<close> recognises block 0 as intact and returns the same pair, and
  the write changed no data block.
\<close>

theorem memory_indexes_roundtrip:
  assumes "sd_card m exch ready blocks capacity" and "ready (hwst s)" and "0 < capacity"
  shows "\<exists>s' s''. put_memory_indexes m ix s = Some (1, s') \<and>
     get_memory_indexes m s' = Some (1, ix, s'') \<and> ready (hwst s'') \<and>
     (\<forall>b. b \<noteq> 0 \<longrightarrow> blocks (hwst s'') b = blocks (hwst s) b)"
proof -
  note disk = sd_card.card_disk [OF assms(1)]
  from sd_disk.put_memory_indexes_ok [OF disk assms(2,3), of ix] obtain d where
    p: "put_memory_indexes m ix s = Some (1, s\<lparr>indexes_buf := bytes_of_words (index_words ix), hwst := d\<rparr>)" "ready d"
      "blocks d = (blocks (hwst s))(0 := bytes_of_words (index_words ix) @ replicate 480 0xFF)"
    by auto
  from sd_disk.get_memory_indexes_ok [OF disk _ assms(3), of "s\<lparr>indexes_buf := bytes_of_words (index_words ix), hwst := d\<rparr>" ix] p
  show ?thesis by auto
qed

theorem memory_indexes_roundtrip_witness:
  "\<exists>s' s''. put_memory_indexes card_mmio \<lparr>write_index = 5, read_index = 3\<rparr> sample_store = Some (1, s') \<and>
     get_memory_indexes card_mmio s' = Some (1, \<lparr>write_index = 5, read_index = 3\<rparr>, s'')"
  using memory_indexes_roundtrip [OF rc.sd_card_axioms, of sample_store "\<lparr>write_index = 5, read_index = 3\<rparr>"]
  by (auto simp: sample_store_def blank_card_def card_ready_def)

lemma sint_diff:
  assumes "unat (a :: u32) \<le> 0x7FFFFFFF" "unat (b :: u32) \<le> 0x7FFFFFFF"
  shows "sint (a - b) = int (unat a) - int (unat b)"
proof -
  have ab: "a - b = of_int (int (unat a) - int (unat b))" by simp
  have of_int: "sint (of_int k :: u32) = signed_take_bit 31 k" for k by (simp add: signed_of_int)
  have k: "- 2147483648 \<le> int (unat a) - int (unat b)" "int (unat a) - int (unat b) < 2147483648"
    using assms by linarith+
  show ?thesis unfolding ab of_int by (rule signed_take_bit_int_eq_self) (use k in simp_all)
qed

lemma blocks_to_read_ring:
  assumes "mem_ok ready capacity s"
  shows "fst (get_blocks_to_read m s) =
    (if write_index (memory_indexes s) < read_index (memory_indexes s) \<or>
        fst (rd m (TIM_TC 3) (hwst s)) - last_write_time s < 3 then 0
     else of_nat (min 1000 (length (mem_ring s) - 1)))"
proof -
  let ?r = "read_index (memory_indexes s)" and ?w = "write_index (memory_indexes s)"
  have "unat (sectors s) \<le> 0x800000" using assms card_size_nat by (auto simp: mem_ok_def)
  then have b: "unat ?r \<le> 0x7FFFFFFF" "unat ?w \<le> 0x7FFFFFFF" using mem_ok_ring(1,2) [OF assms] by auto
  have neg: "sint (?w - ?r) < 0 \<longleftrightarrow> ?w < ?r" and lt: "sint (?w - ?r) < 1000 \<longleftrightarrow> unat ?w < unat ?r + 1000"
    unfolding sint_diff [OF b(2,1)] word_less_nat_alt by linarith+
  show ?thesis
  proof (cases "?w < ?r")
    case True
    then show ?thesis by (simp add: get_blocks_to_read_def Let_def neg)
  next
    case False
    then have "unat (?w - ?r) = unat ?w - unat ?r" by (simp add: unat_sub word_le_nat_alt word_less_nat_alt)
    then have "(ucast (?w - ?r) :: u16) = of_nat (unat ?w - unat ?r)"
      by (simp only: word_unat_eq_iff unsigned_ucast_eq unsigned_of_nat of_nat_id)
    moreover have "length (mem_ring s) - 1 = unat ?w - unat ?r"
      using False by (simp add: mem_ring_def length_ring ring_dist_def word_less_nat_alt)
    ultimately show ?thesis using False
      by (auto simp: get_blocks_to_read_def Let_def neg lt min_def case_prod_beta)
  qed
qed

text \<open>
  Readable blocks (C38). While the write index has not wrapped past the read index and the last
  write is at least three seconds old, \<open>get_blocks_to_read\<close> returns the number of blocks from
  the read index up to, but not including, the one at the write index, capped at 1000;
  within three seconds of a write it returns 0. In every case the blocks handed out are
  blocks of the ring.
\<close>

theorem get_blocks_to_read_window:
  assumes "mem_ok ready capacity s" and "read_index (memory_indexes s) \<le> write_index (memory_indexes s)"
  shows "unat (fst (get_blocks_to_read m s)) =
    (if fst (rd m (TIM_TC 3) (hwst s)) - last_write_time s < 3 then 0
     else min 1000 (unat (write_index (memory_indexes s)) - unat (read_index (memory_indexes s))))"
  using assms blocks_to_read_ring [OF assms(1), of m]
  by (simp add: mem_ring_def length_ring ring_dist_def word_le_nat_alt linorder_not_less [symmetric] min_def unsigned_of_nat
      take_bit_nat_eq_self word_less_nat_alt)

theorem get_blocks_to_read_window_witness:
  "unat (fst (get_blocks_to_read card_mmio
     (full_store\<lparr>hwst := blank_card\<lparr>tcount := 10\<rparr>\<rparr>))) = 6"
  using get_blocks_to_read_window [of card_ready "0x800000" "full_store\<lparr>hwst := blank_card\<lparr>tcount := 10\<rparr>\<rparr>" card_mmio]
  by (simp add: full_store_def sample_store_def mem_ok_def card_size_ok_def is_block_valid_def disk_sectors_def
      card_ready_def blank_card_def card_mmio_def card_rd_def)

lemma put_sample_wrapped:
  assumes "mem_ok ready capacity s" "write_index (memory_indexes s) < read_index (memory_indexes s)"
    and "put_sample m block s = Some (r, s')"
  shows "write_index (memory_indexes s') < read_index (memory_indexes s')"
proof -
  let ?w = "write_index (memory_indexes s)" and ?r = "read_index (memory_indexes s)"
  have ix: "memory_indexes s' = memory_indexes s \<or>
      next_block s ?w \<noteq> ?r \<and> memory_indexes s' = (memory_indexes s)\<lparr>write_index := next_block s ?w\<rparr>"
    using assms(3)
    by (auto simp: put_sample_def put_memory_indexes_def Let_def split: bind_splits prod.splits if_splits)
  have "ring_next (unat (sectors s) - 1) (unat ?w) = unat ?w + 1"
    using mem_ok_ring(1) [OF assms(1)] assms(2) by (auto simp: ring_next_def word_less_nat_alt)
  then have "next_block s ?w \<noteq> ?r \<Longrightarrow> next_block s ?w < ?r"
    using mem_ok_ring(4) [OF assms(1)] assms(2) by (auto simp: word_less_nat_alt word_unat_eq_iff)
  with ix assms(2) show ?thesis by auto
qed

text \<open>
  Uploads stop when the ring wraps (C39). Once the write index is below the read index,
  \<open>get_blocks_to_read\<close> returns 0, and this stays so after any sequence of \<open>put_sample\<close> calls,
  whatever the timer reads: only an upload moves the read index, so the store fills up and
  no block becomes readable again.
\<close>

theorem wrapped_never_readable:
  assumes "sd_card m exch ready blocks capacity" and "mem_ok ready capacity s"
    and "write_index (memory_indexes s) < read_index (memory_indexes s)"
    and "list_all (\<lambda>op. op \<noteq> Done \<and> op_record_ok op) ops"
  shows "\<exists>acc k s'. store_run (put_sample m) (good_upload_done m) mem_avail ops s = Some (acc, k, s') \<and>
     (\<forall>m'. fst (get_blocks_to_read m' s') = 0)"
  using assms(2-)
proof (induction ops arbitrary: s)
  case Nil
  then show ?case using blocks_to_read_ring [OF Nil(1)] by simp
next
  case (Cons op ops)
  then obtain x where op: "op = Put x" "length x = MEMORY_RECORD_SIZE" by (cases op) auto
  from sd_disk.put_sample_queue [OF sd_card.card_disk [OF assms(1)] Cons.prems(1) op(2)] obtain r s1 where
    1: "put_sample m x s = Some (r, s1)" "mem_ok ready capacity s1" by auto
  from Cons.IH [OF 1(2) put_sample_wrapped [OF Cons.prems(1,2) 1(1)]] Cons.prems(3) obtain acc k s' where
    "store_run (put_sample m) (good_upload_done m) mem_avail ops s1 = Some (acc, k, s')"
    "\<forall>m'. fst (get_blocks_to_read m' s') = 0"
    by auto
  with 1(1) op(1) show ?case by simp
qed

theorem wrapped_never_readable_witness:
  "\<exists>acc k s'. store_run (put_sample card_mmio) (good_upload_done card_mmio) mem_avail [Put sample_record]
       (sample_store\<lparr>memory_indexes := \<lparr>write_index = 2, read_index = 5\<rparr>\<rparr>) = Some (acc, k, s') \<and>
     (\<forall>m' :: rcard mmio. fst (get_blocks_to_read m' s') = 0)"
  by (rule wrapped_never_readable [OF rc.sd_card_axioms])
    (simp_all add: sample_store_def mem_ok_def card_size_ok_def is_block_valid_def disk_sectors_def
      card_ready_def blank_card_def sample_record_def MEMORY_RECORD_SIZE_def)

text \<open>
  Block addressing. On a card of 2 to 0x800000 sectors \<open>next_block\<close> is a cycle through all
  data blocks: its result is always valid, whatever the argument, and from any valid block
  repeated application reaches every other within one turn.
\<close>

theorem next_block_cycle:
  assumes "card_size_ok s"
  shows "is_block_valid s (next_block s b) \<and>
    (is_block_valid s b \<longrightarrow> is_block_valid s c \<longrightarrow>
       (\<exists>k < unat (sectors s) - 1. (next_block s ^^ k) b = c))"
proof (intro conjI impI)
  let ?M = "unat (sectors s) - 1"
  assume bc: "is_block_valid s b" "is_block_valid s c"
  then have r: "unat b \<in> {1..?M}" "unat c \<in> {1..?M}" using is_block_valid_iff [OF assms] by auto
  have pos: "i < ?M \<Longrightarrow> unat ((next_block s ^^ i) b) = ring_pos ?M (unat b) i" for i
  proof (induction i)
    case (Suc i)
    then have "ring_pos ?M (unat b) i \<in> {1..?M}" using ring_pos_range [OF r(1)] by simp
    then have "unat ((next_block s ^^ Suc i) b) = ring_next ?M (ring_pos ?M (unat b) i)"
      using Suc next_block_ring [OF assms, of "(next_block s ^^ i) b"] by auto
    also have "\<dots> = ring_pos ?M (unat b) (Suc i)" using r(1) Suc.prems by (auto simp: ring_defs)
    finally show ?case .
  qed (use r(1) in \<open>simp add: ring_pos_def\<close>)
  from pos [OF ring_dist_less [OF r]] ring_pos_dist [OF r] ring_dist_less [OF r]
  show "\<exists>k < ?M. (next_block s ^^ k) b = c" by (auto simp: word_unat_eq_iff)
qed (rule next_block_valid [OF assms])

theorem next_block_cycle_witness:
  "is_block_valid sample_store (next_block sample_store 7) \<and>
     (\<exists>k < 7. (next_block sample_store ^^ k) 5 = 3)"
  using next_block_cycle [of sample_store 7] next_block_cycle [of sample_store 5 3]
  by (simp add: sample_store_def card_size_ok_def is_block_valid_def disk_sectors_def)

end
