(* ===== verification/Gw_Time.thy ===== *)
theory Gw_Time
  imports Memory_Queue
begin

text \<open>
  The gateway's clock, \<open>src/src/sntp/time.c\<close>: a 64-bit count of seconds whose low word is the
  counter of hardware timer 3 and whose high word is advanced when the counter is seen to
  have wrapped.
\<close>

section \<open>Globals and 64-bit time\<close>

record 'd timest = "'d memst" +
  current_time :: u64
  time_valid :: u8

text \<open>The two words of a 64-bit value behind the code's pointer casts.\<close>

definition word_lo :: "u64 \<Rightarrow> u32" where "word_lo t = ucast t"
definition word_hi :: "u64 \<Rightarrow> u32" where "word_hi t = ucast (drop_bit 32 t)"

definition word_pair :: "u32 \<Rightarrow> u32 \<Rightarrow> u64" where
  "word_pair lo hi = push_bit 32 (ucast hi) OR ucast lo"

lemma word_pair_lo [simp]: "word_lo (word_pair lo hi) = lo"
  unfolding word_lo_def word_pair_def by (rule bit_word_eqI) (auto simp: bit_simps)

lemma word_pair_hi [simp]: "word_hi (word_pair lo hi) = hi"
  unfolding word_hi_def word_pair_def
  by (rule bit_word_eqI) (auto simp: bit_simps dest: bit_imp_le_length)

lemma word_pair_nat: "unat (word_pair lo hi) = unat hi * 2 ^ 32 + unat lo"
proof -
  have "push_bit 32 (ucast hi :: u64) AND ucast lo = 0"
    by (rule bit_word_eqI) (auto simp: bit_simps dest: bit_imp_le_length)
  then have "word_pair lo hi = push_bit 32 (ucast hi) + ucast lo"
    by (simp add: word_pair_def disjunctive_add_eq_or)
  also have "\<dots> = of_nat (unat hi * 2 ^ 32 + unat lo)"
    by (simp add: push_bit_eq_mult)
  also have "unat (of_nat (unat hi * 2 ^ 32 + unat lo) :: u64) = unat hi * 2 ^ 32 + unat lo"
  proof -
    have "unat hi * 4294967296 + unat lo < 18446744073709551616"
      using unat_u32_lt [of hi] unat_u32_lt [of lo] by linarith
    then show ?thesis by (intro unat_of_nat_small) simp
  qed
  finally show ?thesis .
qed

section \<open>Operations\<close>

definition get_last_recorded_time :: u64 where "get_last_recorded_time = 0"

definition set_last_recorded_time :: "u64 \<Rightarrow> 's \<Rightarrow> 's" where "set_last_recorded_time t s = s"

definition ntp_set_current_time ::
  "'d mmio \<Rightarrow> u32 \<Rightarrow> u32 \<Rightarrow> ('d, 'z) timest_scheme \<Rightarrow> ('d, 'z) timest_scheme" where
  "ntp_set_current_time m secs us s =
     (let lr = get_last_recorded_time;
          hi = (if secs < word_lo lr then word_hi lr + 1 else word_hi lr);
          s = s\<lparr>current_time := word_pair secs hi\<rparr>;
          s = s\<lparr>hwst := wr m (TIM_TC 3) secs (wr m (TIM_PC 3) (25 * us) (hwst s))\<rparr>;
          s = s\<lparr>time_valid := 1\<rparr>
      in set_last_recorded_time (current_time s) s)"

definition get_current_time ::
  "'d mmio \<Rightarrow> ('d, 'z) timest_scheme \<Rightarrow> u64 \<times> ('d, 'z) timest_scheme" where
  "get_current_time m s =
     (case rd m (TIM_TC 3) (hwst s) of (timer_val, d) \<Rightarrow>
        (let hi = word_hi (current_time s);
             hi = (if timer_val < word_lo (current_time s) then hi + 1 else hi);
             t = word_pair timer_val hi
         in (t, s\<lparr>hwst := d, current_time := t\<rparr>)))"

definition is_time_valid :: "('d, 'z) timest_scheme \<Rightarrow> u8" where
  "is_time_valid s = time_valid s"

definition init_current_time ::
  "'d mmio \<Rightarrow> ('d, 'z) timest_scheme \<Rightarrow> ('d, 'z) timest_scheme" where
  "init_current_time m s =
     (let s = s\<lparr>time_valid := 0\<rparr>;
          d = reg_or m SC_PCONP (push_bit 23 1) (hwst s);
          d = wr m (TIM_TCR 3) 0x02 d;
          d = wr m (TIM_PR 3) (25 * 1000 * 1000 - 1) d;
          d = wr m (TIM_TCR 3) 0x01 d
      in s\<lparr>hwst := d\<rparr>)"

section \<open>Properties\<close>

lemma time_extend:
  fixes T0 T1 :: nat
  assumes "T0 \<le> T1" "T1 < T0 + 2 ^ 32"
  shows "T1 = (T0 div 2 ^ 32 + (if T1 mod 2 ^ 32 < T0 mod 2 ^ 32 then 1 else 0)) * 2 ^ 32 + T1 mod 2 ^ 32"
proof -
  let ?B = "2 ^ 32 :: nat"
  have 0: "T0 = T0 div ?B * ?B + T0 mod ?B" "T1 = T1 div ?B * ?B + T1 mod ?B" "T0 mod ?B < ?B" "T1 mod ?B < ?B"
    by simp_all
  have "T1 div ?B = T0 div ?B + (if T1 mod ?B < T0 mod ?B then 1 else 0)"
  proof -
    have "T0 div ?B \<le> T1 div ?B" using assms(1) by (rule div_le_mono)
    moreover have "T1 div ?B \<le> T0 div ?B + 1"
    proof -
      have "T1 div ?B \<le> (T0 + ?B) div ?B" using assms(2) by (intro div_le_mono) simp
      then show ?thesis by simp
    qed
    ultimately consider "T1 div ?B = T0 div ?B" | "T1 div ?B = T0 div ?B + 1" by linarith
    then show ?thesis
    proof cases
      case 1
      then have "T1 = T0 div ?B * ?B + T1 mod ?B" using 0(2) by simp
      with 0(1) assms(1) have "\<not> T1 mod ?B < T0 mod ?B" by linarith
      with 1 show ?thesis by simp
    next
      case 2
      then have "T1 = T0 div ?B * ?B + ?B + T1 mod ?B" using 0(2) by (simp add: distrib_right)
      with 0(1) assms(2) have "T1 mod ?B < T0 mod ?B" by linarith
      with 2 show ?thesis by simp
    qed
  qed
  then show ?thesis using 0(2) by simp
qed

lemma word_lo_nat: "unat (word_lo t) = unat t mod 2 ^ 32"
  by (simp add: word_lo_def unsigned_ucast_eq take_bit_eq_mod)

lemma word_hi_nat: "unat (word_hi t) = unat t div 2 ^ 32"
proof -
  have "unat t < 2 ^ 64" using unsigned_less [of t, where 'a = nat] by simp
  then have "unat t div 2 ^ 32 < 2 ^ 32" by (simp add: less_mult_imp_div_less)
  moreover have "unat (word_hi t) = take_bit 32 (unat t div 2 ^ 32)"
    unfolding word_hi_def unsigned_ucast_eq unsigned_drop_bit_eq
    using \<open>unat t < 2 ^ 64\<close> by (simp add: drop_bit_eq_div take_bit_nat_eq_self)
  ultimately show ?thesis by (simp add: take_bit_nat_eq_self)
qed

lemma get_current_time_nat:
  assumes "rd m (TIM_TC 3) (hwst s) = (tc, d)" and "unat tc = T1 mod 2 ^ 32"
    and "unat (current_time s) = T0" "T0 \<le> T1" "T1 < T0 + 2 ^ 32" "T1 < 2 ^ 64"
  shows "get_current_time m s = (of_nat T1, s\<lparr>hwst := d, current_time := of_nat T1\<rparr>)"
proof -
  let ?c = "current_time s"
  let ?hi = "if tc < word_lo ?c then word_hi ?c + 1 else word_hi ?c"
  have e: "T1 = (T0 div 2 ^ 32 + (if T1 mod 2 ^ 32 < T0 mod 2 ^ 32 then 1 else 0)) * 2 ^ 32 + T1 mod 2 ^ 32"
    by (rule time_extend [OF assms(4,5)])
  have h: "unat ?hi = T0 div 2 ^ 32 + (if T1 mod 2 ^ 32 < T0 mod 2 ^ 32 then 1 else 0)"
  proof (cases "T1 mod 2 ^ 32 < T0 mod 2 ^ 32")
    case True
    then have "T0 div 2 ^ 32 + 1 < 2 ^ 32" using e assms(6) by simp
    then have "unat (word_hi ?c + 1) = T0 div 2 ^ 32 + 1"
      using assms(3) word_hi_nat [of ?c] by (subst unat_add_lem [THEN iffD1]) simp_all
    with True show ?thesis using assms(2,3) word_lo_nat [of ?c] by (simp add: word_less_nat_alt)
  qed (use assms(2,3) word_lo_nat [of ?c] word_hi_nat [of ?c] in \<open>simp add: word_less_nat_alt\<close>)
  have "unat (word_pair tc ?hi) = T1"
    unfolding word_pair_nat h assms(2) by (rule e [symmetric])
  moreover have "unat (of_nat T1 :: u64) = T1" using assms(6) by (intro unat_of_nat_small) simp
  ultimately have "word_pair tc ?hi = of_nat T1" by (simp add: word_unat_eq_iff)
  then show ?thesis using assms(1) by (simp add: get_current_time_def Let_def)
qed

lemma get_current_time_of_nat:
  assumes "rd m (TIM_TC 3) (hwst s) = (of_nat T1, d)" and "current_time s = of_nat T0"
    and "T0 \<le> T1" and "T1 < T0 + 2 ^ 32" and "T1 < 2 ^ 64"
  shows "get_current_time m s = (of_nat T1, s\<lparr>hwst := d, current_time := of_nat T1\<rparr>)"
proof (rule get_current_time_nat [OF assms(1) _ _ assms(3-5)])
  show "unat (of_nat T1 :: u32) = T1 mod 2 ^ 32" by (simp add: unsigned_of_nat take_bit_eq_mod)
  show "unat (current_time s) = T0"
    unfolding assms(2) by (rule unat_of_nat_small) (use assms(3,5) in simp)
qed

text \<open>
  The clock follows the timer (C26). If the last time returned was \<open>T0\<close> and less than \<open>2 ^ 32\<close>
  seconds have passed since, so that timer 3 now holds the low word of the present time
  \<open>T1\<close>, \<open>get_current_time\<close> returns \<open>T1\<close> in full: the wrap of the 32-bit counter is carried
  into the high word exactly when it happened.
\<close>

theorem get_current_time_exact:
  assumes "rd m (TIM_TC 3) (hwst s) = (of_nat T1, d)" and "current_time s = of_nat T0"
    and "T0 \<le> T1" and "T1 < T0 + 2 ^ 32" and "T1 < 2 ^ 64"
  shows "get_current_time m s = (of_nat T1, s\<lparr>hwst := d, current_time := of_nat T1\<rparr>)"
  using assms by (rule get_current_time_of_nat)

definition sample_clock :: "rcard timest" where
  "sample_clock = memst.extend sample_store \<lparr>current_time = 0xFFFFFFF0, time_valid = 1\<rparr>"

text \<open>Sixteen seconds before the counter wraps, then twenty seconds later.\<close>

theorem get_current_time_exact_witness:
  "fst (get_current_time card_mmio (sample_clock\<lparr>hwst := blank_card\<lparr>tcount := 4\<rparr>\<rparr>)) = 0x100000004"
  using get_current_time_exact [of card_mmio "sample_clock\<lparr>hwst := blank_card\<lparr>tcount := 4\<rparr>\<rparr>" "0x100000004"
      "blank_card\<lparr>tcount := 5\<rparr>" "0xFFFFFFF0"]
  by (simp add: sample_clock_def sample_store_def memst.defs blank_card_def card_mmio_def card_rd_def)

end
