(* ===== verification/Sample_Write.thy ===== *)
theory Sample_Write
  imports Gw_Time
begin

text \<open>
  Building a sample record and storing it, \<open>src/src/memory/write.c\<close>.
\<close>

record 'd writest = "'d timest" +
  write_block :: "u32 list"

definition sample_words :: "u32 \<Rightarrow> u64 \<Rightarrow> u32 \<Rightarrow> u32 \<Rightarrow> u32 list" where
  "sample_words record_flags time left_data right_data =
     [record_flags, word_lo time, word_hi time, left_data, right_data]"

text \<open>The checksum is computed over the octets of the first five words of \<open>write_block\<close>.\<close>

definition write_sample_to_mem ::
  "'d mmio \<Rightarrow> u32 \<Rightarrow> u32 \<Rightarrow> u32 \<Rightarrow> u32 \<Rightarrow> ('d, 'z) writest_scheme \<Rightarrow> ('d, 'z) writest_scheme option" where
  "write_sample_to_mem m record_flags left_data right_data time_ago s =
     do { let s = s\<lparr>write_block := record_flags # drop 1 (write_block s)\<rparr>;
          let (time, s) = get_current_time m s;
          let time = time - ucast time_ago;
          let s = s\<lparr>write_block := sample_words record_flags time left_data right_data @ drop 5 (write_block s)\<rparr>;
          let s = s\<lparr>write_block := take 5 (write_block s) @
                     [calculate_checksum (bytes_of_words (write_block s))]\<rparr>;
          (_, s) \<leftarrow> put_sample m (bytes_of_words (write_block s)) s;
          Some s }"

section \<open>Stored samples\<close>

lemma bytes_of_words_append: "bytes_of_words (xs @ ys) = bytes_of_words xs @ bytes_of_words ys"
  by (simp add: bytes_of_words_def)

lemma sealed_record_passes:
  assumes "length ws = 5"
  shows "evaluate_checksum (bytes_of_words (ws @ [calculate_checksum (bytes_of_words (ws @ [x]))])) = CHECKSUM_PASS"
proof -
  let ?c = "calculate_checksum (bytes_of_words (ws @ [x]))"
  have "get_checksum (bytes_of_words (ws @ [?c])) = ?c"
    using assms
    by (simp add: get_checksum_le32 bytes_of_words_append nth_append) (simp add: bytes_of_words_def le32_bytes_def)
  moreover have "calculate_checksum (bytes_of_words (ws @ [y])) = crc32 (bytes_of_words ws)" for y
    using assms by (simp add: calculate_checksum_crc32 bytes_of_words_append)
  ultimately show ?thesis by (simp add: evaluate_checksum_iff)
qed

lemma mem_ok_cong:
  "ready (hwst t) \<Longrightarrow> sectors t = sectors s \<Longrightarrow> mem_buf t = mem_buf s \<Longrightarrow> memory_indexes t = memory_indexes s \<Longrightarrow>
   mem_ok ready capacity s \<Longrightarrow> mem_ok ready capacity t"
  by (simp add: mem_ok_def is_block_valid_def card_size_ok_def disk_sectors_def)


definition sample_writer :: "rcard writest" where
  "sample_writer = timest.extend sample_clock \<lparr>write_block = replicate 6 0\<rparr>"


end
