(* ===== verification/Http_Rx.thy ===== *)
theory Http_Rx
  imports Sample_Write
begin

text \<open>
  The parser of the database's response, \<open>src/src/http_rx.c\<close>: it scans the octets that TCP
  delivers for the string \<open>"id":\<close> and reports each one as a successful upload.
\<close>

section \<open>Globals and operations\<close>

record 'd rxst = "'d writest" +
  good_index :: u16
  bad_index :: u16

definition ascii :: "string \<Rightarrow> u8 list" where
  "ascii cs = map (\<lambda>c. of_nat (of_char c)) cs"

text \<open>The strings with the terminating zero octet that indexing may reach.\<close>

definition good :: "u8 list" where "good = ascii [CHR 0x22, CHR ''i'', CHR ''d'', CHR 0x22, CHR '':''] @ [0]"
definition good_len :: u16 where "good_len = 5"
definition bad :: "u8 list" where "bad = ascii ''unused-unused-unused'' @ [0]"
definition bad_len :: u16 where "bad_len = 20"

fun parse_http_response_buffer ::
  "'d mmio \<Rightarrow> u8 list \<Rightarrow> ('d, 'z) rxst_scheme \<Rightarrow> ('d, 'z) rxst_scheme option" where
  "parse_http_response_buffer m [] s = Some s"
| "parse_http_response_buffer m (c # cs) s =
     do { let g = good_index s;
          let s = s\<lparr>good_index := g + 1\<rparr>;
          s \<leftarrow> (if c \<noteq> good ! unat g then Some (s\<lparr>good_index := 0\<rparr>)
               else if good_index s = good_len then
                 do { s \<leftarrow> good_upload_done m s; Some (s\<lparr>good_index := 0\<rparr>) }
               else Some s);
          let s = (if c \<noteq> bad ! unat (bad_index s) then s\<lparr>bad_index := 0\<rparr>
                   else if bad_index s = bad_len then s\<lparr>bad_index := 0\<rparr>
                   else s);
          parse_http_response_buffer m cs s }"

definition reset_http_response_parser :: "('d, 'z) rxst_scheme \<Rightarrow> ('d, 'z) rxst_scheme" where
  "reset_http_response_parser s = s\<lparr>good_index := 0, bad_index := 0\<rparr>"

section \<open>The scan as an automaton\<close>

text \<open>
  The pattern's automaton over the match position, and the number of matches it finds;
  \<open>uploads\<close> is that many calls of \<open>good_upload_done\<close>.
\<close>

definition scan_step :: "u16 \<Rightarrow> u8 \<Rightarrow> u16" where
  "scan_step g c = (if c \<noteq> good ! unat g then 0 else if g + 1 = good_len then 0 else g + 1)"

definition scan_hit :: "u16 \<Rightarrow> u8 \<Rightarrow> bool" where
  "scan_hit g c \<longleftrightarrow> c = good ! unat g \<and> g + 1 = good_len"

fun scan_hits :: "u16 \<Rightarrow> u8 list \<Rightarrow> nat" where
  "scan_hits g [] = 0"
| "scan_hits g (c # cs) = (if scan_hit g c then 1 else 0) + scan_hits (scan_step g c) cs"

fun uploads :: "'d mmio \<Rightarrow> nat \<Rightarrow> ('d, 'z) memst_scheme \<Rightarrow> ('d, 'z) memst_scheme option" where
  "uploads m 0 s = Some s"
| "uploads m (Suc n) s = do { s \<leftarrow> good_upload_done m s; uploads m n s }"

definition scan_pos :: "u16 \<Rightarrow> u8 list \<Rightarrow> u16" where
  "scan_pos g cs = fold (\<lambda>c g. scan_step g c) cs g"

lemma scan_hits_append: "scan_hits g (xs @ ys) = scan_hits g xs + scan_hits (scan_pos g xs) ys"
  by (induction xs arbitrary: g) (simp_all add: scan_pos_def)

lemma uploads_add: "uploads m (i + j) s = do { s \<leftarrow> uploads m i s; uploads m j s }"
  by (induction i arbitrary: s) (auto split: bind_split)

text \<open>An upload reads and changes neither match position.\<close>

lemma upload_indexes: "good_upload_done m (s\<lparr>good_index := g, bad_index := b\<rparr>) =
    map_option (\<lambda>s. s\<lparr>good_index := g, bad_index := b\<rparr>) (good_upload_done m s)"
  by (simp add: good_upload_done_def put_memory_indexes_def next_block_def is_block_valid_def disk_sectors_def Let_def
      split: bind_splits prod.splits)

lemma uploads_indexes: "uploads m n (s\<lparr>good_index := g, bad_index := b\<rparr>) =
    map_option (\<lambda>s. s\<lparr>good_index := g, bad_index := b\<rparr>) (uploads m n s)"
  by (induction n arbitrary: s) (auto simp: upload_indexes split: bind_split)

lemma upload_keeps: "good_upload_done m s = Some s' \<Longrightarrow> bad_index s' = bad_index s \<and> good_index s' = good_index s"
  by (auto simp: good_upload_done_def put_memory_indexes_def Let_def split: bind_splits prod.splits if_splits)

lemma scan_step_bound: "unat g < 5 \<Longrightarrow> unat (scan_step g c) < 5"
  unfolding scan_step_def good_len_def
  by (auto simp: word_unat_eq_iff unat_word_ariths)

lemma bad_index_0: "(if c \<noteq> bad ! unat (0 :: u16) then s\<lparr>bad_index := 0\<rparr>
     else if (0 :: u16) = bad_len then s\<lparr>bad_index := 0\<rparr> else s) = (if c \<noteq> bad ! 0 then s\<lparr>bad_index := 0\<rparr> else s)"
  by (simp add: bad_len_def)

lemma parse_step:
  assumes "bad_index s = 0"
  shows "parse_http_response_buffer m (c # cs) s =
    do { t \<leftarrow> uploads m (if scan_hit (good_index s) c then 1 else 0) s;
         parse_http_response_buffer m cs (t\<lparr>good_index := scan_step (good_index s) c, bad_index := 0\<rparr>) }"
proof -
  have same: "bad_index t = 0 \<Longrightarrow> t\<lparr>good_index := g, bad_index := 0\<rparr> = t\<lparr>good_index := g\<rparr>" for t :: "('a, 'b) rxst_scheme" and g
    by (cases t) simp
  have up: "good_upload_done m (s\<lparr>good_index := g\<rparr>) = map_option (\<lambda>t. t\<lparr>good_index := g\<rparr>) (good_upload_done m s)" for g
    using upload_indexes [where m = m and s = s and g = g and b = "bad_index s"] upload_keeps [of m s] same assms
    by (cases "good_upload_done m s") (auto simp: same)
  show ?thesis
    using assms upload_keeps [of m s]
    by (cases "good_upload_done m s") (auto simp: scan_hit_def scan_step_def up same bad_len_def Let_def)
qed

lemma parse_scan:
  assumes "bad_index s = 0"
  shows "parse_http_response_buffer m cs s =
    map_option (\<lambda>t. t\<lparr>good_index := scan_pos (good_index s) cs, bad_index := 0\<rparr>)
      (uploads m (scan_hits (good_index s) cs) s)"
  using assms
proof (induction cs arbitrary: s)
  case Nil
  then show ?case by (cases s) (simp add: scan_pos_def)
next
  case (Cons c cs)
  let ?g = "scan_step (good_index s) c"
  have pos: "scan_pos (good_index s) (c # cs) = scan_pos ?g cs" by (simp add: scan_pos_def)
  have rest: "parse_http_response_buffer m cs (t\<lparr>good_index := ?g, bad_index := 0\<rparr>) =
      map_option (\<lambda>t. t\<lparr>good_index := scan_pos ?g cs, bad_index := 0\<rparr>) (uploads m (scan_hits ?g cs) t)"
    for t :: "('a, 'b) rxst_scheme"
    using Cons.IH [of "t\<lparr>good_index := ?g, bad_index := 0\<rparr>"]
    by (simp add: uploads_indexes option.map_comp comp_def)
  show ?case
    unfolding parse_step [OF Cons.prems] scan_hits.simps pos uploads_add
    by (auto simp: rest map_conv_bind_option split: bind_split)
qed

section \<open>Matches\<close>

definition pattern :: "u8 list" where "pattern = take 5 good"

lemmas pattern_eval = pattern_def good_def ascii_def good_len_def scan_hit_def scan_step_def

text \<open>The positions at which the pattern ends in \<open>cs\<close>.\<close>

definition occurrences :: "u8 list \<Rightarrow> nat" where
  "occurrences cs = length (filter (\<lambda>i. 5 \<le> i \<and> take 5 (drop (i - 5) cs) = pattern) [0..<Suc (length cs)])"

lemma length_pattern [simp]: "length pattern = 5"
  by (simp add: pattern_eval)

lemma scan_pos_snoc: "scan_pos g (xs @ [c]) = scan_step (scan_pos g xs) c"
  by (simp add: scan_pos_def)

lemma scan_pos_matched:
  "unat (scan_pos 0 cs) < 5 \<and> unat (scan_pos 0 cs) \<le> length cs \<and>
   drop (length cs - unat (scan_pos 0 cs)) cs = take (unat (scan_pos 0 cs)) pattern"
proof (induction cs rule: rev_induct)
  case Nil
  then show ?case by (simp add: scan_pos_def)
next
  case (snoc c cs)
  let ?g = "scan_pos 0 cs"
  have IH: "unat ?g < 5" "unat ?g \<le> length cs" "drop (length cs - unat ?g) cs = take (unat ?g) pattern"
    using snoc.IH by auto
  show ?case
  proof (cases "c = good ! unat ?g \<and> ?g + 1 \<noteq> good_len")
    case True
    then have s: "scan_pos 0 (cs @ [c]) = ?g + 1" by (simp add: scan_pos_snoc scan_step_def)
    have u: "unat (?g + 1) = unat ?g + 1"
      using IH(1) by (subst unat_add_lem [THEN iffD1]) simp_all
    have "unat ?g \<noteq> 4" using True u by (auto simp: good_len_def word_unat_eq_iff)
    moreover have "pattern ! unat ?g = c" using True IH(1) by (simp add: pattern_def)
    ultimately show ?thesis using IH by (simp add: s u take_Suc_conv_app_nth)
  qed (auto simp: scan_pos_snoc scan_step_def)
qed

lemma scan_hit_match:
  assumes "scan_hit (scan_pos 0 cs) c"
  shows "4 \<le> length cs \<and> drop (length cs - 4) cs @ [c] = pattern"
proof -
  let ?g = "scan_pos 0 cs"
  have "unat ?g + 1 = 5"
    using assms scan_pos_matched [of cs]
    by (auto simp: scan_hit_def good_len_def word_unat_eq_iff unat_word_ariths)
  then have g: "unat ?g = 4" by simp
  moreover have "c = pattern ! 4" using assms g by (simp add: scan_hit_def pattern_def)
  moreover have "pattern = take 4 pattern @ [pattern ! 4]"
    by (simp add: pattern_eval)
  ultimately show ?thesis using scan_pos_matched [of cs] by (metis g)
qed

lemma occurrences_snoc:
  "occurrences (cs @ [c]) = occurrences cs + (if 4 \<le> length cs \<and> drop (length cs - 4) cs @ [c] = pattern then 1 else 0)"
proof -
  have "filter (\<lambda>i. 5 \<le> i \<and> take 5 (drop (i - 5) (cs @ [c])) = pattern) [0..<Suc (length cs)] =
      filter (\<lambda>i. 5 \<le> i \<and> take 5 (drop (i - 5) cs) = pattern) [0..<Suc (length cs)]"
    by (rule filter_cong) auto
  moreover have "5 \<le> Suc (length cs) \<and> take 5 (drop (Suc (length cs) - 5) (cs @ [c])) = pattern \<longleftrightarrow>
      4 \<le> length cs \<and> drop (length cs - 4) cs @ [c] = pattern"
    by auto
  moreover have "[0..<Suc (length (cs @ [c]))] = [0..<Suc (length cs)] @ [Suc (length cs)]" by simp
  ultimately show ?thesis by (simp only: occurrences_def filter_append length_append filter.simps if_distrib [of length]) simp
qed

lemma scan_hits_sound: "scan_hits 0 cs \<le> occurrences cs"
proof (induction cs rule: rev_induct)
  case (snoc c cs)
  then show ?case using scan_hit_match [of cs c] by (simp add: scan_hits_append occurrences_snoc)
qed simp

lemma scan_hits_delimited:
  assumes "unat g < 5" "c \<notin> set pattern"
  shows "scan_hits g (u @ [c] @ pattern @ v) = scan_hits g (u @ [c]) + 1 + scan_hits 0 v"
proof -
  have "unat (scan_pos g u) < 5" using assms(1)
    by (induction u rule: rev_induct) (simp_all add: scan_pos_snoc scan_step_bound, simp add: scan_pos_def)
  then have "pattern ! unat (scan_pos g u) \<in> set pattern" "good ! unat (scan_pos g u) = pattern ! unat (scan_pos g u)"
    by (auto intro: nth_mem) (simp add: pattern_def)
  then have "c \<noteq> good ! unat (scan_pos g u)" using assms(2) by auto
  then have "scan_pos g (u @ [c]) = 0" by (simp add: scan_pos_snoc scan_step_def)
  moreover have "scan_hits 0 pattern = 1" "scan_pos 0 pattern = 0"
    by (simp_all add: pattern_eval scan_pos_def)
  ultimately show ?thesis
    using scan_hits_append [of g "u @ [c]" "pattern @ v"] scan_hits_append [of 0 pattern v] by simp
qed

text \<open>A quotation mark right before the pattern hides it.\<close>

lemma quoted_id_missed:
  "occurrences (pattern ! 0 # pattern) = 1 \<and> scan_hits 0 (pattern ! 0 # pattern) = 0"
proof -
  have "occurrences (pattern ! 0 # pattern) = 1"
    by (simp add: occurrences_def pattern_eval upt_rec)
  moreover have "scan_hits 0 (pattern ! 0 # pattern) = 0" by (simp add: pattern_eval)
  ultimately show ?thesis by blast
qed

section \<open>Properties\<close>

context sd_disk
begin

lemma mem_avail_queue:
  assumes "mem_ok ready capacity s"
  shows "mem_avail s \<longleftrightarrow> 1 < length (mem_queue blocks s)"
  using mem_ok_ring(1,2) [OF assms]
  by (auto simp: mem_avail_def mem_queue_def mem_ring_def length_ring ring_dist_def word_unat_eq_iff)

lemma uploads_queue:
  "mem_ok ready capacity s \<Longrightarrow> n < length (mem_queue blocks s) \<Longrightarrow>
   \<exists>s'. uploads m n s = Some s' \<and> mem_ok ready capacity s' \<and> mem_queue blocks s' = drop n (mem_queue blocks s)"
proof (induction n arbitrary: s)
  case (Suc n)
  then have "mem_avail s" using mem_avail_queue [of s] by simp
  from good_upload_done_queue [OF Suc.prems(1) this] obtain s1 where
    1: "good_upload_done m s = Some s1" "mem_ok ready capacity s1" "mem_queue blocks s1 = tl (mem_queue blocks s)"
    by auto
  with Suc.IH [of s1] Suc.prems(2) show ?case by (auto simp: drop_Suc)
qed simp

end

lemma scan_hits_documents:
  assumes "\<forall>u \<in> set us. u \<noteq> [] \<and> last u \<notin> set pattern \<and> occurrences u = 0" and "occurrences v = 0"
  shows "scan_hits 0 (concat (map (\<lambda>u. u @ pattern) us) @ v) = length us"
  using assms(1)
proof (induction us)
  case Nil
  then show ?case using assms(2) scan_hits_sound [of v] by simp
next
  case (Cons u us)
  then have u: "u \<noteq> []" "last u \<notin> set pattern" "occurrences u = 0" by auto
  have "scan_hits 0 u = 0" using u(3) scan_hits_sound [of u] by simp
  moreover obtain b c where "u = b @ [c]" using u(1) by (cases u rule: rev_cases) auto
  ultimately show ?case
    using scan_hits_delimited [of 0 c b "concat (map (\<lambda>u. u @ pattern) us) @ v"] u(2) Cons by simp
qed

text \<open>
  Segmentation does not matter. Parsing the octets of two TCP segments one after the other
  is parsing their concatenation, from every parser state: a match may be split anywhere.
\<close>

theorem parse_http_response_append:
  "parse_http_response_buffer m (xs @ ys) s =
     do { s \<leftarrow> parse_http_response_buffer m xs s; parse_http_response_buffer m ys s }"
proof (induction xs arbitrary: s)
  case (Cons x xs)
  have bind: "(a \<bind> (\<lambda>t. f t)) \<bind> g = a \<bind> (\<lambda>t. f t \<bind> g)" for a :: "('a, 'b) rxst_scheme option" and f and g :: "('a, 'b) rxst_scheme \<Rightarrow> ('a, 'b) rxst_scheme option"
    by (cases a) simp_all
  show ?case by (simp only: append_Cons parse_http_response_buffer.simps Let_def Cons.IH bind)
qed simp

lemma documents_removed:
  assumes "sd_card m exch ready blocks capacity" and "mem_ok ready capacity s"
    and "\<forall>u \<in> set us. u \<noteq> [] \<and> last u \<notin> set pattern \<and> occurrences u = 0" and "occurrences v = 0"
    and "length us < length (mem_queue blocks s)"
  shows "\<exists>s'. parse_http_response_buffer m (concat (map (\<lambda>u. u @ pattern) us) @ v)
       (reset_http_response_parser s) = Some s' \<and> mem_ok ready capacity s' \<and>
     mem_queue blocks s' = drop (length us) (mem_queue blocks s)"
proof -
  let ?s = "reset_http_response_parser s"
  have "mem_ok ready capacity ?s" "mem_queue blocks ?s = mem_queue blocks s"
    using assms(2) mem_ok_cong [of ready ?s s capacity]
    by (simp_all add: reset_http_response_parser_def mem_ok_def mem_queue_def mem_ring_def)
  with sd_disk.uploads_queue [OF sd_card.card_disk [OF assms(1)], of ?s "length us"] assms(5) obtain t where
    t: "uploads m (length us) ?s = Some t" "mem_ok ready capacity t" "mem_queue blocks t = drop (length us) (mem_queue blocks s)"
    by auto
  let ?p = "scan_pos 0 (concat (map (\<lambda>u. u @ pattern) us) @ v)"
  have "parse_http_response_buffer m (concat (map (\<lambda>u. u @ pattern) us) @ v) ?s =
      Some (t\<lparr>good_index := ?p, bad_index := 0\<rparr>)"
    using parse_scan [of ?s] t(1) scan_hits_documents [OF assms(3,4)] by (simp add: reset_http_response_parser_def)
  moreover have "mem_ok ready capacity (t\<lparr>good_index := ?p, bad_index := 0\<rparr>)"
    using t(2) mem_ok_cong [of ready "t\<lparr>good_index := ?p, bad_index := 0\<rparr>" t capacity] by (simp add: mem_ok_def)
  moreover have "mem_queue blocks (t\<lparr>good_index := ?p, bad_index := 0\<rparr>) = mem_queue blocks t"
    by (simp add: mem_queue_def mem_ring_def)
  ultimately show ?thesis using t(3) by auto
qed

text \<open>
  One record leaves the store per acknowledged document (C12). From a reset parser, the response
  to an upload of \<open>n\<close> documents, in which each \<open>"id":\<close> follows an octet that is not in that
  string itself (a brace, comma or space) and no other occurrence is present, removes
  exactly the \<open>n\<close> oldest records from the queue on the card, provided more than \<open>n\<close> blocks
  lie between the indexes.
\<close>

theorem response_removes_documents:
  assumes "sd_card m exch ready blocks capacity" and "mem_ok ready capacity s"
    and "\<forall>u \<in> set us. u \<noteq> [] \<and> last u \<notin> set pattern \<and> occurrences u = 0" and "occurrences v = 0"
    and "length us < length (mem_queue blocks s)"
  shows "\<exists>s'. parse_http_response_buffer m (concat (map (\<lambda>u. u @ pattern) us) @ v)
       (reset_http_response_parser s) = Some s' \<and> mem_ok ready capacity s' \<and>
     mem_queue blocks s' = drop (length us) (mem_queue blocks s)"
  using documents_removed [OF assms] .

definition sample_rx :: "rcard rxst" where
  "sample_rx = writest.extend (sample_writer\<lparr>memory_indexes := \<lparr>write_index = 4, read_index = 1\<rparr>\<rparr>)
     \<lparr>good_index = 0, bad_index = 0\<rparr>"

theorem response_removes_documents_witness:
  "\<exists>s'. parse_http_response_buffer card_mmio (ascii ''[{'' @ pattern @ ascii ''1},{'' @ pattern @ ascii ''2}]'')
       (reset_http_response_parser sample_rx) = Some s' \<and>
     mem_queue store s' = drop 2 (mem_queue store sample_rx)"
proof -
  have "\<exists>s'. parse_http_response_buffer card_mmio
         (concat (map (\<lambda>u. u @ pattern) [ascii ''[{'', ascii ''1},{'']) @ ascii ''2}]'')
         (reset_http_response_parser sample_rx) = Some s' \<and> mem_ok card_ready 0x800000 s' \<and>
       mem_queue store s' = drop (length [ascii ''[{'', ascii ''1},{'']) (mem_queue store sample_rx)"
  proof (rule response_removes_documents [OF rc.sd_card_axioms])
    show "mem_ok card_ready 0x800000 sample_rx"
      by (simp add: sample_rx_def sample_writer_def sample_clock_def sample_store_def writest.defs timest.defs
          memst.defs mem_ok_def card_size_ok_def is_block_valid_def disk_sectors_def card_ready_def blank_card_def)
    show "\<forall>u \<in> set [ascii ''[{'', ascii ''1},{'']. u \<noteq> [] \<and> last u \<notin> set pattern \<and> occurrences u = 0"
      by (simp add: ascii_def occurrences_def) (simp add: pattern_eval)
    show "occurrences (ascii ''2}]'') = 0" by (simp add: ascii_def occurrences_def)
    show "length [ascii ''[{'', ascii ''1},{''] < length (mem_queue store sample_rx)"
      by (simp add: sample_rx_def sample_writer_def sample_clock_def sample_store_def writest.defs timest.defs
          memst.defs mem_queue_def mem_ring_def length_ring ring_dist_def)
  qed
  then show ?thesis by (auto simp: numeral_2_eq_2)
qed

end
