(* ===== verification/Radio_Service.thy ===== *)
theory Radio_Service
  imports Radio_Ring Http_Rx
begin

text \<open>
  The applications on top of the radio: the processing of uploaded sample frames,
  \<open>src/src/frame_processor.c\<close>, the dispatch of received frames and the time service,
  \<open>src/src/radio_init_service.c\<close>, and \<open>radif_service\<close> of \<open>radio.c\<close>, which delivers the frames
  of the receive ring. The state adds their globals to those of the sample store.
\<close>

section \<open>Globals\<close>

record 'd gwst = "'d rxst" +
  record_buf :: "u8 list"
  sample_ack_packet :: "u8 list"
  rf212_radif :: "'d radif"

text \<open>\<open>radif_send(..., &rf212_radif)\<close>\<close>

definition rf212_send ::
  "'d mmio \<Rightarrow> u8 list \<Rightarrow> u8 \<Rightarrow> u16 \<Rightarrow> u8 \<Rightarrow> ('d, 'z) gwst_scheme \<Rightarrow> ('d, 'z) gwst_scheme option" where
  "rf212_send m frame len dest_addr ack s =
     do { (r, d) \<leftarrow> radif_send m frame len dest_addr ack (rf212_radif s) (hwst s);
          Some (s\<lparr>rf212_radif := r, hwst := d\<rparr>) }"

section \<open>Uploaded samples (frame\_processor.c)\<close>

definition ack_packet :: "u32 \<Rightarrow> u32 \<Rightarrow> u8 list" where
  "ack_packet mem_address checksum = 0x41 # le32_bytes mem_address @ le32_bytes checksum"

definition send_upload_ack ::
  "'d mmio \<Rightarrow> u16 \<Rightarrow> u32 \<Rightarrow> u32 \<Rightarrow> ('d, 'z) gwst_scheme \<Rightarrow> ('d, 'z) gwst_scheme option" where
  "send_upload_ack m rf_address mem_address checksum s =
     do { let s = s\<lparr>sample_ack_packet := ack_packet mem_address checksum\<rparr>;
          rf212_send m (sample_ack_packet s) 9 rf_address 1 s }"

definition get_memory_address_from_rx :: "rx_frame \<Rightarrow> u32" where
  "get_memory_address_from_rx rx =
     ucast (rx_data rx ! 1) OR push_bit 8 (ucast (rx_data rx ! 2)) OR
     push_bit 16 (ucast (rx_data rx ! 3)) OR push_bit 24 (ucast (rx_data rx ! 4))"

definition block_uploaded ::
  "'d mmio \<Rightarrow> rx_frame \<Rightarrow> ('d, 'z) gwst_scheme \<Rightarrow> ('d, 'z) gwst_scheme option" where
  "block_uploaded m rx s =
     (if unat (rx_length rx) \<ge> MEMORY_RECORD_SIZE then
        do { let s = s\<lparr>record_buf := take MEMORY_RECORD_SIZE (drop 5 (rx_data rx))\<rparr>;
             let actual_checksum = calculate_checksum (record_buf s);
             let checksum = get_checksum (record_buf s);
             if checksum = actual_checksum then
               do { let mem_addr = get_memory_address_from_rx rx;
                    s \<leftarrow> send_upload_ack m (source_address rx) mem_addr checksum s;
                    (_, s) \<leftarrow> put_sample m (record_buf s) s;
                    Some s }
             else Some s }
      else Some s)"

section \<open>Frame dispatch (radio\_init\_service.c)\<close>

definition print_current_time :: "'d mmio \<Rightarrow> ('d, 'z) timest_scheme \<Rightarrow> ('d, 'z) timest_scheme" where
  "print_current_time m s = snd (get_current_time m s)"

definition radio_debug_frame ::
  "'d mmio \<Rightarrow> rx_frame \<Rightarrow> ('d, 'z) gwst_scheme \<Rightarrow> ('d, 'z) gwst_scheme option" where
  "radio_debug_frame m rx s = rf212_send m [0x44, 0x44, 0x44, 0x44] 4 (source_address rx) 1 s"

text \<open>The octet \<open>T\<close> and the eight octets of the time, shifted out from the lowest.\<close>

definition time_packet :: "u64 \<Rightarrow> u8 list" where
  "time_packet t = 0x54 # map (\<lambda>i. ucast (drop_bit (8 * i) t AND 0xFF)) [0, 1, 2, 3, 4, 5, 6, 7]"

definition radio_timereq_frame ::
  "'d mmio \<Rightarrow> rx_frame \<Rightarrow> ('d, 'z) gwst_scheme \<Rightarrow> ('d, 'z) gwst_scheme option" where
  "radio_timereq_frame m rx s =
     do { s \<leftarrow> (if is_time_valid s \<noteq> 0 then
                 do { let (time_now, s) = get_current_time m s;
                      let s = print_current_time m s;
                      rf212_send m (time_packet time_now) 9 (source_address rx) 1 s }
               else Some s);
          write_sample_to_mem m (push_bit 26 61) (ucast (energy_detect rx)) 0 0 s }"

definition rf212_rx_callback ::
  "'d mmio \<Rightarrow> rx_frame \<Rightarrow> ('d, 'z) gwst_scheme \<Rightarrow> ('d, 'z) gwst_scheme option" where
  "rf212_rx_callback m rx s =
     (if rx_data rx ! 0 = 0x44 then radio_debug_frame m rx s
      else if rx_data rx ! 0 = 0x54 then radio_timereq_frame m rx s
      else if rx_data rx ! 0 = 0x55 then block_uploaded m rx s
      else Some s)"

definition call_rx_callback ::
  "'d mmio \<Rightarrow> rx_callback_func \<Rightarrow> rx_frame \<Rightarrow> ('d, 'z) gwst_scheme \<Rightarrow> ('d, 'z) gwst_scheme option" where
  "call_rx_callback m f rx s = (case f of Rf212_rx_callback \<Rightarrow> rf212_rx_callback m rx s)"

partial_function (option) radif_service ::
  "'d mmio \<Rightarrow> ('d, 'z) gwst_scheme \<Rightarrow> ('d, 'z) gwst_scheme option" where
  "radif_service m s =
     (let r = rf212_radif s
      in if RxConsumeIndex r \<noteq> RxProduceIndex r then
           (case rx_callback r of
              None \<Rightarrow> radif_service m s
            | Some f \<Rightarrow>
                do { let index = RxConsumeIndex r;
                     s \<leftarrow> call_rx_callback m f (RxFrames r ! unat index) s;
                     radif_service m (s\<lparr>rf212_radif := (rf212_radif s)\<lparr>RxConsumeIndex := frame_next index\<rparr>\<rparr>) })
         else Some s)"

definition rf212_service :: "'d mmio \<Rightarrow> ('d, 'z) gwst_scheme \<Rightarrow> ('d, 'z) gwst_scheme option" where
  "rf212_service m s = radif_service m s"

definition radio_service :: "'d mmio \<Rightarrow> ('d, 'z) gwst_scheme \<Rightarrow> ('d, 'z) gwst_scheme option" where
  "radio_service m s = rf212_service m s"

definition radio_init :: "'d mmio \<Rightarrow> ('d, 'z) gwst_scheme \<Rightarrow> ('d, 'z) gwst_scheme option" where
  "radio_init m s =
     do { (r, d) \<leftarrow> rf212_init m Rf212_rx_callback (rf212_radif s) (hwst s);
          Some (s\<lparr>rf212_radif := r, hwst := d\<rparr>) }"

section \<open>Acknowledgements and stored records\<close>

text \<open>A frame handed to the radio, as it will be transmitted.\<close>

definition sent_frame :: "u8 list \<Rightarrow> u16 \<Rightarrow> tx_frame \<Rightarrow> bool" where
  "sent_frame octets dest f \<longleftrightarrow>
     take (length octets) (tx_data f) = octets \<and> unat (tx_length f) = length octets \<and>
     destination_address f = dest \<and> tx_ack f = 1"

text \<open>The receive ring, and what the callbacks keep of it.\<close>

definition rx_same :: "'d radif \<Rightarrow> 'd radif \<Rightarrow> bool" where
  "rx_same r r' \<longleftrightarrow> RxFrames r' = RxFrames r \<and> RxProduceIndex r' = RxProduceIndex r \<and>
     RxConsumeIndex r' = RxConsumeIndex r \<and> rx_callback r' = rx_callback r \<and> interrupt_trigger r' = interrupt_trigger r"

lemma rf212_send_queue:
  assumes "tx_ok (rf212_radif s)" "tx_room (rf212_radif s)" "length frame = unat len" "unat len \<le> 127"
  shows "\<exists>r f. rf212_send m frame len dest 1 s =
      Some (s\<lparr>rf212_radif := r, hwst := interrupt_trigger (rf212_radif s) (hwst s)\<rparr>) \<and>
    tx_queue r = tx_queue (rf212_radif s) @ [f] \<and> sent_frame frame dest f \<and> tx_ok r \<and>
    rx_same (rf212_radif s) r"
proof -
  let ?r = "rf212_radif s"
  let ?f = "tx_fill frame len dest 1 (TxFrames ?r ! unat (TxProduceIndex ?r))"
  have "\<not> 127 < len" using assms(4) by (simp add: word_less_nat_alt)
  from radif_send_accesses [OF this assms(2), of m frame dest 1 "hwst s"] have
    "rf212_send m frame len dest 1 s = Some (s\<lparr>rf212_radif := tx_publish (tx_store ?f ?r), hwst := interrupt_trigger ?r (hwst s)\<rparr>)"
    by (simp add: rf212_send_def Let_def tx_publish_def tx_store_def)
  moreover have "tx_queue (tx_publish (tx_store ?f ?r)) = tx_queue ?r @ [?f]" "tx_ok (tx_publish (tx_store ?f ?r))"
    using assms(1,2) tx_store_ring [OF assms(1), of ?f]
      tx_publish_ring [of "tx_store ?f ?r" ?f] by simp_all
  moreover have "sent_frame frame dest ?f" using assms(3) by (simp add: sent_frame_def tx_fill_def)
  moreover have "rx_same ?r (tx_publish (tx_store ?f ?r))" by (simp add: rx_same_def tx_publish_def tx_store_def)
  ultimately show ?thesis by blast
qed

lemma length_ack_packet [simp]: "length (ack_packet a c) = 9"
  by (simp add: ack_packet_def)

lemma bind_snd_Some: "(x \<bind> (\<lambda>(_, y). Some y)) = map_option snd x"
  by (cases x) auto

lemma block_uploaded_good:
  assumes "MEMORY_RECORD_SIZE \<le> unat (rx_length rx)" "tx_ok (rf212_radif s)" "tx_room (rf212_radif s)"
    and "rc = take MEMORY_RECORD_SIZE (drop 5 (rx_data rx))" "get_checksum rc = calculate_checksum rc"
  shows "\<exists>r f. block_uploaded m rx s =
      map_option snd (put_sample m rc
        (s\<lparr>record_buf := rc, sample_ack_packet := ack_packet (get_memory_address_from_rx rx) (get_checksum rc),
           rf212_radif := r, hwst := interrupt_trigger (rf212_radif s) (hwst s)\<rparr>)) \<and>
    tx_queue r = tx_queue (rf212_radif s) @ [f] \<and>
    sent_frame (ack_packet (get_memory_address_from_rx rx) (get_checksum rc)) (source_address rx) f \<and> tx_ok r \<and>
    rx_same (rf212_radif s) r"
proof -
  let ?p = "ack_packet (get_memory_address_from_rx rx) (get_checksum rc)"
  let ?s = "s\<lparr>record_buf := rc, sample_ack_packet := ?p\<rparr>"
  from rf212_send_queue [of ?s ?p 9 m "source_address rx"] assms(2,3) obtain r f where
    1: "rf212_send m ?p 9 (source_address rx) 1 ?s = Some (?s\<lparr>rf212_radif := r, hwst := interrupt_trigger (rf212_radif s) (hwst s)\<rparr>)"
      "tx_queue r = tx_queue (rf212_radif s) @ [f]" "sent_frame ?p (source_address rx) f" "tx_ok r" "rx_same (rf212_radif s) r"
    using that by (auto simp: rx_same_def)
  have "block_uploaded m rx s = map_option snd (put_sample m rc (?s\<lparr>rf212_radif := r, hwst := interrupt_trigger (rf212_radif s) (hwst s)\<rparr>))"
    using assms(1,5) 1(1) unfolding assms(4) [symmetric]
    by (simp add: block_uploaded_def send_upload_ack_def Let_def bind_snd_Some assms(4) [symmetric])
  with 1(2-5) show ?thesis by blast
qed

section \<open>Properties\<close>

text \<open>
  The card does not notice that the radio's timer is started: what the store relies on when
  the radio is used between its accesses.
\<close>

definition trigger_keeps :: "('d \<Rightarrow> bool) \<Rightarrow> ('d \<Rightarrow> nat \<Rightarrow> u8 list) \<Rightarrow> ('d \<Rightarrow> 'd) \<Rightarrow> bool" where
  "trigger_keeps ready blocks trigger \<longleftrightarrow>
     (\<forall>d. ready d \<longrightarrow> ready (trigger d) \<and> blocks (trigger d) = blocks d)"

lemma upload_store:
  assumes "sd_card m exch ready blocks capacity" "mem_ok ready capacity s"
    and "trigger_keeps ready blocks (interrupt_trigger (rf212_radif s))" "length rc = MEMORY_RECORD_SIZE"
    and t: "t = s\<lparr>record_buf := rc, sample_ack_packet := p, rf212_radif := r, hwst := interrupt_trigger (rf212_radif s) (hwst s)\<rparr>"
  shows "\<exists>t'. put_sample m rc t = Some (if mem_room s then 1 else 0, t') \<and> mem_ok ready capacity t' \<and>
     mem_queue blocks t' = (if mem_room s then mem_queue blocks s @ [rc] else mem_queue blocks s)"
proof -
  have k: "ready (hwst t)" "blocks (hwst t) = blocks (hwst s)"
    using assms(2,3) by (simp_all add: t trigger_keeps_def mem_ok_def)
  then have "mem_ok ready capacity t"
    using mem_ok_cong [of ready t s capacity] assms(2) by (simp add: t)
  moreover have "mem_room t = mem_room s" "mem_queue blocks t = mem_queue blocks s"
    using k(2) by (simp_all add: t mem_room_def mem_ring_def mem_queue_def)
  ultimately show ?thesis
    using sd_disk.put_sample_queue [OF sd_card.card_disk [OF assms(1)] _ assms(4), of t] by (auto split: if_splits)
qed

lemma put_sample_radio: "put_sample m rc t = Some (v, t') \<Longrightarrow> rf212_radif t' = rf212_radif t"
  by (auto simp: put_sample_def put_memory_indexes_def Let_def split: bind_splits prod.splits if_splits)

text \<open>
  An uploaded sample is stored and acknowledged (C18). A received frame of at least 24 octets
  whose record, the 24 octets from offset five, has a valid checksum is appended to the queue
  of records on the card when there is room, and the frame's memory address and checksum are
  handed to the radio, addressed to its sender. When the store is full the acknowledgement
  is sent all the same and the sample is dropped.
\<close>

theorem block_uploaded_stores:
  assumes "sd_card m exch ready blocks capacity" and "mem_ok ready capacity s"
    and "trigger_keeps ready blocks (interrupt_trigger (rf212_radif s))"
    and "tx_ok (rf212_radif s)" and "tx_room (rf212_radif s)"
    and "length (rx_data rx) = FRAME_DATA" and "24 \<le> unat (rx_length rx)"
    and "evaluate_checksum (take 24 (drop 5 (rx_data rx))) = CHECKSUM_PASS"
  shows "\<exists>s' f. block_uploaded m rx s = Some s' \<and> mem_ok ready capacity s' \<and>
    mem_queue blocks s' =
      (if mem_room s then mem_queue blocks s @ [take 24 (drop 5 (rx_data rx))] else mem_queue blocks s) \<and>
    tx_queue (rf212_radif s') = tx_queue (rf212_radif s) @ [f] \<and>
    sent_frame (0x41 # take 4 (drop 1 (rx_data rx)) @ take 4 (drop 25 (rx_data rx))) (source_address rx) f"
proof -
  let ?rc = "take 24 (drop 5 (rx_data rx))"
  have len: "length ?rc = MEMORY_RECORD_SIZE" using assms(6) by (simp add: MEMORY_RECORD_SIZE_def)
  have chk: "get_checksum ?rc = calculate_checksum ?rc" using assms(8) by (simp add: evaluate_checksum_iff)
  have d: "rx_data rx ! i # drop (Suc i) (rx_data rx) = drop i (rx_data rx)" if "i < 127" for i
    using that assms(6) by (simp add: Cons_nth_drop_Suc)
  have addr: "le32_bytes (get_memory_address_from_rx rx) = take 4 (drop 1 (rx_data rx))"
  proof -
    have "get_memory_address_from_rx rx = le32_word (rx_data rx ! 1) (rx_data rx ! 2) (rx_data rx ! 3) (rx_data rx ! 4)"
      by (simp add: get_memory_address_from_rx_def le32_word_def)
    moreover have "take 4 (drop 1 (rx_data rx)) = [rx_data rx ! 1, rx_data rx ! 2, rx_data rx ! 3, rx_data rx ! 4]"
      using d [of 1] d [of 2] d [of 3] d [of 4] by (simp add: take_Cons' numeral_eq_Suc flip: d)
    ultimately show ?thesis by simp
  qed
  have sum: "le32_bytes (get_checksum ?rc) = take 4 (drop 25 (rx_data rx))"
  proof -
    have "get_checksum ?rc = le32_word (rx_data rx ! 25) (rx_data rx ! 26) (rx_data rx ! 27) (rx_data rx ! 28)"
      using assms(6) by (simp add: get_checksum_le32)
    moreover have "take 4 (drop 25 (rx_data rx)) = [rx_data rx ! 25, rx_data rx ! 26, rx_data rx ! 27, rx_data rx ! 28]"
      using assms(6) by (intro nth_equalityI) (auto simp: less_Suc_eq numeral_eq_Suc)
    ultimately show ?thesis by simp
  qed
  from block_uploaded_good [OF _ assms(4,5) _ chk, of rx m] assms(7) obtain r f where
    1: "block_uploaded m rx s = map_option snd (put_sample m ?rc
        (s\<lparr>record_buf := ?rc, sample_ack_packet := ack_packet (get_memory_address_from_rx rx) (get_checksum ?rc),
           rf212_radif := r, hwst := interrupt_trigger (rf212_radif s) (hwst s)\<rparr>))"
      "tx_queue r = tx_queue (rf212_radif s) @ [f]"
      "sent_frame (ack_packet (get_memory_address_from_rx rx) (get_checksum ?rc)) (source_address rx) f"
    by (auto simp: MEMORY_RECORD_SIZE_def)
  from upload_store [OF assms(1-3) len refl, where r = r and p = "ack_packet (get_memory_address_from_rx rx) (get_checksum ?rc)"] obtain t' where
    2: "put_sample m ?rc (s\<lparr>record_buf := ?rc, sample_ack_packet := ack_packet (get_memory_address_from_rx rx) (get_checksum ?rc),
           rf212_radif := r, hwst := interrupt_trigger (rf212_radif s) (hwst s)\<rparr>) = Some (if mem_room s then 1 else 0, t')"
      "mem_ok ready capacity t'" "mem_queue blocks t' = (if mem_room s then mem_queue blocks s @ [?rc] else mem_queue blocks s)"
    by auto
  from put_sample_radio [OF 2(1)] have "rf212_radif t' = r" by simp
  with 1 2 show ?thesis by (auto simp: ack_packet_def addr sum)
qed

definition card_radif :: "rcard radif" where
  "card_radif = \<lparr>RxProduceIndex = 3, RxConsumeIndex = 1, TxConsumeIndex = 0, TxProduceIndex = 0,
     RxFrames = replicate 8 blank_rx, TxFrames = replicate 8 blank_tx, Command = 0, CommandOutput = 0,
     clkm_config = 0, auto_crc_gen = 0, promiscuous = 0, freq = 8683, power = 0, modulation = 9, pan_id = 0x1234,
     short_address = 0x0001, up = 0, seq = 7, rx_callback = Some Rf212_rx_callback, spi_start = (\<lambda>d. d),
     spi_stop = (\<lambda>d. d), spi_xfer = (\<lambda>_ d. Some (0, d)),
     slptr_set = (\<lambda>d. d), slptr_clear = (\<lambda>d. d), reset_set = (\<lambda>d. d), reset_clear = (\<lambda>d. d),
     delay_us = (\<lambda>_ d. Some d), interrupt_trigger = (\<lambda>d. d), rx_success_count = 0, rx_overflow = 0,
     tx_success_count = 0, tx_channel_fail = 0, tx_noack = 0, tx_invalid = 0, last_trac_status = 0\<rparr>"

definition sample_gateway :: "rcard gwst" where
  "sample_gateway = rxst.extend sample_rx \<lparr>record_buf = [], sample_ack_packet = [], rf212_radif = card_radif\<rparr>"

definition upload_frame :: rx_frame where
  "upload_frame = \<lparr>rx_data = [0x55, 8, 0, 0, 0] @ sample_record @ replicate 98 0, rx_length = 29, crc_status = 1,
     energy_detect = 40, source_address = 0x0102\<rparr>"

lemma sample_gateway_ok:
  "mem_ok card_ready 0x800000 sample_gateway" "mem_room sample_gateway"
  "tx_ok (rf212_radif sample_gateway)" "tx_room (rf212_radif sample_gateway)"
  "trigger_keeps card_ready store (interrupt_trigger (rf212_radif sample_gateway))"
  by (simp_all add: sample_gateway_def card_radif_def sample_rx_def sample_writer_def sample_clock_def sample_store_def
      rxst.defs writest.defs timest.defs memst.defs mem_ok_def card_size_ok_def is_block_valid_def disk_sectors_def
      card_ready_def blank_card_def mem_room_def mem_ring_def length_ring ring_dist_def tx_ok_def tx_room_def
      frame_next_def trigger_keeps_def)

theorem block_uploaded_stores_witness:
  "\<exists>s' f. block_uploaded card_mmio upload_frame sample_gateway = Some s' \<and>
    mem_queue store s' = mem_queue store sample_gateway @ [sample_record] \<and>
    tx_queue (rf212_radif s') = tx_queue (rf212_radif sample_gateway) @ [f] \<and>
    sent_frame (0x41 # [8, 0, 0, 0] @ drop 20 sample_record) 0x0102 f"
proof -
  have len: "length sample_record = 24" by (simp add: sample_record_def)
  have u: "take 24 (drop 5 (rx_data upload_frame)) = sample_record" "length (rx_data upload_frame) = FRAME_DATA"
    "unat (rx_length upload_frame) = 29" "source_address upload_frame = 0x0102"
    "take 4 (drop 1 (rx_data upload_frame)) = [8, 0, 0, 0]"
    by (simp_all add: upload_frame_def len)
  have v: "take 4 (drop 25 (rx_data upload_frame)) = drop 20 sample_record"
    by (simp add: upload_frame_def len)
  show ?thesis
    using block_uploaded_stores [OF rc.sd_card_axioms sample_gateway_ok(1,5,3,4) u(2)] sample_gateway_ok(2)
      sample_record_passes u(3)
    by (simp add: u v u(5) [simplified One_nat_def]) blast
qed

text \<open>
  Bad uploads have no effect (C34). A frame that is too short, or whose record fails its
  checksum, is neither stored nor acknowledged: no hardware access is made, and the store, the
  clock and both radio rings are as before.
\<close>

theorem block_uploaded_rejects:
  assumes "unat (rx_length rx) < 24 \<or> evaluate_checksum (take 24 (drop 5 (rx_data rx))) = CHECKSUM_FAIL"
  shows "\<exists>b. block_uploaded m rx s = Some (s\<lparr>record_buf := b\<rparr>)"
proof (cases "unat (rx_length rx) < 24")
  case True
  then show ?thesis
    by (intro exI [of _ "record_buf s"]) (simp add: block_uploaded_def MEMORY_RECORD_SIZE_def)
next
  case False
  with assms show ?thesis
    by (intro exI [of _ "take 24 (drop 5 (rx_data rx))"])
      (simp add: block_uploaded_def MEMORY_RECORD_SIZE_def evaluate_checksum_iff Let_def)
qed

theorem block_uploaded_rejects_witness:
  "\<exists>b. block_uploaded card_mmio (upload_frame\<lparr>rx_length := 23\<rparr>) sample_gateway = Some (sample_gateway\<lparr>record_buf := b\<rparr>)"
  by (rule block_uploaded_rejects) simp

section \<open>The time service\<close>

definition octets_nat :: "u8 list \<Rightarrow> nat" where
  "octets_nat bs = foldr (\<lambda>b n. unat b + 256 * n) bs 0"

lemma octets_nat_step:
  "n \<le> 7 \<Longrightarrow> unat (drop_bit (8 * n) (t :: u64)) = unat (ucast (drop_bit (8 * n) t AND 0xFF) :: u8) + 256 * unat (drop_bit (8 * Suc n) t)"
proof -
  have "unat (ucast (drop_bit (8 * n) t AND 0xFF) :: u8) = unat (drop_bit (8 * n) t) mod 256"
  proof -
    have ff: "0xFF = (mask 8 :: u64)" by (simp add: mask_eq_exp_minus_1)
    have "(ucast (drop_bit (8 * n) t AND 0xFF) :: u8) = ucast (drop_bit (8 * n) t)"
      unfolding ff by (rule bit_word_eqI) (auto simp only: bit_simps, simp_all)
    then show ?thesis by (simp add: unsigned_ucast_eq take_bit_eq_mod)
  qed
  moreover have "drop_bit (8 * Suc n) t = drop_bit 8 (drop_bit (8 * n) t)" by (simp add: add.commute)
  then have "unat (drop_bit (8 * Suc n) t) = unat (drop_bit (8 * n) t) div 256"
    by (simp add: unat_div drop_bit_eq_div)
  ultimately show ?thesis by simp
qed

lemma time_packet_value: "octets_nat (tl (time_packet t)) = unat t"
proof -
  have z: "unat (drop_bit (8 * Suc 7) t) = 0"
  proof -
    have "drop_bit 64 t = 0" by (rule bit_word_eqI) (simp add: bit_simps)
    then show ?thesis by simp
  qed
  have "octets_nat (tl (time_packet t)) = unat (drop_bit (8 * 0) t)"
    unfolding octets_nat_step [of 0 t, simplified] octets_nat_step [of 1 t, simplified]
    using octets_nat_step [of 0 t] octets_nat_step [of 1 t] octets_nat_step [of 2 t] octets_nat_step [of 3 t]
      octets_nat_step [of 4 t] octets_nat_step [of 5 t] octets_nat_step [of 6 t] octets_nat_step [of 7 t] z
    by (simp add: octets_nat_def time_packet_def)
  then show ?thesis by simp
qed

text \<open>
  The time service (C35). When the clock is valid and shows \<open>T1\<close>, a request for the time hands one
  frame to the radio for the requesting station: the letter T and eight octets that encode
  \<open>T1\<close>, lowest octet first. With an invalid clock nothing is sent.
\<close>

theorem time_request_answered:
  assumes "tx_ok (rf212_radif s)" and "tx_room (rf212_radif s)"
    and "rd m (TIM_TC 3) (hwst s) = (of_nat T1, d)" and "current_time s = of_nat T0"
    and "T0 \<le> T1" and "T1 < T0 + 2 ^ 32" and "T1 < 2 ^ 64"
  shows "\<exists>t. radio_timereq_frame m rx s = write_sample_to_mem m 0xF4000000 (ucast (energy_detect rx)) 0 0 t \<and>
    (if time_valid s \<noteq> 0 then
       \<exists>f octets. tx_queue (rf212_radif t) = tx_queue (rf212_radif s) @ [f] \<and>
         sent_frame (0x54 # octets) (source_address rx) f \<and> length octets = 8 \<and> octets_nat octets = T1
     else t = s)"
proof (cases "time_valid s \<noteq> 0")
  case True
  let ?s1 = "s\<lparr>hwst := d, current_time := of_nat T1\<rparr>"
  let ?s2 = "print_current_time m ?s1"
  have 1: "get_current_time m s = (of_nat T1, ?s1)"
    by (rule get_current_time_of_nat [OF assms(3-7)])
  have r: "rf212_radif ?s2 = rf212_radif s"
    by (simp add: print_current_time_def get_current_time_def Let_def split: prod.splits)
  from rf212_send_queue [of ?s2 "time_packet (of_nat T1)" 9 m "source_address rx"] assms(1,2) r obtain r' f where
    2: "rf212_send m (time_packet (of_nat T1)) 9 (source_address rx) 1 ?s2 =
        Some (?s2\<lparr>rf212_radif := r', hwst := interrupt_trigger (rf212_radif s) (hwst ?s2)\<rparr>)"
      "tx_queue r' = tx_queue (rf212_radif s) @ [f]" "sent_frame (time_packet (of_nat T1)) (source_address rx) f"
    by (auto simp: time_packet_def)
  have o: "time_packet (of_nat T1) = 0x54 # tl (time_packet (of_nat T1))" "length (tl (time_packet (of_nat T1))) = 8"
    by (simp_all add: time_packet_def)
  have v: "octets_nat (tl (time_packet (of_nat T1))) = T1"
    using time_packet_value [of "of_nat T1"] assms(7) by (simp add: unat_of_nat_small)
  show ?thesis
    using True 1 2 o v
    by (intro exI [of _ "?s2\<lparr>rf212_radif := r', hwst := interrupt_trigger (rf212_radif s) (hwst ?s2)\<rparr>"])
      (auto simp: radio_timereq_frame_def is_time_valid_def Let_def intro!: exI [of _ f] exI [of _ "tl (time_packet (of_nat T1))"])
next
  case False
  then show ?thesis by (auto simp: radio_timereq_frame_def is_time_valid_def Let_def)
qed

theorem time_request_answered_witness:
  "\<exists>t f octets. radio_timereq_frame card_mmio upload_frame (sample_gateway\<lparr>hwst := blank_card\<lparr>tcount := 4\<rparr>\<rparr>) =
      write_sample_to_mem card_mmio 0xF4000000 40 0 0 t \<and>
    tx_queue (rf212_radif t) = tx_queue (rf212_radif sample_gateway) @ [f] \<and>
    sent_frame (0x54 # octets) 0x0102 f \<and> octets_nat octets = 0x100000004"
proof -
  let ?s = "sample_gateway\<lparr>hwst := blank_card\<lparr>tcount := 4\<rparr>\<rparr>"
  have u: "energy_detect upload_frame = 40" "source_address upload_frame = 0x0102"
    by (simp_all add: upload_frame_def)
  have v: "current_time ?s = of_nat 0xFFFFFFF0" "time_valid ?s = 1" "hwst ?s = blank_card\<lparr>tcount := 4\<rparr>"
      "rf212_radif ?s = rf212_radif sample_gateway"
      "rd card_mmio (TIM_TC 3) (blank_card\<lparr>tcount := 4\<rparr>) = (of_nat 0x100000004, blank_card\<lparr>tcount := 5\<rparr>)"
    by (simp_all add: sample_gateway_def sample_rx_def sample_writer_def sample_clock_def sample_store_def
        rxst.defs writest.defs timest.defs memst.defs card_mmio_def card_rd_def blank_card_def)
  have "\<exists>t. radio_timereq_frame card_mmio upload_frame ?s = write_sample_to_mem card_mmio 0xF4000000 (ucast (energy_detect upload_frame)) 0 0 t \<and>
    (if time_valid ?s \<noteq> 0 then
       \<exists>f octets. tx_queue (rf212_radif t) = tx_queue (rf212_radif ?s) @ [f] \<and>
         sent_frame (0x54 # octets) (source_address upload_frame) f \<and> length octets = 8 \<and> octets_nat octets = 0x100000004
     else t = ?s)"
    by (rule time_request_answered [where d = "blank_card\<lparr>tcount := 5\<rparr>" and ?T0.0 = "0xFFFFFFF0"])
      (simp_all only: v sample_gateway_ok, simp_all)
  then show ?thesis using v(2,4) by (auto simp: u)
qed

end
