(* ===== verification/Lwip_Timers.thy ===== *)
theory Lwip_Timers
  imports Radio_Service
begin

text \<open>
  The timers of the network stack, \<open>src/src/lwip/core/timers.c\<close>, with the millisecond counter
  of \<open>src/src/lwip/arch/lpc_arch_systick.c\<close>. Pending timeouts form a list in which every entry
  holds the time after its predecessor. The state adds the stack's globals to the gateway's;
  the part of the stack that is not modelled lives in the component \<open>net\<close>.
\<close>

section \<open>Globals\<close>

text \<open>The functions of the program that are passed to \<open>sys_timeout\<close>.\<close>

datatype sys_timeout_handler =
  Tcpip_tcp_timer | Ip_reass_timer | Arp_timer | Dhcp_timer_coarse | Dhcp_timer_fine | Dns_timer
| Sntp_request | Sntp_retry

record sys_timeo =
  timeo_time :: u32
  timeo_h :: sys_timeout_handler
  timeo_arg :: nat

record ('d, 'n) lwipst = "'d gwst" +
  net :: 'n
  next_timeout :: "sys_timeo list"
  timeouts_last_time :: u32
  tcpip_tcp_timer_active :: int
  msTicks :: u32

definition MEMP_NUM_SYS_TIMEOUT :: nat where "MEMP_NUM_SYS_TIMEOUT = 300"
definition TCP_TMR_INTERVAL :: u32 where "TCP_TMR_INTERVAL = 250"
definition IP_TMR_INTERVAL :: u32 where "IP_TMR_INTERVAL = 1000"
definition ARP_TMR_INTERVAL :: u32 where "ARP_TMR_INTERVAL = 5000"
definition DHCP_COARSE_TIMER_MSECS :: u32 where "DHCP_COARSE_TIMER_MSECS = 60 * 1000"
definition DHCP_FINE_TIMER_MSECS :: u32 where "DHCP_FINE_TIMER_MSECS = 500"
definition DNS_TMR_INTERVAL :: u32 where "DNS_TMR_INTERVAL = 1000"

definition LWIP_U32_DIFF :: "u32 \<Rightarrow> u32 \<Rightarrow> u32" where
  "LWIP_U32_DIFF a b = (if a \<ge> b then a - b else a + (b XOR 0xFFFFFFFF) + 1)"

section \<open>The millisecond counter\<close>

definition SysTick_Handler :: "('d, 'n, 'z) lwipst_scheme \<Rightarrow> ('d, 'n, 'z) lwipst_scheme" where
  "SysTick_Handler s = s\<lparr>msTicks := msTicks s + 1\<rparr>"

definition SysTick_GetMS :: "('d, 'n, 'z) lwipst_scheme \<Rightarrow> u32" where
  "SysTick_GetMS s = msTicks s"

definition sys_now :: "('d, 'n, 'z) lwipst_scheme \<Rightarrow> u32" where
  "sys_now s = SysTick_GetMS s"

section \<open>Setting and removing timeouts\<close>

text \<open>The loop of \<open>sys_timeout\<close>, from the entry \<open>t\<close> on.\<close>

fun insert_after :: "sys_timeo \<Rightarrow> sys_timeo list \<Rightarrow> sys_timeo list" where
  "insert_after timeout [] = []"
| "insert_after timeout (t # ts) =
     (let timeout = timeout\<lparr>timeo_time := timeo_time timeout - timeo_time t\<rparr>
      in case ts of
           [] \<Rightarrow> [t, timeout]
         | u # us \<Rightarrow>
             if timeo_time u > timeo_time timeout
             then t # timeout # u\<lparr>timeo_time := timeo_time u - timeo_time timeout\<rparr> # us
             else t # insert_after timeout ts)"

definition link_timeout :: "sys_timeo \<Rightarrow> sys_timeo list \<Rightarrow> sys_timeo list" where
  "link_timeout timeout ts =
     (case ts of
        [] \<Rightarrow> [timeout]
      | t # ts' \<Rightarrow>
          if timeo_time t > timeo_time timeout
          then timeout # t\<lparr>timeo_time := timeo_time t - timeo_time timeout\<rparr> # ts'
          else insert_after timeout ts)"

text \<open>
  The entries come from a pool of 300. With the pool empty the assertion holds the program for
  ever.
\<close>

definition sys_timeout ::
  "u32 \<Rightarrow> sys_timeout_handler \<Rightarrow> nat \<Rightarrow> ('d, 'n, 'z) lwipst_scheme \<Rightarrow> ('d, 'n, 'z) lwipst_scheme option" where
  "sys_timeout msecs handler arg s =
     (if length (next_timeout s) \<ge> MEMP_NUM_SYS_TIMEOUT then None
      else Some (s\<lparr>next_timeout :=
        link_timeout \<lparr>timeo_time = msecs, timeo_h = handler, timeo_arg = arg\<rparr> (next_timeout s)\<rparr>))"

fun unlink_timeout :: "sys_timeout_handler \<Rightarrow> nat \<Rightarrow> sys_timeo list \<Rightarrow> sys_timeo list" where
  "unlink_timeout handler arg [] = []"
| "unlink_timeout handler arg (t # ts) =
     (if timeo_h t = handler \<and> timeo_arg t = arg then
        (case ts of [] \<Rightarrow> [] | u # us \<Rightarrow> u\<lparr>timeo_time := timeo_time u + timeo_time t\<rparr> # us)
      else t # unlink_timeout handler arg ts)"

definition sys_untimeout ::
  "sys_timeout_handler \<Rightarrow> nat \<Rightarrow> ('d, 'n, 'z) lwipst_scheme \<Rightarrow> ('d, 'n, 'z) lwipst_scheme" where
  "sys_untimeout handler arg s = s\<lparr>next_timeout := unlink_timeout handler arg (next_timeout s)\<rparr>"

section \<open>Running timeouts\<close>

text \<open>
  The loop of \<open>sys_check_timeouts\<close>; \<open>call\<close> runs a handler. It reads the first entry without a
  test, so that it fails on an empty list.
\<close>

partial_function (option) check_loop ::
  "(sys_timeout_handler \<Rightarrow> nat \<Rightarrow> ('d, 'n, 'z) lwipst_scheme \<Rightarrow> ('d, 'n, 'z) lwipst_scheme option) \<Rightarrow>
   u32 \<Rightarrow> u32 \<Rightarrow> ('d, 'n, 'z) lwipst_scheme \<Rightarrow> ('d, 'n, 'z) lwipst_scheme option" where
  "check_loop call now diff s =
     (case next_timeout s of
        [] \<Rightarrow> None
      | t # ts \<Rightarrow>
          if timeo_time t \<le> diff then
            do { s \<leftarrow> call (timeo_h t) (timeo_arg t) (s\<lparr>timeouts_last_time := now, next_timeout := ts\<rparr>);
                 check_loop call now (diff - timeo_time t) s }
          else Some s)"

definition sys_check_timeouts ::
  "(sys_timeout_handler \<Rightarrow> nat \<Rightarrow> ('d, 'n, 'z) lwipst_scheme \<Rightarrow> ('d, 'n, 'z) lwipst_scheme option) \<Rightarrow>
   ('d, 'n, 'z) lwipst_scheme \<Rightarrow> ('d, 'n, 'z) lwipst_scheme option" where
  "sys_check_timeouts call s =
     (let now = sys_now s
      in if next_timeout s \<noteq> [] then check_loop call now (LWIP_U32_DIFF now (timeouts_last_time s)) s
         else Some s)"

definition sys_restart_timeouts :: "('d, 'n, 'z) lwipst_scheme \<Rightarrow> ('d, 'n, 'z) lwipst_scheme" where
  "sys_restart_timeouts s = s\<lparr>timeouts_last_time := sys_now s\<rparr>"

definition sys_timeouts_init :: "('d, 'n, 'z) lwipst_scheme \<Rightarrow> ('d, 'n, 'z) lwipst_scheme option" where
  "sys_timeouts_init s =
     do { s \<leftarrow> sys_timeout IP_TMR_INTERVAL Ip_reass_timer 0 s;
          s \<leftarrow> sys_timeout ARP_TMR_INTERVAL Arp_timer 0 s;
          s \<leftarrow> sys_timeout DHCP_COARSE_TIMER_MSECS Dhcp_timer_coarse 0 s;
          s \<leftarrow> sys_timeout DHCP_FINE_TIMER_MSECS Dhcp_timer_fine 0 s;
          s \<leftarrow> sys_timeout DNS_TMR_INTERVAL Dns_timer 0 s;
          Some (s\<lparr>timeouts_last_time := sys_now s\<rparr>) }"

section \<open>The stack's own timers\<close>

text \<open>
  \<open>tmr\<close> stands for the protocol's timer function, \<open>pcbs\<close> for
  \<open>tcp_active_pcbs || tcp_tw_pcbs\<close>.
\<close>

definition tcpip_tcp_timer ::
  "(('d, 'n, 'z) lwipst_scheme \<Rightarrow> ('d, 'n, 'z) lwipst_scheme option) \<Rightarrow> ('n \<Rightarrow> bool) \<Rightarrow>
   ('d, 'n, 'z) lwipst_scheme \<Rightarrow> ('d, 'n, 'z) lwipst_scheme option" where
  "tcpip_tcp_timer tcp_tmr pcbs s =
     do { s \<leftarrow> tcp_tmr s;
          if pcbs (net s) then sys_timeout TCP_TMR_INTERVAL Tcpip_tcp_timer 0 s
          else Some (s\<lparr>tcpip_tcp_timer_active := 0\<rparr>) }"

definition tcp_timer_needed ::
  "('n \<Rightarrow> bool) \<Rightarrow> ('d, 'n, 'z) lwipst_scheme \<Rightarrow> ('d, 'n, 'z) lwipst_scheme option" where
  "tcp_timer_needed pcbs s =
     (if tcpip_tcp_timer_active s = 0 \<and> pcbs (net s)
      then sys_timeout TCP_TMR_INTERVAL Tcpip_tcp_timer 0 (s\<lparr>tcpip_tcp_timer_active := 1\<rparr>)
      else Some s)"

definition ip_reass_timer where
  "ip_reass_timer ip_reass_tmr s = do { s \<leftarrow> ip_reass_tmr s; sys_timeout IP_TMR_INTERVAL Ip_reass_timer 0 s }"

definition arp_timer where
  "arp_timer etharp_tmr s = do { s \<leftarrow> etharp_tmr s; sys_timeout ARP_TMR_INTERVAL Arp_timer 0 s }"

definition dhcp_timer_coarse where
  "dhcp_timer_coarse dhcp_coarse_tmr s =
     do { s \<leftarrow> dhcp_coarse_tmr s; sys_timeout DHCP_COARSE_TIMER_MSECS Dhcp_timer_coarse 0 s }"

definition dhcp_timer_fine where
  "dhcp_timer_fine dhcp_fine_tmr s =
     do { s \<leftarrow> dhcp_fine_tmr s; sys_timeout DHCP_FINE_TIMER_MSECS Dhcp_timer_fine 0 s }"

definition dns_timer where
  "dns_timer dns_tmr s = do { s \<leftarrow> dns_tmr s; sys_timeout DNS_TMR_INTERVAL Dns_timer 0 s }"

section \<open>Deadlines\<close>

text \<open>
  The list read as absolute times: every entry with the time until it is due, counted from
  the last time the list was run. In these terms a timeout is sorted in behind those that
  are due no later, and the first match is taken out.
\<close>

type_synonym deadline = "nat \<times> sys_timeout_handler \<times> nat"

fun deadlines :: "nat \<Rightarrow> sys_timeo list \<Rightarrow> deadline list" where
  "deadlines b [] = []"
| "deadlines b (t # ts) =
     (b + unat (timeo_time t), timeo_h t, timeo_arg t) # deadlines (b + unat (timeo_time t)) ts"

fun set_deadline :: "deadline \<Rightarrow> deadline list \<Rightarrow> deadline list" where
  "set_deadline x [] = [x]"
| "set_deadline x (y # ys) = (if fst y \<le> fst x then y # set_deadline x ys else x # y # ys)"

fun cancel_deadline :: "sys_timeout_handler \<Rightarrow> nat \<Rightarrow> deadline list \<Rightarrow> deadline list" where
  "cancel_deadline h a [] = []"
| "cancel_deadline h a (y # ys) = (if snd y = (h, a) then ys else y # cancel_deadline h a ys)"

lemma unat_sub_le: "(a :: u32) \<le> b \<Longrightarrow> unat (b - a) = unat b - unat a"
  by (simp add: word_le_nat_alt unat_sub)

lemma deadlines_insert_after:
  assumes "timeo_time t \<le> timeo_time n"
  shows "deadlines b (insert_after n (t # ts)) =
    set_deadline (b + unat (timeo_time n), timeo_h n, timeo_arg n) (deadlines b (t # ts))"
  using assms
proof (induction ts arbitrary: t n b)
  case Nil
  then show ?case by (simp add: unat_sub_le word_le_nat_alt Let_def)
next
  case (Cons u us)
  let ?n = "n\<lparr>timeo_time := timeo_time n - timeo_time t\<rparr>"
  have d: "unat (timeo_time ?n) = unat (timeo_time n) - unat (timeo_time t)" "unat (timeo_time t) \<le> unat (timeo_time n)"
    using Cons.prems by (simp_all add: unat_sub_le word_le_nat_alt)
  show ?case
  proof (cases "timeo_time u > timeo_time ?n")
    case True
    then have "timeo_time ?n \<le> timeo_time u" "unat (timeo_time ?n) < unat (timeo_time u)"
      by (simp_all add: word_less_nat_alt word_le_nat_alt)
    then have "unat (timeo_time u - timeo_time ?n) = unat (timeo_time u) - unat (timeo_time ?n)"
      by (intro unat_sub_le)
    moreover have "unat (timeo_time n) < unat (timeo_time t) + unat (timeo_time u)"
      using d \<open>unat (timeo_time ?n) < unat (timeo_time u)\<close> by linarith
    ultimately show ?thesis using True d by (simp add: Let_def add.commute add.left_commute)
  next
    case False
    then have "timeo_time u \<le> timeo_time ?n" by simp
    note IH = Cons.IH [OF this, of "b + unat (timeo_time t)"]
    have "insert_after n (t # u # us) = t # insert_after ?n (u # us)" using False by (simp add: Let_def)
    then have "deadlines b (insert_after n (t # u # us)) =
        (b + unat (timeo_time t), timeo_h t, timeo_arg t) # deadlines (b + unat (timeo_time t)) (insert_after ?n (u # us))"
      by (simp del: insert_after.simps)
    also have "\<dots> = set_deadline (b + unat (timeo_time n), timeo_h n, timeo_arg n) (deadlines b (t # u # us))"
      unfolding IH using d by simp
    finally show ?thesis .
  qed
qed

lemma deadlines_link:
  "deadlines 0 (link_timeout n ts) = set_deadline (unat (timeo_time n), timeo_h n, timeo_arg n) (deadlines 0 ts)"
proof (cases ts)
  case (Cons t ts')
  show ?thesis
  proof (cases "timeo_time t > timeo_time n")
    case True
    then have "unat (timeo_time t - timeo_time n) = unat (timeo_time t) - unat (timeo_time n)"
      "unat (timeo_time n) < unat (timeo_time t)"
      using unat_sub_le [of "timeo_time n" "timeo_time t"] by (simp_all add: word_less_nat_alt word_le_nat_alt)
    with True Cons show ?thesis by (simp add: link_timeout_def)
  next
    case False
    with Cons deadlines_insert_after [of t n 0 ts'] show ?thesis by (simp add: link_timeout_def)
  qed
qed (simp add: link_timeout_def)

lemma deadlines_unlink:
  "\<forall>x \<in> set (deadlines b ts). fst x < 2 ^ 32 \<Longrightarrow> deadlines b (unlink_timeout h a ts) = cancel_deadline h a (deadlines b ts)"
proof (induction ts arbitrary: b)
  case (Cons t ts)
  have IH: "deadlines (b + unat (timeo_time t)) (unlink_timeout h a ts) = cancel_deadline h a (deadlines (b + unat (timeo_time t)) ts)"
    by (rule Cons.IH) (use Cons.prems in simp)
  show ?case
  proof (cases "timeo_h t = h \<and> timeo_arg t = a")
    case match: True
    show ?thesis
    proof (cases ts)
      case (Cons u us)
      then have "unat (timeo_time u) + unat (timeo_time t) < 2 ^ 32" using \<open>\<forall>x \<in> set (deadlines b (t # ts)). fst x < 2 ^ 32\<close> by simp
      then have "unat (timeo_time u + timeo_time t) = unat (timeo_time u) + unat (timeo_time t)"
        by (simp add: unat_add_lem [THEN iffD1])
      with match Cons show ?thesis by (simp add: add.commute add.left_commute)
    qed (use match in simp)
  qed (use IH in auto)
qed simp

lemma set_deadline_bound: "\<forall>x \<in> set ds. fst x < B \<Longrightarrow> fst d < B \<Longrightarrow> \<forall>x \<in> set (set_deadline d ds). fst x < (B :: nat)"
  by (induction ds) auto

lemma cancel_deadline_bound: "\<forall>x \<in> set ds. fst x < B \<Longrightarrow> \<forall>x \<in> set (cancel_deadline h a ds). fst x < (B :: nat)"
  by (induction ds) auto

datatype timeout_op = Set_timeout u32 sys_timeout_handler nat | Cancel_timeout sys_timeout_handler nat

fun apply_timeouts :: "timeout_op list \<Rightarrow> ('d, 'n, 'z) lwipst_scheme \<Rightarrow> ('d, 'n, 'z) lwipst_scheme option" where
  "apply_timeouts [] s = Some s"
| "apply_timeouts (Set_timeout ms h a # ops) s = do { s \<leftarrow> sys_timeout ms h a s; apply_timeouts ops s }"
| "apply_timeouts (Cancel_timeout h a # ops) s = apply_timeouts ops (sys_untimeout h a s)"

fun apply_deadlines :: "timeout_op list \<Rightarrow> deadline list \<Rightarrow> deadline list" where
  "apply_deadlines [] ds = ds"
| "apply_deadlines (Set_timeout ms h a # ops) ds = apply_deadlines ops (set_deadline (unat ms, h, a) ds)"
| "apply_deadlines (Cancel_timeout h a # ops) ds = apply_deadlines ops (cancel_deadline h a ds)"

lemma length_deadlines [simp]: "length (deadlines b ts) = length ts"
  by (induction ts arbitrary: b) simp_all

lemma length_set_deadline [simp]: "length (set_deadline d ds) = Suc (length ds)"
  by (induction ds) simp_all

lemma length_link [simp]: "length (link_timeout n ts) = Suc (length ts)"
  using arg_cong [OF deadlines_link [of n ts], of length] by simp

lemma length_unlink: "length (unlink_timeout h a ts) \<le> length ts"
  by (induction ts) (auto split: list.splits)

lemma apply_timeouts_ok:
  assumes "\<forall>x \<in> set (deadlines 0 (next_timeout s)). fst x < 2 ^ 32" "length (next_timeout s) + length ops \<le> MEMP_NUM_SYS_TIMEOUT"
  shows "\<exists>s'. apply_timeouts ops s = Some s' \<and>
    deadlines 0 (next_timeout s') = apply_deadlines ops (deadlines 0 (next_timeout s))"
  using assms
proof (induction ops arbitrary: s)
  case (Cons op ops)
  show ?case
  proof (cases op)
    case (Set_timeout ms h a)
    let ?s = "s\<lparr>next_timeout := link_timeout \<lparr>timeo_time = ms, timeo_h = h, timeo_arg = a\<rparr> (next_timeout s)\<rparr>"
    have b: "unat ms < 2 ^ 32" using unsigned_less [of ms, where 'a = nat] by simp
    have "\<forall>x \<in> set (deadlines 0 (next_timeout ?s)). fst x < 2 ^ 32"
      using set_deadline_bound [OF Cons.prems(1), of "(unat ms, h, a)"] b by (simp add: deadlines_link)
    from Cons.IH [OF this] Cons.prems(2) Set_timeout show ?thesis by (simp add: sys_timeout_def deadlines_link)
  next
    case (Cancel_timeout h a)
    have d: "deadlines 0 (unlink_timeout h a (next_timeout s)) = cancel_deadline h a (deadlines 0 (next_timeout s))"
      by (rule deadlines_unlink [OF Cons.prems(1)])
    have "\<forall>x \<in> set (deadlines 0 (next_timeout (sys_untimeout h a s))). fst x < 2 ^ 32"
      using cancel_deadline_bound [OF Cons.prems(1), of h a] by (simp add: sys_untimeout_def d)
    from Cons.IH [OF this] Cons.prems(2) Cancel_timeout length_unlink [of h a "next_timeout s"] d show ?thesis
      by (simp add: sys_untimeout_def)
  qed
qed simp

section \<open>Due timeouts\<close>

lemma deadlines_shift: "deadlines (b + c) ts = map (\<lambda>x. (b + fst x, snd x)) (deadlines c ts)"
  by (induction ts arbitrary: c) (simp_all add: add.assoc)

lemma sum_set_deadline: "sum_list (map f (set_deadline d ds)) = f d + (sum_list (map f ds) :: nat)"
  by (induction ds) simp_all

lemma set_set_deadline [simp]: "set (set_deadline d ds) = insert d (set ds)"
  by (induction ds) auto

lemma sorted_set_deadline: "sorted (map fst ds) \<Longrightarrow> sorted (map fst (set_deadline d ds))"
  by (induction ds) auto

lemma sorted_deadlines: "sorted (map fst (deadlines b ts))"
proof (induction ts arbitrary: b)
  case (Cons t ts)
  have "\<forall>x \<in> set (deadlines c ts). c \<le> fst x" for c by (induction ts arbitrary: c) force+
  with Cons show ?case by simp
qed simp

text \<open>
  How often an entry can run when \<open>diff\<close> milliseconds have passed and every timeout set by a
  handler takes at least 250: the measure for the loop.
\<close>

definition runs :: "nat \<Rightarrow> deadline \<Rightarrow> nat" where
  "runs diff x = (if fst x \<le> diff then (diff - fst x) div 250 + 1 else 0)"

definition all_runs :: "nat \<Rightarrow> sys_timeo list \<Rightarrow> nat" where
  "all_runs diff ts = sum_list (map (runs diff) (deadlines 0 ts))"

lemma runs_shift: "c \<le> diff \<Longrightarrow> runs diff (c + fst x, snd x) = runs (diff - c) x"
  by (auto simp: runs_def)

lemma all_runs_Cons:
  assumes "unat (timeo_time t) \<le> diff"
  shows "all_runs diff (t # ts) = (diff - unat (timeo_time t)) div 250 + 1 + all_runs (diff - unat (timeo_time t)) ts"
proof -
  have "all_runs diff (t # ts) = runs diff (unat (timeo_time t), timeo_h t, timeo_arg t) +
      sum_list (map (runs diff) (deadlines (unat (timeo_time t) + 0) ts))"
    by (simp add: all_runs_def)
  also have "sum_list (map (runs diff) (deadlines (unat (timeo_time t) + 0) ts)) = all_runs (diff - unat (timeo_time t)) ts"
    unfolding deadlines_shift all_runs_def using assms by (simp add: runs_shift comp_def)
  finally show ?thesis using assms by (simp add: runs_def)
qed

lemma all_runs_link:
  assumes "250 \<le> unat (timeo_time n)"
  shows "all_runs diff (link_timeout n ts) \<le> diff div 250 + all_runs diff ts"
proof -
  have "runs diff (unat (timeo_time n), timeo_h n, timeo_arg n) \<le> diff div 250"
  proof (cases "unat (timeo_time n) \<le> diff")
    case True
    then have "(diff - unat (timeo_time n)) div 250 \<le> (diff - 250) div 250" using assms by (intro div_le_mono) simp
    moreover have "(diff - 250) div 250 + 1 = diff div 250" using True assms by (simp add: le_div_geq)
    ultimately show ?thesis using True by (simp add: runs_def)
  qed (simp add: runs_def)
  then show ?thesis by (simp add: all_runs_def deadlines_link sum_set_deadline)
qed

text \<open>
  What the loop relies on: a handler returns and sets at most one new timeout, of 250
  milliseconds or more; the handlers in \<open>P\<close> always set one for a handler in \<open>P\<close>.
\<close>

definition rearms ::
  "(sys_timeout_handler \<Rightarrow> bool) \<Rightarrow>
   (sys_timeout_handler \<Rightarrow> nat \<Rightarrow> ('d, 'n, 'z) lwipst_scheme \<Rightarrow> ('d, 'n, 'z) lwipst_scheme option) \<Rightarrow> bool" where
  "rearms P call \<longleftrightarrow>
     (\<forall>h a s. length (next_timeout s) < MEMP_NUM_SYS_TIMEOUT \<longrightarrow>
        (\<exists>s'. call h a s = Some s' \<and>
           (\<not> P h \<and> next_timeout s' = next_timeout s \<or>
            (\<exists>n. 250 \<le> unat (timeo_time n) \<and> (P h \<longrightarrow> P (timeo_h n)) \<and>
                 next_timeout s' = link_timeout n (next_timeout s)))))"

definition has_handler :: "(sys_timeout_handler \<Rightarrow> bool) \<Rightarrow> sys_timeo list \<Rightarrow> bool" where
  "has_handler P ts \<longleftrightarrow> (\<exists>x \<in> set (deadlines 0 ts). P (fst (snd x)))"

lemma has_handler_Cons: "has_handler P (t # ts) \<longleftrightarrow> P (timeo_h t) \<or> has_handler P ts"
proof -
  have "deadlines (unat (timeo_time t)) ts = map (\<lambda>x. (unat (timeo_time t) + fst x, snd x)) (deadlines 0 ts)"
    using deadlines_shift [of "unat (timeo_time t)" 0 ts] by simp
  then show ?thesis by (auto simp: has_handler_def)
qed

lemma has_handler_link: "has_handler P (link_timeout n ts) \<longleftrightarrow> P (timeo_h n) \<or> has_handler P ts"
  by (auto simp: has_handler_def deadlines_link)

lemma check_loop_returns:
  assumes "rearms P call"
  shows "has_handler P (next_timeout s) \<Longrightarrow> length (next_timeout s) \<le> MEMP_NUM_SYS_TIMEOUT \<Longrightarrow>
    \<exists>s' r. check_loop call now diff s = Some s' \<and> has_handler P (next_timeout s') \<and>
      length (next_timeout s') \<le> MEMP_NUM_SYS_TIMEOUT \<and>
      (\<forall>x \<in> set (deadlines 0 (next_timeout s')). unat r < fst x) \<and> r \<le> diff"
proof (induction "all_runs (unat diff) (next_timeout s)" arbitrary: diff s rule: less_induct)
  case less
  then obtain t ts where ts: "next_timeout s = t # ts" by (cases "next_timeout s") (auto simp: has_handler_def)
  show ?case
  proof (cases "timeo_time t \<le> diff")
    case False
    then have "check_loop call now diff s = Some s" by (simp add: check_loop.simps ts)
    moreover have "unat diff < fst x" if "x \<in> set (deadlines 0 (next_timeout s))" for x
      using that sorted_deadlines [of 0 "next_timeout s"] False ts by (force simp: word_less_nat_alt not_le)
    ultimately show ?thesis using less.prems by blast
  next
    case True
    let ?s1 = "s\<lparr>timeouts_last_time := now, next_timeout := ts\<rparr>"
    let ?diff = "diff - timeo_time t"
    have d: "unat ?diff = unat diff - unat (timeo_time t)" "unat (timeo_time t) \<le> unat diff"
      using True by (simp_all add: unat_sub_le word_le_nat_alt)
    have "length (next_timeout ?s1) < MEMP_NUM_SYS_TIMEOUT" using less.prems(2) ts by simp
    with assms [unfolded rearms_def] obtain s2 where
      2: "call (timeo_h t) (timeo_arg t) ?s1 = Some s2"
        "\<not> P (timeo_h t) \<and> next_timeout s2 = ts \<or>
         (\<exists>n. 250 \<le> unat (timeo_time n) \<and> (P (timeo_h t) \<longrightarrow> P (timeo_h n)) \<and> next_timeout s2 = link_timeout n ts)"
      by fastforce
    have "all_runs (unat ?diff) (next_timeout s2) \<le> unat ?diff div 250 + all_runs (unat ?diff) ts"
      using 2(2) all_runs_link by fastforce
    then have "all_runs (unat ?diff) (next_timeout s2) < all_runs (unat diff) (next_timeout s)"
      unfolding ts all_runs_Cons [OF d(2)] d(1) by simp
    moreover have "has_handler P (next_timeout s2)" "length (next_timeout s2) \<le> MEMP_NUM_SYS_TIMEOUT"
      using 2(2) less.prems ts by (auto simp: has_handler_Cons has_handler_link)
    ultimately obtain s' r where
      3: "check_loop call now ?diff s2 = Some s'" "has_handler P (next_timeout s')" "length (next_timeout s') \<le> MEMP_NUM_SYS_TIMEOUT"
        "\<forall>x \<in> set (deadlines 0 (next_timeout s')). unat r < fst x" "r \<le> ?diff"
      using less.hyps [of ?diff s2] by blast
    have "check_loop call now diff s = Some s'" using 2(1) 3(1) True by (simp add: check_loop.simps [of _ _ diff] ts)
    moreover have "r \<le> diff" using 3(5) d by (simp add: word_le_nat_alt)
    ultimately show ?thesis using 3(2-4) by blast
  qed
qed

lemma LWIP_U32_DIFF_minus: "LWIP_U32_DIFF a b = a - b"
proof -
  have "(0xFFFFFFFF :: u32) = - 1" by simp
  then have "b XOR 0xFFFFFFFF = - 1 - b" by (simp only: bit.xor_one_right not_eq_complement) simp
  then show ?thesis by (simp add: LWIP_U32_DIFF_def)
qed

section \<open>Properties\<close>

text \<open>
  The list of timeouts is a list of deadlines (C21). After any sequence of \<open>sys_timeout\<close> and
  \<open>sys_untimeout\<close> the times of the entries, added up, are what sorted insertion and removal of
  absolute times give: each timeout is due after the milliseconds it was set for, those set
  for the same time are due in the order they were set in, and no sum wraps.
\<close>

theorem timeouts_refine_deadlines:
  assumes "next_timeout s = []" and "length ops \<le> MEMP_NUM_SYS_TIMEOUT"
  shows "\<exists>s'. apply_timeouts ops s = Some s' \<and>
    deadlines 0 (next_timeout s') = apply_deadlines ops [] \<and> sorted (map fst (deadlines 0 (next_timeout s')))"
  using apply_timeouts_ok [of s ops] assms sorted_deadlines by fastforce

definition sample_net :: "(rcard, unit) lwipst" where
  "sample_net = gwst.extend sample_gateway \<lparr>net = (), next_timeout = [], timeouts_last_time = 0,
     tcpip_tcp_timer_active = 0, msTicks = 0\<rparr>"

theorem timeouts_refine_deadlines_witness:
  "\<exists>s'. apply_timeouts [Set_timeout 5000 Arp_timer 0, Set_timeout 500 Dhcp_timer_fine 0, Set_timeout 3000 Sntp_retry 0,
      Cancel_timeout Dhcp_timer_fine 0, Set_timeout 5000 Sntp_request 0] sample_net = Some s' \<and>
    deadlines 0 (next_timeout s') = [(3000, Sntp_retry, 0), (5000, Arp_timer, 0), (5000, Sntp_request, 0)]"
proof -
  have "next_timeout sample_net = []" by (simp add: sample_net_def gwst.defs)
  from timeouts_refine_deadlines [OF this, of "[Set_timeout 5000 Arp_timer 0, Set_timeout 500 Dhcp_timer_fine 0,
      Set_timeout 3000 Sntp_retry 0, Cancel_timeout Dhcp_timer_fine 0, Set_timeout 5000 Sntp_request 0]"]
  show ?thesis by (simp add: MEMP_NUM_SYS_TIMEOUT_def del: apply_timeouts.simps) blast
qed


text \<open>The stack's periodic timers, with timer functions that return and do not use timeouts.\<close>

definition periodic :: "sys_timeout_handler \<Rightarrow> nat \<Rightarrow> (rcard, unit) lwipst \<Rightarrow> (rcard, unit) lwipst option" where
  "periodic h a s =
     (case h of
        Tcpip_tcp_timer \<Rightarrow> tcpip_tcp_timer Some (\<lambda>_. False) s
      | Ip_reass_timer \<Rightarrow> ip_reass_timer Some s
      | Arp_timer \<Rightarrow> arp_timer Some s
      | Dhcp_timer_coarse \<Rightarrow> dhcp_timer_coarse Some s
      | Dhcp_timer_fine \<Rightarrow> dhcp_timer_fine Some s
      | Dns_timer \<Rightarrow> dns_timer Some s
      | _ \<Rightarrow> Some s)"

lemmas periodic_defs = periodic_def tcpip_tcp_timer_def ip_reass_timer_def arp_timer_def dhcp_timer_coarse_def
  dhcp_timer_fine_def dns_timer_def sys_timeout_def IP_TMR_INTERVAL_def ARP_TMR_INTERVAL_def
  DHCP_COARSE_TIMER_MSECS_def DHCP_FINE_TIMER_MSECS_def DNS_TMR_INTERVAL_def

lemma periodic_rearms: "rearms (\<lambda>h. h = Arp_timer) periodic"
  unfolding rearms_def by (intro allI impI) (auto simp: periodic_defs split: sys_timeout_handler.split intro!: exI)


text \<open>
  The time that has passed beyond the last entry run is forgotten: with two entries of which
  the first is due, the second waits its full time from now on, although part of it has
  passed.
\<close>

lemma check_loses_residue:
  assumes "next_timeout s = [t, u]" "timeo_time t \<le> msTicks s - timeouts_last_time s"
    and "msTicks s - timeouts_last_time s - timeo_time t < timeo_time u"
  shows "sys_check_timeouts (\<lambda>_ _. Some) s = Some (s\<lparr>timeouts_last_time := msTicks s, next_timeout := [u]\<rparr>)"
  using assms
  by (simp add: sys_check_timeouts_def sys_now_def SysTick_GetMS_def LWIP_U32_DIFF_minus check_loop.simps Let_def)

text \<open>
  A new entry counts from the last time an entry was run and not from now, so that it is
  run early when none has been run in between.
\<close>

lemma sys_timeout_early:
  assumes "next_timeout s = []" "msecs \<le> msTicks s - timeouts_last_time s"
  shows "sys_timeout msecs h a s \<bind> sys_check_timeouts call =
    call h a (s\<lparr>timeouts_last_time := msTicks s, next_timeout := []\<rparr>) \<bind>
      check_loop call (msTicks s) (msTicks s - timeouts_last_time s - msecs)"
  using assms
  by (simp add: sys_timeout_def MEMP_NUM_SYS_TIMEOUT_def link_timeout_def sys_check_timeouts_def sys_now_def
      SysTick_GetMS_def LWIP_U32_DIFF_minus check_loop.simps [of _ "msTicks s" "msTicks s - timeouts_last_time s"] Let_def)

end
