(* ===== verification/Stdio.thy ===== *)
theory Stdio
  imports Gw_Prelude
begin

text \<open>
  The conversions of the C library's \<open>sprintf\<close> that the firmware uses (\<open>%u\<close>, \<open>%lu\<close>,
  \<open>%d\<close>, \<open>%x\<close> and \<open>%08x\<close>) as functions to text, with the length bounds and
  read-back lemmas the HTTP components need. A call \<open>sprintf(buffer+buff_offset, ...)\<close>
  whose result is added to \<open>buff_offset\<close> appends the formatted text to the text written so
  far, so a sequence of such calls is modelled by appending.
\<close>

definition digit :: "nat \<Rightarrow> char" where
  "digit d = ''0123456789abcdef'' ! d"

fun fmt_base :: "nat \<Rightarrow> nat \<Rightarrow> string" where
  "fmt_base b n = (if b < 2 \<or> n < b then [digit n] else fmt_base b (n div b) @ [digit (n mod b)])"

declare fmt_base.simps [simp del]

definition fmt_u :: "nat \<Rightarrow> string" where
  "fmt_u n = fmt_base 10 n"

definition fmt_d :: "int \<Rightarrow> string" where
  "fmt_d i = (if i < 0 then CHR ''-'' # fmt_u (nat (- i)) else fmt_u (nat i))"

definition fmt_x :: "nat \<Rightarrow> string" where
  "fmt_x n = fmt_base 16 n"

definition fmt_08x :: "nat \<Rightarrow> string" where
  "fmt_08x n = replicate (8 - length (fmt_x n)) CHR ''0'' @ fmt_x n"

section \<open>Lengths\<close>

lemma length_fmt_base_pos: "0 < length (fmt_base b n)"
  by (subst fmt_base.simps) simp

lemma length_fmt_base:
  "2 \<le> b \<Longrightarrow> n < b ^ Suc k \<Longrightarrow> length (fmt_base b n) \<le> Suc k"
proof (induction k arbitrary: n)
  case 0
  then show ?case by (subst fmt_base.simps) simp
next
  case (Suc k)
  have "n div b < b ^ Suc k"
    using Suc.prems by (simp add: less_mult_imp_div_less mult.commute)
  with Suc.prems(1) have "length (fmt_base b (n div b)) \<le> Suc k" by (rule Suc.IH)
  then show ?case by (subst fmt_base.simps) simp
qed

lemma length_fmt_u: "n < 10 ^ Suc k \<Longrightarrow> length (fmt_u n) \<le> Suc k"
  by (simp add: fmt_u_def length_fmt_base)

lemma length_fmt_x: "n < 16 ^ Suc k \<Longrightarrow> length (fmt_x n) \<le> Suc k"
  by (simp add: fmt_x_def length_fmt_base)

lemma length_fmt_u32: "length (fmt_u (unat (w :: u32))) \<le> 10"
  by (rule length_fmt_u [of _ 9, simplified], rule less_trans [OF unat_u32_lt]) simp

lemma length_fmt_x32: "length (fmt_x (unat (w :: u32))) \<le> 8"
  by (rule length_fmt_x [of _ 7, simplified]) simp

lemma length_fmt_08x: "length (fmt_08x (unat (w :: u32))) = 8"
  using length_fmt_x32 [of w] by (simp add: fmt_08x_def)

section \<open>Reading decimal text back\<close>

definition digit_val :: "char \<Rightarrow> nat" where
  "digit_val c = of_char c - 48"

definition read_u :: "string \<Rightarrow> nat" where
  "read_u s = foldl (\<lambda>n c. 10 * n + digit_val c) 0 s"

definition is_digit :: "char \<Rightarrow> bool" where
  "is_digit c \<longleftrightarrow> c \<in> set ''0123456789''"

lemma digit_dec: "n < 10 \<Longrightarrow> digit_val (digit n) = n \<and> is_digit (digit n)"
proof -
  assume "n < 10"
  then have "n \<in> {0, 1, 2, 3, 4, 5, 6, 7, 8, 9}" by auto
  then show ?thesis by (auto simp: digit_val_def digit_def is_digit_def)
qed

lemma read_u_fmt_u [simp]: "read_u (fmt_u n) = n"
  unfolding fmt_u_def
proof (induction "10 :: nat" n rule: fmt_base.induct)
  case (1 n)
  then show ?case
    by (subst fmt_base.simps) (auto simp: read_u_def digit_dec)
qed

lemma fmt_u_digits: "c \<in> set (fmt_u n) \<Longrightarrow> is_digit c"
  unfolding fmt_u_def
proof (induction "10 :: nat" n rule: fmt_base.induct)
  case (1 n)
  from "1.prems" "1.hyps" show ?case
    by (subst (asm) fmt_base.simps) (auto simp: digit_dec split: if_splits)
qed

end
