(* ===== verification/Lwip_Addr.thy ===== *)
theory Lwip_Addr
  imports Lwip_Chksum Stdio
begin

text \<open>
  Internet addresses, \<open>src/src/lwip/core/ipv4/ip_addr.c\<close>: broadcast addresses, netmasks, and the
  conversion from and to dotted text. A C string is a list of characters, its terminating zero
  is the end of the list. Addresses are kept in network byte order as in \<open>ip_addr_t\<close>.
\<close>

section \<open>Broadcast addresses and netmasks\<close>

definition IPADDR_ANY :: u32 where "IPADDR_ANY = 0"
definition IPADDR_BROADCAST :: u32 where "IPADDR_BROADCAST = 0xffffffff"
definition IPADDR_NONE :: u32 where "IPADDR_NONE = 0xffffffff"
definition NETIF_FLAG_BROADCAST :: u8 where "NETIF_FLAG_BROADCAST = 0x02"

definition ip_addr_netcmp :: "u32 \<Rightarrow> u32 \<Rightarrow> u32 \<Rightarrow> bool" where
  "ip_addr_netcmp addr1 addr2 netmask \<longleftrightarrow> addr1 AND netmask = addr2 AND netmask"

text \<open>The interface's flags, address and netmask are arguments.\<close>

definition ip4_addr_isbroadcast :: "u32 \<Rightarrow> u8 \<Rightarrow> u32 \<Rightarrow> u32 \<Rightarrow> bool" where
  "ip4_addr_isbroadcast addr flags ip_addr netmask =
     (if NOT addr = IPADDR_ANY \<or> addr = IPADDR_ANY then True
      else if flags AND NETIF_FLAG_BROADCAST = 0 then False
      else if addr = ip_addr then False
      else if ip_addr_netcmp addr ip_addr netmask \<and> addr AND NOT netmask = IPADDR_BROADCAST AND NOT netmask then True
      else False)"

text \<open>The two loops of \<open>ip4_addr_netmask_valid\<close>, which move one bit from the highest to the lowest.\<close>

function first_zero :: "u32 \<Rightarrow> u32 \<Rightarrow> u32" where
  "first_zero nm bit_mask =
     (if bit_mask = 0 then 0
      else if nm AND bit_mask = 0 then bit_mask
      else first_zero nm (drop_bit 1 bit_mask))"
  by pat_completeness auto
termination
proof (relation "measure (\<lambda>(_, b). unat b)")
  show "((nm, drop_bit 1 b), (nm, b)) \<in> measure (\<lambda>(_, b). unat b)" if "b \<noteq> 0" for nm b :: u32
    using that by (simp add: drop_bit_eq_div unat_div unat_gt_0)
qed simp

function no_ones :: "u32 \<Rightarrow> u32 \<Rightarrow> bool" where
  "no_ones nm bit_mask =
     (if bit_mask = 0 then True
      else if nm AND bit_mask \<noteq> 0 then False
      else no_ones nm (drop_bit 1 bit_mask))"
  by pat_completeness auto
termination
proof (relation "measure (\<lambda>(_, b). unat b)")
  show "((nm, drop_bit 1 b), (nm, b)) \<in> measure (\<lambda>(_, b). unat b)" if "b \<noteq> 0" for nm b :: u32
    using that by (simp add: drop_bit_eq_div unat_div unat_gt_0)
qed simp

declare first_zero.simps [simp del] no_ones.simps [simp del]

definition ip4_addr_netmask_valid :: "u32 \<Rightarrow> bool" where
  "ip4_addr_netmask_valid netmask =
     (let nm_hostorder = lwip_htonl netmask;
          bit_mask = first_zero nm_hostorder (push_bit 31 1)
      in no_ones nm_hostorder bit_mask)"

section \<open>From text\<close>

definition in_range :: "char \<Rightarrow> nat \<Rightarrow> nat \<Rightarrow> bool" where
  "in_range c lo up \<longleftrightarrow> lo \<le> of_char c \<and> of_char c \<le> up"

definition isdigit :: "char \<Rightarrow> bool" where "isdigit c = in_range c 48 57"
definition islower :: "char \<Rightarrow> bool" where "islower c = in_range c 97 122"
definition isxdigit :: "char \<Rightarrow> bool" where "isxdigit c \<longleftrightarrow> isdigit c \<or> in_range c 97 102 \<or> in_range c 65 70"

definition isspace :: "char \<Rightarrow> bool" where
  "isspace c \<longleftrightarrow> c \<in> {CHR '' '', CHR 0x0C, CHR 0x0A, CHR 0x0D, CHR 0x09, CHR 0x0B}"

text \<open>The loop that collects the digits of one number.\<close>

fun aton_digits :: "u32 \<Rightarrow> u32 \<Rightarrow> string \<Rightarrow> u32 \<times> string" where
  "aton_digits base val [] = (val, [])"
| "aton_digits base val (c # cp) =
     (if isdigit c then aton_digits base (val * base + of_nat (of_char c - 48)) cp
      else if base = 16 \<and> isxdigit c
        then aton_digits base (push_bit 4 val OR of_nat (of_char c + 10 - (if islower c then 97 else 65))) cp
      else (val, c # cp))"

text \<open>One number with its prefix for hexadecimal and octal.\<close>

definition aton_number :: "string \<Rightarrow> (u32 \<times> string) option" where
  "aton_number cp =
     (case cp of
        [] \<Rightarrow> None
      | c # cp' \<Rightarrow>
          if \<not> isdigit c then None
          else if c = CHR ''0'' then
            (case cp' of
               [] \<Rightarrow> Some (0, [])
             | x # cp'' \<Rightarrow>
                 if x = CHR ''x'' \<or> x = CHR ''X'' then Some (aton_digits 16 0 cp'')
                 else Some (aton_digits 8 0 cp'))
          else Some (aton_digits 10 0 cp))"

text \<open>The numbers up to the last one: those before it, it, and the rest of the text.\<close>

function aton_parts :: "u32 list \<Rightarrow> string \<Rightarrow> (u32 list \<times> u32 \<times> string) option" where
  "aton_parts parts cp =
     (case aton_number cp of
        None \<Rightarrow> None
      | Some (val, rest) \<Rightarrow>
          (case rest of
             c # cp' \<Rightarrow>
               if c = CHR ''.'' then
                 (if length parts \<ge> 3 then None else aton_parts (parts @ [val]) cp')
               else Some (parts, val, rest)
           | [] \<Rightarrow> Some (parts, val, rest)))"
  by pat_completeness auto
termination
  by (relation "measure (\<lambda>(parts, _). 4 - length parts)") auto

declare aton_parts.simps [simp del]

definition ipaddr_aton :: "string \<Rightarrow> u32 option" where
  "ipaddr_aton cp =
     (case aton_parts [] cp of
        None \<Rightarrow> None
      | Some (parts, val, rest) \<Rightarrow>
          if rest \<noteq> [] \<and> \<not> isspace (hd rest) then None
          else if length parts = 0 then Some (lwip_htonl val)
          else if length parts = 1 then
            (if val > 0xffffff then None else Some (lwip_htonl (val OR push_bit 24 (parts ! 0))))
          else if length parts = 2 then
            (if val > 0xffff then None
             else Some (lwip_htonl (val OR push_bit 24 (parts ! 0) OR push_bit 16 (parts ! 1))))
          else if val > 0xff then None
            else Some (lwip_htonl (val OR push_bit 24 (parts ! 0) OR push_bit 16 (parts ! 1) OR push_bit 8 (parts ! 2))))"

definition ipaddr_addr :: "string \<Rightarrow> u32" where
  "ipaddr_addr cp = (case ipaddr_aton cp of Some val \<Rightarrow> val | None \<Rightarrow> IPADDR_NONE)"

section \<open>To text\<close>

text \<open>The digits of an octet, lowest first.\<close>

function inv_digits :: "u8 \<Rightarrow> string" where
  "inv_digits ap =
     (let rem = ap mod 10; ap = ap div 10
      in char_of (48 + unat rem) # (if ap \<noteq> 0 then inv_digits ap else []))"
  by pat_completeness auto
termination
proof (relation "measure unat")
  show "(q, ap) \<in> measure unat" if "r = ap mod 10" "q = ap div 10" "q \<noteq> 0" for r q ap :: u8
  proof -
    have "0 < unat ap" using that by (auto simp: unat_gt_0)
    then show ?thesis using that by (simp add: unat_div)
  qed
qed simp

declare inv_digits.simps [simp del]

text \<open>Characters put into the buffer while there is room.\<close>

fun put_chars :: "int \<Rightarrow> string \<Rightarrow> string \<times> int \<Rightarrow> (string \<times> int) option" where
  "put_chars buflen [] st = Some st"
| "put_chars buflen (c # cs) (buf, len) =
     (if len \<ge> buflen then None else put_chars buflen cs (buf @ [c], len + 1))"

fun ntoa_loop :: "int \<Rightarrow> u8 list \<Rightarrow> string \<times> int \<Rightarrow> (string \<times> int) option" where
  "ntoa_loop buflen [] st = Some st"
| "ntoa_loop buflen (ap # aps) st =
     (case put_chars buflen (rev (inv_digits ap)) st of
        None \<Rightarrow> None
      | Some st \<Rightarrow> (case put_chars buflen ''.'' st of None \<Rightarrow> None | Some st \<Rightarrow> ntoa_loop buflen aps st))"

definition ipaddr_ntoa_r :: "u32 \<Rightarrow> int \<Rightarrow> string option" where
  "ipaddr_ntoa_r s_addr buflen =
     (case ntoa_loop buflen (le32_bytes s_addr) ([], 0) of
        None \<Rightarrow> None
      | Some (buf, _) \<Rightarrow> Some (butlast buf))"

definition ipaddr_ntoa :: "u32 \<Rightarrow> string option" where
  "ipaddr_ntoa addr = ipaddr_ntoa_r addr 16"

section \<open>Round trip\<close>

lemma char_digit: "n < 10 \<Longrightarrow> char_of (48 + n) = digit n"
proof -
  assume "n < 10"
  then have "n \<in> {0, 1, 2, 3, 4, 5, 6, 7, 8, 9}" by auto
  then show ?thesis by (auto simp: digit_def char_of_eq_iff)
qed

lemma inv_digits_fmt: "rev (inv_digits a) = fmt_u (unat a)"
  unfolding fmt_u_def
proof (induction a rule: inv_digits.induct)
  case (1 a)
  have r: "unat (a mod 10) = unat a mod 10" "unat (a div 10) = unat a div 10" by (simp_all add: unat_mod unat_div)
  have z: "a div 10 \<noteq> 0 \<longleftrightarrow> \<not> unat a < 10" using r(2) by (auto simp: unat_eq_zero [symmetric] div_eq_0_iff)
  show ?case
  proof (cases "unat a < 10")
    case True
    then show ?thesis using r z
      by (subst inv_digits.simps, subst fmt_base.simps) (simp add: Let_def char_digit)
  next
    case False
    then have "rev (inv_digits (a div 10)) = fmt_base 10 (unat a div 10)" using 1 z r(2) by metis
    with False show ?thesis using r z
      by (subst inv_digits.simps, subst fmt_base.simps) (simp add: Let_def char_digit)
  qed
qed

lemma put_chars_fit: "len + int (length cs) \<le> buflen \<Longrightarrow> put_chars buflen cs (buf, len) = Some (buf @ cs, len + int (length cs))"
  by (induction cs arbitrary: buf len) simp_all

lemma length_octet: "length (fmt_u (unat (a :: u8))) \<le> 3"
  using length_fmt_u [of "unat a" 2] unat_u8_le [of a] by simp

definition dotted :: "u8 list \<Rightarrow> string" where
  "dotted aps = concat (map (\<lambda>a. fmt_u (unat a) @ ''.'') aps)"

lemma ntoa_loop_fit:
  "len + 4 * int (length aps) \<le> buflen \<Longrightarrow>
    ntoa_loop buflen aps (buf, len) = Some (buf @ dotted aps, len + int (length (dotted aps)))"
proof (induction aps arbitrary: buf len)
  case (Cons a aps)
  then show ?case
    using length_octet [of a] by (simp add: inv_digits_fmt put_chars_fit dotted_def add.assoc)
qed (simp add: dotted_def)

lemma ipaddr_ntoa_dotted:
  "ipaddr_ntoa addr = Some (butlast (dotted (le32_bytes addr)))"
  by (simp add: ipaddr_ntoa_def ipaddr_ntoa_r_def ntoa_loop_fit)

lemma isdigit_is_digit: "is_digit c \<Longrightarrow> isdigit c"
  by (auto simp: is_digit_def isdigit_def in_range_def)

lemma aton_digits_dec:
  assumes "\<forall>c \<in> set cs. is_digit c" "rest = [] \<or> hd rest = CHR ''.''"
  shows "aton_digits 10 (of_nat n) (cs @ rest) = (of_nat (foldl (\<lambda>n c. 10 * n + digit_val c) n cs), rest)"
  using assms(1)
proof (induction cs arbitrary: n)
  case Nil
  show ?case using assms(2) by (cases rest) (auto simp: isdigit_def in_range_def)
next
  case (Cons c cs)
  have "(of_nat n * 10 + of_nat (of_char c - 48) :: u32) = of_nat (10 * n + digit_val c)"
    by (simp add: digit_val_def)
  with Cons show ?case by (simp add: isdigit_is_digit del: of_nat_add of_nat_mult)
qed

lemma fmt_base_nonzero: "0 < n \<Longrightarrow> n < 10 ^ 9 \<Longrightarrow> hd (fmt_base 10 n) \<noteq> CHR ''0''"
proof (induction "10 :: nat" n rule: fmt_base.induct)
  case (1 n)
  show ?case
  proof (cases "n < 10")
    case True
    with \<open>0 < n\<close> have "n \<in> {1, 2, 3, 4, 5, 6, 7, 8, 9}" by auto
    then show ?thesis by (subst fmt_base.simps) (auto simp: digit_def)
  next
    case False
    then have "hd (fmt_base 10 (n div 10)) \<noteq> CHR ''0''" using 1 by simp
    moreover have "fmt_base 10 (n div 10) \<noteq> []" using length_fmt_base_pos by fastforce
    ultimately show ?thesis using False by (subst fmt_base.simps) simp
  qed
qed

lemma aton_number_octet:
  assumes "rest = [] \<or> hd rest = CHR ''.''"
  shows "aton_number (fmt_u (unat (a :: u8)) @ rest) = Some (of_nat (unat a), rest)"
proof (cases "unat a = 0")
  case True
  then have "fmt_u (unat a) = ''0''" by (simp add: fmt_u_def fmt_base.simps digit_def)
  with True assms show ?thesis
    by (cases rest) (auto simp: aton_number_def isdigit_def in_range_def)
next
  case False
  obtain c cs where f: "fmt_u (unat a) = c # cs"
    using length_fmt_base_pos [of 10 "unat a"] by (cases "fmt_u (unat a)") (auto simp: fmt_u_def)
  have "c \<noteq> CHR ''0''" using fmt_base_nonzero [of "unat a"] False f unat_u8_le [of a] by (simp add: fmt_u_def)
  moreover have "isdigit c" using fmt_u_digits [of c "unat a"] f by (simp add: isdigit_is_digit)
  moreover have "aton_digits 10 (of_nat 0) (fmt_u (unat a) @ rest) = (of_nat (read_u (fmt_u (unat a))), rest)"
    using aton_digits_dec [of "fmt_u (unat a)" rest 0] fmt_u_digits assms by (auto simp: read_u_def)
  moreover have "read_u (c # cs) = unat a" using read_u_fmt_u [of "unat a"] f by simp
  ultimately show ?thesis using f by (simp add: aton_number_def)
qed

lemma aton_parts_dot: "aton_number cp = Some (v, CHR ''.'' # r) \<Longrightarrow> length parts < 3 \<Longrightarrow> aton_parts parts cp = aton_parts (parts @ [v]) r"
  by (subst aton_parts.simps) simp

lemma aton_parts_end: "aton_number cp = Some (v, []) \<Longrightarrow> aton_parts parts cp = Some (parts, v, [])"
  by (subst aton_parts.simps) simp

lemma htonl_le:
  "lwip_htonl w = le32_word (ucast (drop_bit 24 w)) (ucast (drop_bit 16 w)) (ucast (drop_bit 8 w)) (ucast w)"
proof -
  have m: "(0xff :: u32) = mask 8" "(0xff00 :: u32) = push_bit 8 (mask 8)" "(0xff0000 :: u32) = push_bit 16 (mask 8)"
    "(0xff000000 :: u32) = push_bit 24 (mask 8)"
    by (simp_all add: mask_eq_exp_minus_1)
  show ?thesis
    unfolding lwip_htonl_def le32_word_def m
    by (rule bit_word_eqI) (auto simp: bit_simps)
qed

lemma htonl_octets:
  "lwip_htonl (of_nat (unat d) OR push_bit 24 (of_nat (unat a)) OR push_bit 16 (of_nat (unat b)) OR push_bit 8 (of_nat (unat c))) =
   le32_word a b c d"
proof -
  have "of_nat (unat d) OR push_bit 24 (of_nat (unat a)) OR push_bit 16 (of_nat (unat b)) OR push_bit 8 (of_nat (unat c)) =
      le32_word d c b a"
    by (simp add: le32_word_def or.commute or.left_commute)
  then show ?thesis using le32_bytes_word [of d c b a] by (simp add: htonl_le le32_bytes_def)
qed

text \<open>
  Addresses survive the way through text (C30). For every address \<open>ipaddr_ntoa\<close> succeeds within its
  16 characters, and \<open>ipaddr_aton\<close> reads the address back from the text.
\<close>

theorem ipaddr_text_roundtrip:
  "\<exists>text. ipaddr_ntoa addr = Some text \<and> length text < 16 \<and> ipaddr_aton text = Some addr"
proof -
  obtain a b c d where o: "le32_bytes addr = [a, b, c, d]" by (simp add: le32_bytes_def)
  then have "ucast addr = a" "ucast (drop_bit 8 addr) = b" "ucast (drop_bit 16 addr) = c" "ucast (drop_bit 24 addr) = d"
    by (simp_all add: le32_bytes_def)
  with le32_word_bytes [of addr] have addr: "addr = le32_word a b c d" by (simp only:)
  let ?f = "\<lambda>x :: u8. fmt_u (unat x)"
  let ?t = "?f a @ ''.'' @ ?f b @ ''.'' @ ?f c @ ''.'' @ ?f d"
  have n: "ipaddr_ntoa addr = Some ?t" by (simp add: ipaddr_ntoa_dotted o dotted_def butlast_append)
  have "aton_parts [] ?t = Some ([of_nat (unat a), of_nat (unat b), of_nat (unat c)], of_nat (unat d), [])"
  proof -
    have d: "aton_parts ps (?f x @ CHR ''.'' # r) = aton_parts (ps @ [of_nat (unat x)]) r" if "length ps < 3" for ps x r
      using aton_number_octet [of "CHR ''.'' # r" x] that by (intro aton_parts_dot) simp_all
    have e: "aton_parts ps (?f d) = Some (ps, of_nat (unat d), [])" for ps
      using aton_number_octet [of "[]" d] by (intro aton_parts_end) simp
    show ?thesis by (simp add: d e)
  qed
  moreover have "\<not> of_nat (unat d) > (0xff :: u32)"
    using unat_u8_le [of d] by (simp add: word_less_nat_alt unsigned_ucast_eq take_bit_nat_eq_self)
  ultimately have "ipaddr_aton ?t = Some addr" using htonl_octets [of d a b c] by (simp add: ipaddr_aton_def addr)
  moreover have "length ?t < 16" using length_octet [of a] length_octet [of b] length_octet [of c] length_octet [of d] by simp
  ultimately show ?thesis using n by blast
qed

lemma htonl_word: "lwip_htonl (le32_word a b c d) = le32_word d c b a"
  using le32_bytes_word [of a b c d] by (simp add: htonl_le le32_bytes_def)

lemma lwip_htonl_twice: "lwip_htonl (lwip_htonl w) = w"
  by (subst (1 2) le32_word_bytes [of w, symmetric]) (simp only: htonl_word)

text \<open>
  Only the last part of an address is checked against its range: 256 as the first part is
  taken and its high bits are lost.
\<close>

lemma aton_large_part: "ipaddr_aton ''256.0.0.1'' = ipaddr_aton ''0.0.0.1''"
  by code_simp

section \<open>Netmasks\<close>

lemma and_bit: "(nm :: u32) AND push_bit i 1 = 0 \<longleftrightarrow> \<not> (i < 32 \<and> bit nm i)"
proof
  assume "nm AND push_bit i 1 = 0"
  then have "\<not> bit (nm AND push_bit i 1) i" by simp
  then show "\<not> (i < 32 \<and> bit nm i)" by (auto simp: bit_simps)
next
  assume "\<not> (i < 32 \<and> bit nm i)"
  then show "nm AND push_bit i 1 = 0" by (intro bit_word_eqI) (auto simp: bit_simps)
qed

lemma push_bit_down: "i < 32 \<Longrightarrow> push_bit i 1 \<noteq> (0 :: u32) \<and> drop_bit 1 (push_bit i 1 :: u32) = (if i = 0 then 0 else push_bit (i - 1) 1)"
proof
  assume "i < 32"
  then have b: "bit (push_bit i 1 :: u32) i" by (simp add: bit_simps)
  show "push_bit i 1 \<noteq> (0 :: u32)"
  proof
    assume "push_bit i 1 = (0 :: u32)"
    with b have "bit (0 :: u32) i" by (simp only:)
    then show False by simp
  qed
  from \<open>i < 32\<close> show "drop_bit 1 (push_bit i 1 :: u32) = (if i = 0 then 0 else push_bit (i - 1) 1)"
    by (intro bit_word_eqI) (auto simp: bit_simps)
qed

lemma no_ones_bits: "i < 32 \<Longrightarrow> no_ones nm (push_bit i 1) \<longleftrightarrow> (\<forall>j \<le> i. \<not> bit nm j)"
proof (induction i)
  case 0
  show ?case using push_bit_down [of 0] and_bit [of nm 0]
    by (subst no_ones.simps) (simp add: no_ones.simps [of nm 0])
next
  case (Suc i)
  show ?case using push_bit_down [of "Suc i"] and_bit [of nm "Suc i"] Suc
    by (subst no_ones.simps) (auto simp: le_Suc_eq)
qed

lemma netmask_loop: "i < 32 \<Longrightarrow> no_ones nm (first_zero nm (push_bit i 1)) \<longleftrightarrow> (\<exists>k \<le> Suc i. \<forall>j \<le> i. bit nm j \<longleftrightarrow> k \<le> j)"
proof (induction i)
  case 0
  show ?case
  proof (cases "bit nm 0")
    case True
    then show ?thesis using push_bit_down [of 0] and_bit [of nm 0]
      by (subst first_zero.simps) (auto simp: first_zero.simps [of nm 0] no_ones.simps [of nm 0] intro!: exI [of _ 0])
  next
    case False
    then show ?thesis using push_bit_down [of 0] and_bit [of nm 0] no_ones_bits [of 0 nm]
      by (subst first_zero.simps) (auto intro!: exI [of _ 1])
  qed
next
  case (Suc i)
  show ?case
  proof (cases "bit nm (Suc i)")
    case True
    have "(\<exists>k \<le> Suc i. \<forall>j \<le> i. bit nm j \<longleftrightarrow> k \<le> j) \<longleftrightarrow> (\<exists>k \<le> Suc (Suc i). \<forall>j \<le> Suc i. bit nm j \<longleftrightarrow> k \<le> j)"
    proof
      assume "\<exists>k \<le> Suc i. \<forall>j \<le> i. bit nm j \<longleftrightarrow> k \<le> j"
      then show "\<exists>k \<le> Suc (Suc i). \<forall>j \<le> Suc i. bit nm j \<longleftrightarrow> k \<le> j" using True by (auto simp: le_Suc_eq)
    next
      assume "\<exists>k \<le> Suc (Suc i). \<forall>j \<le> Suc i. bit nm j \<longleftrightarrow> k \<le> j"
      then obtain k where k: "\<forall>j \<le> Suc i. bit nm j \<longleftrightarrow> k \<le> j" by blast
      with True have "k \<le> Suc i" by blast
      with k show "\<exists>k \<le> Suc i. \<forall>j \<le> i. bit nm j \<longleftrightarrow> k \<le> j" by auto
    qed
    with True Suc show ?thesis using push_bit_down [of "Suc i"] and_bit [of nm "Suc i"]
      by (subst first_zero.simps) simp
  next
    case False
    have "first_zero nm (push_bit (Suc i) 1) = push_bit (Suc i) 1"
      using False push_bit_down [of "Suc i"] and_bit [of nm "Suc i"] Suc.prems by (subst first_zero.simps) simp
    moreover have "(\<forall>j \<le> Suc i. \<not> bit nm j) \<longleftrightarrow> (\<exists>k \<le> Suc (Suc i). \<forall>j \<le> Suc i. bit nm j \<longleftrightarrow> k \<le> j)"
    proof
      assume "\<forall>j \<le> Suc i. \<not> bit nm j"
      then show "\<exists>k \<le> Suc (Suc i). \<forall>j \<le> Suc i. bit nm j \<longleftrightarrow> k \<le> j" by (intro exI [of _ "Suc (Suc i)"]) auto
    next
      assume "\<exists>k \<le> Suc (Suc i). \<forall>j \<le> Suc i. bit nm j \<longleftrightarrow> k \<le> j"
      then obtain k where k: "\<forall>j \<le> Suc i. bit nm j \<longleftrightarrow> k \<le> j" by blast
      with False have "\<not> k \<le> Suc i" by blast
      with k show "\<forall>j \<le> Suc i. \<not> bit nm j" by auto
    qed
    ultimately show ?thesis using no_ones_bits [OF Suc.prems, of nm] by simp
  qed
qed

text \<open>A netmask is valid exactly when, in host order, it is a run of ones above a run of zeros.\<close>

lemma netmask_valid_iff:
  "ip4_addr_netmask_valid netmask \<longleftrightarrow> (\<exists>k \<le> 32. lwip_htonl netmask = NOT (mask k))"
proof -
  have "(\<forall>j \<le> 31. bit nm j \<longleftrightarrow> k \<le> j) \<longleftrightarrow> nm = NOT (mask k)" for nm :: u32 and k
    by (auto simp: bit_eq_iff bit_simps dest: bit_imp_le_length)
  then show ?thesis using netmask_loop [of 31 "lwip_htonl netmask"] by (simp add: ip4_addr_netmask_valid_def Let_def)
qed

end
