(* ===== verification/Lwip_Api.thy ===== *)
theory Lwip_Api
  imports Lwip_Timers Lwip_Addr
begin

text \<open>
  The interface between the gateway's network code and the parts of the network stack in
  \<open>src/src/lwip\<close> that are not modelled: TCP, UDP, DNS, DHCP, ARP and the Ethernet driver. They
  are a parameter, a record of functions on the stack's state \<open>'n\<close>. While one of the stack's
  longer activities runs it calls back into the program; such an activity is therefore run
  up to its next callback, the callback is made, and the activity goes on.
\<close>

section \<open>Error codes and buffers\<close>

type_synonym err_t = int

definition ERR_OK :: err_t where "ERR_OK = 0"
definition ERR_MEM :: err_t where "ERR_MEM = - 1"
definition ERR_INPROGRESS :: err_t where "ERR_INPROGRESS = - 5"
definition ERR_ARG :: err_t where "ERR_ARG = - 14"

text \<open>A chain of buffers: its identity and the payload of every buffer.\<close>

record pbuf =
  pbuf_id :: nat
  pbuf_payloads :: "u8 list list"

definition tot_len :: "pbuf \<Rightarrow> u16" where
  "tot_len p = of_nat (length (concat (pbuf_payloads p)))"

fun copy_loop :: "u8 list list \<Rightarrow> nat \<Rightarrow> nat \<Rightarrow> u8 list" where
  "copy_loop [] len offset = []"
| "copy_loop (p # ps) len offset =
     (if len = 0 then []
      else if offset \<noteq> 0 \<and> offset \<ge> length p then copy_loop ps len (offset - length p)
      else let buf_copy_len = min (length p - offset) len
        in take buf_copy_len (drop offset p) @ copy_loop ps (len - buf_copy_len) 0)"

definition pbuf_copy_partial :: "pbuf \<Rightarrow> nat \<Rightarrow> nat \<Rightarrow> u8 list" where
  "pbuf_copy_partial buf len offset = copy_loop (pbuf_payloads buf) len offset"

lemma copy_loop_take: "copy_loop ps len offset = take len (drop offset (concat ps))"
proof (induction ps len offset rule: copy_loop.induct)
  case (2 p ps len offset)
  show ?case
  proof (cases "len \<noteq> 0 \<and> \<not> (offset \<noteq> 0 \<and> offset \<ge> length p)")
    case True
    then have "offset \<le> length p" by auto
    with True 2(2) [of "min (length p - offset) len"] show ?thesis by (auto simp: Let_def min_def)
  qed (use 2(1) in auto)
qed simp

lemma pbuf_copy_partial_take:
  "pbuf_copy_partial buf len offset = take len (drop offset (concat (pbuf_payloads buf)))"
  by (simp add: pbuf_copy_partial_def copy_loop_take)

section \<open>Callbacks\<close>

text \<open>
  The functions of the program that are registered with the stack, and the calls the stack
  makes. The argument of the TCP callbacks is the server's state or null.
\<close>

datatype tcp_callback = Server_tcp_err | Server_tcp_poll | Server_tcp_sent | Server_tcp_recv | Server_tcp_connected

datatype event =
  Ev_connected bool nat err_t
| Ev_err bool err_t
| Ev_sent bool nat u16
| Ev_poll bool nat
| Ev_recv bool nat "pbuf option" err_t
| Ev_udp_recv pbuf u32 u16
| Ev_dns_found "u32 option"
| Ev_netif_status
| Ev_tcp_timer_needed

datatype activity = Lpc_enetif_input | Tcp_tmr | Ip_reass_tmr | Etharp_tmr | Dhcp_coarse_tmr | Dhcp_fine_tmr | Dns_tmr
| Netif_add | Dhcp_start | Lpc_phy_sts_sm

section \<open>The stack\<close>

record 'n lwip =
  tcp_new :: "'n \<Rightarrow> nat option \<times> 'n"
  tcp_setprio :: "nat \<Rightarrow> u8 \<Rightarrow> 'n \<Rightarrow> 'n"
  tcp_bind :: "nat \<Rightarrow> u32 \<Rightarrow> u16 \<Rightarrow> 'n \<Rightarrow> err_t \<times> 'n"
  tcp_arg :: "nat \<Rightarrow> bool \<Rightarrow> 'n \<Rightarrow> 'n"
  tcp_err :: "nat \<Rightarrow> tcp_callback option \<Rightarrow> 'n \<Rightarrow> 'n"
  tcp_poll :: "nat \<Rightarrow> tcp_callback option \<Rightarrow> u8 \<Rightarrow> 'n \<Rightarrow> 'n"
  tcp_sent :: "nat \<Rightarrow> tcp_callback option \<Rightarrow> 'n \<Rightarrow> 'n"
  tcp_recv :: "nat \<Rightarrow> tcp_callback option \<Rightarrow> 'n \<Rightarrow> 'n"
  tcp_connect :: "nat \<Rightarrow> u32 \<Rightarrow> u16 \<Rightarrow> tcp_callback \<Rightarrow> 'n \<Rightarrow> err_t \<times> 'n"
  tcp_write :: "nat \<Rightarrow> string \<Rightarrow> u8 \<Rightarrow> 'n \<Rightarrow> err_t \<times> 'n"
  tcp_sndbuf :: "nat \<Rightarrow> 'n \<Rightarrow> u16"
  tcp_sndqueuelen :: "nat \<Rightarrow> 'n \<Rightarrow> u16"
  tcp_close :: "nat \<Rightarrow> 'n \<Rightarrow> err_t \<times> 'n"
  tcp_recved :: "nat \<Rightarrow> u16 \<Rightarrow> 'n \<Rightarrow> 'n"
  tcp_pcbs :: "'n \<Rightarrow> bool"
  pbuf_free :: "pbuf \<Rightarrow> 'n \<Rightarrow> 'n"
  pbuf_alloc :: "u16 \<Rightarrow> 'n \<Rightarrow> pbuf option \<times> 'n"
  udp_new :: "'n \<Rightarrow> nat option \<times> 'n"
  udp_recv :: "nat \<Rightarrow> 'n \<Rightarrow> 'n"
  udp_remove :: "nat \<Rightarrow> 'n \<Rightarrow> 'n"
  udp_sendto :: "nat \<Rightarrow> pbuf \<Rightarrow> u32 \<Rightarrow> u16 \<Rightarrow> 'n \<Rightarrow> err_t \<times> 'n"
  dns_gethostbyname :: "string \<Rightarrow> 'n \<Rightarrow> err_t \<times> u32 \<times> 'n"
  netif_flags :: "'n \<Rightarrow> u8"
  netif_setup :: "'n \<Rightarrow> 'n"
  lpc_rx_queue :: "'n \<Rightarrow> int \<times> 'n"
  lpc_tx_reclaim :: "'n \<Rightarrow> 'n"
  lwip_modules_init :: "'n \<Rightarrow> 'n"
  begin_activity :: "activity \<Rightarrow> 'n \<Rightarrow> 'n"
  next_event :: "'n \<Rightarrow> (event \<times> 'n) option"
  event_result :: "err_t \<Rightarrow> 'n \<Rightarrow> 'n"
  activity_result :: "'n \<Rightarrow> int"

section \<open>A concrete stack\<close>

text \<open>
  A stack with one connection that accepts all data written to it: its state is the text
  accepted so far. It shows that what the properties ask of the stack can hold.
\<close>

definition open_stack :: "string lwip" where
  "open_stack =
     \<lparr>tcp_new = (\<lambda>n. (Some 1, n)), tcp_setprio = (\<lambda>_ _ n. n), tcp_bind = (\<lambda>_ _ _ n. (ERR_OK, n)),
      tcp_arg = (\<lambda>_ _ n. n), tcp_err = (\<lambda>_ _ n. n), tcp_poll = (\<lambda>_ _ _ n. n), tcp_sent = (\<lambda>_ _ n. n),
      tcp_recv = (\<lambda>_ _ n. n), tcp_connect = (\<lambda>_ _ _ _ n. (ERR_OK, n)),
      tcp_write = (\<lambda>_ data _ n. (ERR_OK, n @ data)), tcp_sndbuf = (\<lambda>_ _. 1000), tcp_sndqueuelen = (\<lambda>_ _. 0),
      tcp_close = (\<lambda>_ n. (ERR_OK, n)), tcp_recved = (\<lambda>_ _ n. n), tcp_pcbs = (\<lambda>_. True),
      pbuf_free = (\<lambda>_ n. n), pbuf_alloc = (\<lambda>_ n. (Some \<lparr>pbuf_id = 0, pbuf_payloads = []\<rparr>, n)),
      udp_new = (\<lambda>n. (Some 2, n)), udp_recv = (\<lambda>_ n. n), udp_remove = (\<lambda>_ n. n),
      udp_sendto = (\<lambda>_ _ _ _ n. (ERR_OK, n)), dns_gethostbyname = (\<lambda>_ n. (ERR_OK, 0x0100000A, n)),
      netif_flags = (\<lambda>_. 0x11), netif_setup = (\<lambda>n. n), lpc_rx_queue = (\<lambda>n. (0, n)), lpc_tx_reclaim = (\<lambda>n. n),
      lwip_modules_init = (\<lambda>n. n), begin_activity = (\<lambda>_ n. n), next_event = (\<lambda>_. None),
      event_result = (\<lambda>_ n. n), activity_result = (\<lambda>_. 0)\<rparr>"

definition open_net :: "(rcard, string) lwipst" where
  "open_net = gwst.extend sample_gateway \<lparr>net = [], next_timeout = [], timeouts_last_time = 0,
     tcpip_tcp_timer_active = 0, msTicks = 0\<rparr>"

end
