(* ===== verification/Lwip_Pbuf.thy ===== *)
theory Lwip_Pbuf
  imports Lwip_Heap Lwip_Memp Lwip_Chksum Lwip_Api
begin

unbundle bit_operations_syntax

text \<open>
  The packet buffers of the network stack (\<open>src/src/lwip/core/pbuf.c\<close>). A \<open>struct pbuf\<close> lies at the start of a
  block of the heap or of an element of one of the two pools, followed by room for its data; the
  structures are kept by pointer in \<open>pb_hdr\<close>, the data as octets. A failing assertion, a failing
  \<open>LWIP_ERROR\<close> (which holds the program too) and the use of a null pointer are \<open>None\<close>. Custom buffers are not
  compiled in this configuration.
\<close>

section \<open>Structures\<close>

datatype pbuf_layer = PBUF_TRANSPORT | PBUF_IP | PBUF_LINK | PBUF_RAW

datatype pbuf_type = PBUF_RAM | PBUF_ROM | PBUF_REF | PBUF_POOL

text \<open>
  A pointer to a buffer: a block of the heap, an element of \<open>MEMP_PBUF_POOL\<close> or one of \<open>MEMP_PBUF\<close>. A pointer to
  data: an offset from the start of a buffer, an address elsewhere, or null.
\<close>

datatype pb_ptr = Ram int | Pool nat | Ref nat

datatype data_ptr = Data pb_ptr int | Extern int | Null

record pbuf_struct =
  pb_next :: "pb_ptr option"
  pb_payload :: data_ptr
  pb_tot_len :: u16
  pb_len :: u16
  pb_type :: pbuf_type
  pb_flags :: u8
  pb_ref :: u16

record pbufst =
  pb_heap :: heapst
  pb_pools :: mempst
  pb_hdr :: "pb_ptr \<Rightarrow> pbuf_struct"
  pool_data :: "nat \<Rightarrow> int \<Rightarrow> u8"
  ext_data :: "int \<Rightarrow> u8"

definition SIZEOF_STRUCT_PBUF :: u16 where [simp]: "SIZEOF_STRUCT_PBUF = 16"
definition PBUF_POOL_BUFSIZE_ALIGNED :: u16 where [simp]: "PBUF_POOL_BUFSIZE_ALIGNED = 1516"

definition upd_pbuf :: "pb_ptr \<Rightarrow> (pbuf_struct \<Rightarrow> pbuf_struct) \<Rightarrow> pbufst \<Rightarrow> pbufst" where
  "upd_pbuf p f s = s\<lparr>pb_hdr := (pb_hdr s)(p := f (pb_hdr s p))\<rparr>"

text \<open>The octets behind a data pointer; a buffer of \<open>MEMP_PBUF\<close> has none of its own.\<close>

definition load_data :: "pbufst \<Rightarrow> data_ptr \<Rightarrow> int \<Rightarrow> u8 option" where
  "load_data s d k =
     (case d of
        Data (Ram a) off \<Rightarrow> Some (ram (pb_heap s) (a + off + k))
      | Data (Pool e) off \<Rightarrow> Some (pool_data s e (off + k))
      | Data (Ref e) off \<Rightarrow> None
      | Extern a \<Rightarrow> Some (ext_data s (a + k))
      | Null \<Rightarrow> None)"

definition store_data :: "data_ptr \<Rightarrow> int \<Rightarrow> u8 \<Rightarrow> pbufst \<Rightarrow> pbufst option" where
  "store_data d k v s =
     (case d of
        Data (Ram a) off \<Rightarrow> Some (s\<lparr>pb_heap := (pb_heap s)\<lparr>ram := (ram (pb_heap s))(a + off + k := v)\<rparr>\<rparr>)
      | Data (Pool e) off \<Rightarrow> Some (s\<lparr>pool_data := (pool_data s)(e := (pool_data s e)(off + k := v))\<rparr>)
      | Data (Ref e) off \<Rightarrow> None
      | Extern a \<Rightarrow> Some (s\<lparr>ext_data := (ext_data s)(a + k := v)\<rparr>)
      | Null \<Rightarrow> None)"

text \<open>\<open>MEMCPY\<close> from and to the data of a buffer, from offset \<open>k\<close> on.\<close>

fun load_octets :: "pbufst \<Rightarrow> data_ptr \<Rightarrow> int \<Rightarrow> nat \<Rightarrow> u8 list option" where
  "load_octets s d k 0 = Some []"
| "load_octets s d k (Suc n) = do { b \<leftarrow> load_data s d k; bs \<leftarrow> load_octets s d (k + 1) n; Some (b # bs) }"

fun store_octets :: "data_ptr \<Rightarrow> int \<Rightarrow> u8 list \<Rightarrow> pbufst \<Rightarrow> pbufst option" where
  "store_octets d k [] s = Some s"
| "store_octets d k (b # bs) s = do { s \<leftarrow> store_data d k b s; store_octets d (k + 1) bs s }"

section \<open>Reference counts\<close>

definition pbuf_dealloc :: "pb_ptr \<Rightarrow> pbufst \<Rightarrow> pbufst option" where
  "pbuf_dealloc p s =
     (case pb_type (pb_hdr s p) of
        PBUF_POOL \<Rightarrow> (case p of Pool e \<Rightarrow> Some (s\<lparr>pb_pools := memp_free MEMP_PBUF_POOL (Some e) (pb_pools s)\<rparr>) | _ \<Rightarrow> None)
      | PBUF_RAM \<Rightarrow> (case p of Ram a \<Rightarrow> do { h \<leftarrow> mem_free (Some a) (pb_heap s); Some (s\<lparr>pb_heap := h\<rparr>) } | _ \<Rightarrow> None)
      | _ \<Rightarrow> (case p of Ref e \<Rightarrow> Some (s\<lparr>pb_pools := memp_free MEMP_PBUF (Some e) (pb_pools s)\<rparr>) | _ \<Rightarrow> None))"

text \<open>The walk along the chain; it may not end when the chain is a cycle.\<close>

partial_function (option) free_loop :: "pb_ptr option \<Rightarrow> u8 \<Rightarrow> pbufst \<Rightarrow> (u8 \<times> pbufst) option" where
  "free_loop p count s =
     (case p of
        None \<Rightarrow> Some (count, s)
      | Some p \<Rightarrow>
          if pb_ref (pb_hdr s p) = 0 then None
          else
            let s = upd_pbuf p (\<lambda>h. h\<lparr>pb_ref := pb_ref h - 1\<rparr>) s
            in if pb_ref (pb_hdr s p) = 0 then
                 do { let q = pb_next (pb_hdr s p);
                      s \<leftarrow> pbuf_dealloc p s;
                      free_loop q (count + 1) s }
               else Some (count, s))"

definition pbuf_free :: "pb_ptr option \<Rightarrow> pbufst \<Rightarrow> (u8 \<times> pbufst) option" where
  "pbuf_free p s = (if p = None then None else free_loop p 0 s)"

definition pbuf_ref :: "pb_ptr option \<Rightarrow> pbufst \<Rightarrow> pbufst" where
  "pbuf_ref p s = (case p of None \<Rightarrow> s | Some p \<Rightarrow> upd_pbuf p (\<lambda>h. h\<lparr>pb_ref := pb_ref h + 1\<rparr>) s)"

partial_function (option) clen_loop :: "pbufst \<Rightarrow> pb_ptr option \<Rightarrow> u8 \<Rightarrow> u8 option" where
  "clen_loop s p len = (case p of None \<Rightarrow> Some len | Some p \<Rightarrow> clen_loop s (pb_next (pb_hdr s p)) (len + 1))"

definition pbuf_clen :: "pb_ptr option \<Rightarrow> pbufst \<Rightarrow> u8 option" where
  "pbuf_clen p s = clen_loop s p 0"

section \<open>Allocation\<close>

definition header_room :: "pbuf_layer \<Rightarrow> u16" where
  "header_room layer =
     (case layer of PBUF_TRANSPORT \<Rightarrow> 20 + 20 + 14 | PBUF_IP \<Rightarrow> 20 + 14 | PBUF_LINK \<Rightarrow> 14 | PBUF_RAW \<Rightarrow> 0)"

text \<open>
  The tail of a chain from the pool: \<open>p\<close> is the head, \<open>r\<close> the last buffer so far. A second element of a pool that
  has run dry gives the whole chain back.
\<close>

partial_function (option) alloc_tail :: "pb_ptr \<Rightarrow> pb_ptr \<Rightarrow> int \<Rightarrow> pbufst \<Rightarrow> (bool \<times> pbufst) option" where
  "alloc_tail p r rem_len s =
     (if rem_len > 0 then
        (case memp_malloc MEMP_PBUF_POOL (pb_pools s) of
           (None, pools) \<Rightarrow> do { (_, s) \<leftarrow> pbuf_free (Some p) (s\<lparr>pb_pools := pools\<rparr>); Some (False, s) }
         | (Some e, pools) \<Rightarrow>
             if \<not> rem_len < 0xffff then None
             else
               let q = Pool e;
                   len = min (word_of_int rem_len) PBUF_POOL_BUFSIZE_ALIGNED;
                   s = s\<lparr>pb_pools := pools\<rparr>;
                   s = upd_pbuf q (\<lambda>h. h\<lparr>pb_type := PBUF_POOL, pb_flags := 0, pb_next := None\<rparr>) s;
                   s = upd_pbuf r (\<lambda>h. h\<lparr>pb_next := Some q\<rparr>) s;
                   s = upd_pbuf q (\<lambda>h. h\<lparr>pb_tot_len := word_of_int rem_len, pb_len := len,
                         pb_payload := Data q (uint SIZEOF_STRUCT_PBUF), pb_ref := 1\<rparr>) s
               in alloc_tail p q (rem_len - uint len) s)
      else Some (True, s))"

definition pbuf_alloc_pool :: "u16 \<Rightarrow> u16 \<Rightarrow> pbufst \<Rightarrow> (pb_ptr option \<times> pbufst) option" where
  "pbuf_alloc_pool offset len s =
     (case memp_malloc MEMP_PBUF_POOL (pb_pools s) of
        (None, pools) \<Rightarrow> Some (None, s\<lparr>pb_pools := pools\<rparr>)
      | (Some e, pools) \<Rightarrow>
          let p = Pool e;
              first = min len (PBUF_POOL_BUFSIZE_ALIGNED - LWIP_MEM_ALIGN_SIZE offset);
              s = upd_pbuf p (\<lambda>h. h\<lparr>pb_type := PBUF_POOL, pb_next := None,
                    pb_payload := Data p (uint (LWIP_MEM_ALIGN_SIZE (SIZEOF_STRUCT_PBUF + offset))),
                    pb_tot_len := len, pb_len := first, pb_ref := 1\<rparr>) (s\<lparr>pb_pools := pools\<rparr>)
          in do { (ok, s) \<leftarrow> alloc_tail p p (uint len - uint first) s;
                  Some (if ok then (Some p, upd_pbuf p (\<lambda>h. h\<lparr>pb_ref := 1, pb_flags := 0\<rparr>) s) else (None, s)) })"

definition pbuf_alloc_ram :: "u16 \<Rightarrow> u16 \<Rightarrow> pbufst \<Rightarrow> (pb_ptr option \<times> pbufst) option" where
  "pbuf_alloc_ram offset len s =
     do { (a, h) \<leftarrow> mem_malloc (LWIP_MEM_ALIGN_SIZE (SIZEOF_STRUCT_PBUF + offset) + LWIP_MEM_ALIGN_SIZE len) (pb_heap s);
          let s = s\<lparr>pb_heap := h\<rparr>;
          case a of
            None \<Rightarrow> Some (None, s)
          | Some a \<Rightarrow>
              Some (Some (Ram a), upd_pbuf (Ram a) (\<lambda>h. h\<lparr>pb_payload := Data (Ram a) (uint (LWIP_MEM_ALIGN_SIZE (SIZEOF_STRUCT_PBUF + offset))),
                pb_tot_len := len, pb_len := len, pb_next := None, pb_type := PBUF_RAM, pb_ref := 1, pb_flags := 0\<rparr>) s) }"

definition pbuf_alloc_ref :: "pbuf_type \<Rightarrow> u16 \<Rightarrow> pbufst \<Rightarrow> (pb_ptr option \<times> pbufst) option" where
  "pbuf_alloc_ref type len s =
     (case memp_malloc MEMP_PBUF (pb_pools s) of
        (None, pools) \<Rightarrow> Some (None, s\<lparr>pb_pools := pools\<rparr>)
      | (Some e, pools) \<Rightarrow>
          Some (Some (Ref e), upd_pbuf (Ref e) (\<lambda>h. h\<lparr>pb_payload := Null, pb_tot_len := len, pb_len := len,
            pb_next := None, pb_type := type, pb_ref := 1, pb_flags := 0\<rparr>) (s\<lparr>pb_pools := pools\<rparr>)))"

definition pbuf_alloc :: "pbuf_layer \<Rightarrow> u16 \<Rightarrow> pbuf_type \<Rightarrow> pbufst \<Rightarrow> (pb_ptr option \<times> pbufst) option" where
  "pbuf_alloc layer len type s =
     (case type of
        PBUF_POOL \<Rightarrow> pbuf_alloc_pool (header_room layer) len s
      | PBUF_RAM \<Rightarrow> pbuf_alloc_ram (header_room layer) len s
      | _ \<Rightarrow> pbuf_alloc_ref type len s)"

section \<open>Lengths and chains\<close>

text \<open>The buffers kept whole by \<open>pbuf_realloc\<close>, up to the new last one.\<close>

partial_function (option) realloc_loop :: "u16 \<Rightarrow> pb_ptr \<Rightarrow> u16 \<Rightarrow> pbufst \<Rightarrow> (pb_ptr \<times> u16 \<times> pbufst) option" where
  "realloc_loop grow q rem_len s =
     (if rem_len > pb_len (pb_hdr s q) then
        do { let rem_len = rem_len - pb_len (pb_hdr s q);
             let s = upd_pbuf q (\<lambda>h. h\<lparr>pb_tot_len := pb_tot_len h + grow\<rparr>) s;
             case pb_next (pb_hdr s q) of None \<Rightarrow> None | Some q \<Rightarrow> realloc_loop grow q rem_len s }
      else Some (q, rem_len, s))"

definition trim_ram :: "pb_ptr \<Rightarrow> u16 \<Rightarrow> pbufst \<Rightarrow> pbufst option" where
  "trim_ram q rem_len s =
     (case (q, pb_payload (pb_hdr s q)) of
        (Ram a, Data q' off) \<Rightarrow>
          if q' = q then
            do { (r, h) \<leftarrow> mem_trim a (word_of_int off + rem_len) (pb_heap s);
                 if r = None then None else Some (s\<lparr>pb_heap := h\<rparr>) }
          else None
      | _ \<Rightarrow> None)"

definition pbuf_realloc :: "pb_ptr option \<Rightarrow> u16 \<Rightarrow> pbufst \<Rightarrow> pbufst option" where
  "pbuf_realloc p new_len s =
     (case p of
        None \<Rightarrow> None
      | Some p \<Rightarrow>
          if new_len \<ge> pb_tot_len (pb_hdr s p) then Some s
          else
            do { (q, rem_len, s) \<leftarrow> realloc_loop (new_len - pb_tot_len (pb_hdr s p)) p new_len s;
                 s \<leftarrow> (if pb_type (pb_hdr s q) = PBUF_RAM \<and> rem_len \<noteq> pb_len (pb_hdr s q) then trim_ram q rem_len s else Some s);
                 let s = upd_pbuf q (\<lambda>h. h\<lparr>pb_len := rem_len, pb_tot_len := rem_len\<rparr>) s;
                 s \<leftarrow> (if pb_next (pb_hdr s q) \<noteq> None then do { (_, s) \<leftarrow> pbuf_free (pb_next (pb_hdr s q)) s; Some s } else Some s);
                 Some (upd_pbuf q (\<lambda>h. h\<lparr>pb_next := None\<rparr>) s) })"

text \<open>The increment is a signed 16-bit number; its magnitude is computed in 16 bits without a sign.\<close>

definition external_header :: "pb_ptr \<Rightarrow> u16 \<Rightarrow> (pbuf_struct \<Rightarrow> pbuf_struct) \<Rightarrow> pbufst \<Rightarrow> (u8 \<times> pbufst) option" where
  "external_header p inc lengths s =
     (if sint inc < 0 then
        (case pb_payload (pb_hdr s p) of
           Extern a \<Rightarrow> Some (0, upd_pbuf p (\<lambda>h. lengths (h\<lparr>pb_payload := Extern (a - sint inc)\<rparr>)) s)
         | Data q off \<Rightarrow> Some (0, upd_pbuf p (\<lambda>h. lengths (h\<lparr>pb_payload := Data q (off - sint inc)\<rparr>)) s)
         | Null \<Rightarrow> None)
      else Some (1, s))"

definition pbuf_header :: "pb_ptr option \<Rightarrow> u16 \<Rightarrow> pbufst \<Rightarrow> (u8 \<times> pbufst) option" where
  "pbuf_header p inc s =
     (case p of
        None \<Rightarrow> None
      | Some p \<Rightarrow>
          if inc = 0 then Some (0, s)
          else if sint inc < 0 \<and> \<not> - inc \<le> pb_len (pb_hdr s p) then None
          else
            let lengths = (\<lambda>h. h\<lparr>pb_len := pb_len h + inc, pb_tot_len := pb_tot_len h + inc\<rparr>)
            in case pb_type (pb_hdr s p) of
                 PBUF_ROM \<Rightarrow> external_header p inc lengths s
               | PBUF_REF \<Rightarrow> external_header p inc lengths s
               | _ \<Rightarrow>
                   (case pb_payload (pb_hdr s p) of
                      Data q off \<Rightarrow>
                        if q \<noteq> p then None
                        else if off - sint inc < uint SIZEOF_STRUCT_PBUF then Some (1, s)
                        else Some (0, upd_pbuf p (\<lambda>h. lengths (h\<lparr>pb_payload := Data q (off - sint inc)\<rparr>)) s)
                    | _ \<Rightarrow> None))"

partial_function (option) cat_loop :: "pb_ptr \<Rightarrow> pb_ptr \<Rightarrow> pbufst \<Rightarrow> pbufst option" where
  "cat_loop t p s =
     (case pb_next (pb_hdr s p) of
        Some n \<Rightarrow> cat_loop t n (upd_pbuf p (\<lambda>h. h\<lparr>pb_tot_len := pb_tot_len h + pb_tot_len (pb_hdr s t)\<rparr>) s)
      | None \<Rightarrow>
          if pb_tot_len (pb_hdr s p) \<noteq> pb_len (pb_hdr s p) then None
          else
            let s = upd_pbuf p (\<lambda>h. h\<lparr>pb_tot_len := pb_tot_len h + pb_tot_len (pb_hdr s t)\<rparr>) s
            in Some (upd_pbuf p (\<lambda>h. h\<lparr>pb_next := Some t\<rparr>) s))"

definition pbuf_cat :: "pb_ptr option \<Rightarrow> pb_ptr option \<Rightarrow> pbufst \<Rightarrow> pbufst option" where
  "pbuf_cat h t s = (case (h, t) of (Some h, Some t) \<Rightarrow> cat_loop t h s | _ \<Rightarrow> None)"

definition pbuf_chain :: "pb_ptr option \<Rightarrow> pb_ptr option \<Rightarrow> pbufst \<Rightarrow> pbufst option" where
  "pbuf_chain h t s = do { s \<leftarrow> pbuf_cat h t s; Some (pbuf_ref t s) }"

definition pbuf_dechain :: "pb_ptr \<Rightarrow> pbufst \<Rightarrow> (pb_ptr option \<times> pbufst) option" where
  "pbuf_dechain p s =
     do { let q = pb_next (pb_hdr s p);
          (tail_gone, s) \<leftarrow>
            (case q of
               None \<Rightarrow> Some (1, s)
             | Some q \<Rightarrow>
                 if uint (pb_tot_len (pb_hdr s q)) \<noteq> uint (pb_tot_len (pb_hdr s p)) - uint (pb_len (pb_hdr s p)) then None
                 else
                   let s = upd_pbuf q (\<lambda>h. h\<lparr>pb_tot_len := pb_tot_len (pb_hdr s p) - pb_len (pb_hdr s p)\<rparr>) s;
                       s = upd_pbuf p (\<lambda>h. h\<lparr>pb_next := None, pb_tot_len := pb_len h\<rparr>) s
                   in pbuf_free (Some q) s);
          if pb_tot_len (pb_hdr s p) \<noteq> pb_len (pb_hdr s p) then None
          else Some (if tail_gone > 0 then None else q, s) }"

section \<open>Copying\<close>

definition single_packet :: "pbufst \<Rightarrow> pb_ptr option \<Rightarrow> bool" where
  "single_packet s p = (case p of None \<Rightarrow> True | Some p \<Rightarrow>
     pb_len (pb_hdr s p) = pb_tot_len (pb_hdr s p) \<longrightarrow> pb_next (pb_hdr s p) = None)"

partial_function (option) pbuf_copy_loop :: "pb_ptr option \<Rightarrow> pb_ptr \<Rightarrow> u16 \<Rightarrow> u16 \<Rightarrow> pbufst \<Rightarrow> (err_t \<times> pbufst) option" where
  "pbuf_copy_loop p_to p_from offset_to offset_from s =
     (case p_to of
        None \<Rightarrow> None
      | Some p_to \<Rightarrow>
          do { let room = uint (pb_len (pb_hdr s p_to)) - uint offset_to;
               let left = uint (pb_len (pb_hdr s p_from)) - uint offset_from;
               let len = (if room \<ge> left then pb_len (pb_hdr s p_from) - offset_from else pb_len (pb_hdr s p_to) - offset_to);
               octets \<leftarrow> load_octets s (pb_payload (pb_hdr s p_from)) (uint offset_from) (unat len);
               s \<leftarrow> store_octets (pb_payload (pb_hdr s p_to)) (uint offset_to) octets s;
               let offset_to = offset_to + len;
               let offset_from = offset_from + len;
               if \<not> offset_to \<le> pb_len (pb_hdr s p_to) then None
               else do {
                 let (offset_to, p_to) = (if offset_to = pb_len (pb_hdr s p_to) then (0, pb_next (pb_hdr s p_to)) else (offset_to, Some p_to));
                 if \<not> offset_from \<le> pb_len (pb_hdr s p_from) then None
                 else do {
                   let (offset_from, p_from) = (if offset_from \<ge> pb_len (pb_hdr s p_from) then (0, pb_next (pb_hdr s p_from)) else (offset_from, Some p_from));
                   if \<not> single_packet s p_from \<or> \<not> single_packet s p_to then None
                   else case p_from of None \<Rightarrow> Some (ERR_OK, s)
                     | Some p_from \<Rightarrow> pbuf_copy_loop p_to p_from offset_to offset_from s } } })"

definition pbuf_copy :: "pb_ptr option \<Rightarrow> pb_ptr option \<Rightarrow> pbufst \<Rightarrow> (err_t \<times> pbufst) option" where
  "pbuf_copy p_to p_from s =
     (case (p_to, p_from) of
        (Some p_to, Some p_from) \<Rightarrow>
          if pb_tot_len (pb_hdr s p_to) \<ge> pb_tot_len (pb_hdr s p_from) then pbuf_copy_loop (Some p_to) p_from 0 0 s
          else None
      | _ \<Rightarrow> None)"

text \<open>The octets written behind \<open>dataptr\<close> are the list returned, their number the count.\<close>

partial_function (option) copy_partial_loop :: "pbufst \<Rightarrow> pb_ptr option \<Rightarrow> u16 \<Rightarrow> u16 \<Rightarrow> u16 \<Rightarrow> u8 list \<Rightarrow> (u16 \<times> u8 list) option" where
  "copy_partial_loop s p len offset copied_total out =
     (case p of
        None \<Rightarrow> Some (copied_total, out)
      | Some p \<Rightarrow>
          if len = 0 then Some (copied_total, out)
          else if offset \<noteq> 0 \<and> offset \<ge> pb_len (pb_hdr s p) then
            copy_partial_loop s (pb_next (pb_hdr s p)) len (offset - pb_len (pb_hdr s p)) copied_total out
          else
            do { let buf_copy_len = pb_len (pb_hdr s p) - offset;
                 let buf_copy_len = (if buf_copy_len > len then len else buf_copy_len);
                 octets \<leftarrow> load_octets s (pb_payload (pb_hdr s p)) (uint offset) (unat buf_copy_len);
                 copy_partial_loop s (pb_next (pb_hdr s p)) (len - buf_copy_len) 0 (copied_total + buf_copy_len) (out @ octets) })"

definition pbuf_copy_out :: "pb_ptr option \<Rightarrow> u16 \<Rightarrow> u16 \<Rightarrow> pbufst \<Rightarrow> (u16 \<times> u8 list) option" where
  "pbuf_copy_out buf len offset s = (if buf = None then None else copy_partial_loop s buf len offset 0 [])"

partial_function (option) take_loop :: "pb_ptr option \<Rightarrow> u8 list \<Rightarrow> u16 \<Rightarrow> u16 \<Rightarrow> pbufst \<Rightarrow> (u16 \<times> pbufst) option" where
  "take_loop p dataptr total_copy_len copied_total s =
     (if total_copy_len = 0 then Some (copied_total, s)
      else case p of
        None \<Rightarrow> None
      | Some p \<Rightarrow>
          do { let buf_copy_len = (if total_copy_len > pb_len (pb_hdr s p) then pb_len (pb_hdr s p) else total_copy_len);
               s \<leftarrow> store_octets (pb_payload (pb_hdr s p)) 0 (take (unat buf_copy_len) (drop (unat copied_total) dataptr)) s;
               take_loop (pb_next (pb_hdr s p)) dataptr (total_copy_len - buf_copy_len) (copied_total + buf_copy_len) s })"

definition pbuf_take :: "pb_ptr option \<Rightarrow> u8 list \<Rightarrow> u16 \<Rightarrow> pbufst \<Rightarrow> (err_t \<times> pbufst) option" where
  "pbuf_take buf dataptr len s =
     (case buf of
        None \<Rightarrow> None
      | Some p \<Rightarrow>
          if pb_tot_len (pb_hdr s p) < len then Some (ERR_ARG, s)
          else do { (copied_total, s) \<leftarrow> take_loop (Some p) dataptr len 0 s;
                    if copied_total \<noteq> len then None else Some (ERR_OK, s) })"

definition pbuf_coalesce :: "pb_ptr \<Rightarrow> pbuf_layer \<Rightarrow> pbufst \<Rightarrow> (pb_ptr \<times> pbufst) option" where
  "pbuf_coalesce p layer s =
     (if pb_next (pb_hdr s p) = None then Some (p, s)
      else
        do { (q, s) \<leftarrow> pbuf_alloc layer (pb_tot_len (pb_hdr s p)) PBUF_RAM s;
             case q of
               None \<Rightarrow> Some (p, s)
             | Some q \<Rightarrow>
                 do { (err, s) \<leftarrow> pbuf_copy (Some q) (Some p) s;
                      if err \<noteq> ERR_OK then None
                      else do { (_, s) \<leftarrow> pbuf_free (Some p) s; Some (q, s) } } })"

definition pbuf_fill_chksum :: "pb_ptr \<Rightarrow> u16 \<Rightarrow> u8 list \<Rightarrow> u16 \<Rightarrow> u16 \<Rightarrow> pbufst \<Rightarrow> (err_t \<times> u16 \<times> pbufst) option" where
  "pbuf_fill_chksum p start_offset dataptr len chksum s =
     (if len = 0 then None
      else if start_offset \<ge> pb_len (pb_hdr s p) \<or> unat start_offset + unat len > unat (pb_len (pb_hdr s p)) then Some (ERR_ARG, chksum, s)
      else
        do { let (copy_chksum, octets) = lwip_chksum_copy (take (unat len) dataptr);
             s \<leftarrow> store_octets (pb_payload (pb_hdr s p)) (uint start_offset) octets s;
             let copy_chksum = (if start_offset AND 1 \<noteq> 0 then ucast (SWAP_BYTES_IN_WORD (ucast copy_chksum)) else copy_chksum);
             let acc = ucast chksum + ucast copy_chksum;
             Some (ERR_OK, ucast (FOLD_U32T acc), s) })"

section \<open>Searching\<close>

partial_function (option) skip_loop :: "pbufst \<Rightarrow> pb_ptr option \<Rightarrow> u16 \<Rightarrow> (pb_ptr option \<times> u16) option" where
  "skip_loop s q copy_from =
     (case q of
        None \<Rightarrow> Some (None, copy_from)
      | Some p \<Rightarrow>
          if pb_len (pb_hdr s p) \<le> copy_from then skip_loop s (pb_next (pb_hdr s p)) (copy_from - pb_len (pb_hdr s p))
          else Some (Some p, copy_from))"

definition pbuf_get_at :: "pb_ptr option \<Rightarrow> u16 \<Rightarrow> pbufst \<Rightarrow> u8 option" where
  "pbuf_get_at p offset s =
     do { (q, copy_from) \<leftarrow> skip_loop s p offset;
          case q of None \<Rightarrow> Some 0 | Some q \<Rightarrow> load_data s (pb_payload (pb_hdr s q)) (uint copy_from) }"

fun memcmp_loop :: "pbufst \<Rightarrow> pb_ptr option \<Rightarrow> u16 \<Rightarrow> u16 \<Rightarrow> u8 list \<Rightarrow> u16 option" where
  "memcmp_loop s q start i [] = Some 0"
| "memcmp_loop s q start i (b # s2) =
     do { a \<leftarrow> pbuf_get_at q (start + i) s;
          if a \<noteq> b then Some (i + 1) else memcmp_loop s q start (i + 1) s2 }"

text \<open>The memory compared with, \<open>s2\<close>, has \<open>n\<close> octets.\<close>

definition pbuf_memcmp :: "pb_ptr option \<Rightarrow> u16 \<Rightarrow> u8 list \<Rightarrow> pbufst \<Rightarrow> u16 option" where
  "pbuf_memcmp p offset s2 s =
     do { (q, start) \<leftarrow> skip_loop s p offset;
          case q of None \<Rightarrow> Some 0xffff | Some q \<Rightarrow> memcmp_loop s (Some q) start 0 s2 }"

partial_function (option) memfind_loop :: "pbufst \<Rightarrow> pb_ptr \<Rightarrow> u8 list \<Rightarrow> u16 \<Rightarrow> u16 \<Rightarrow> u16 option" where
  "memfind_loop s p mem_ptr max_i i =
     (if i \<le> max_i then
        do { plus \<leftarrow> pbuf_memcmp (Some p) i mem_ptr s;
             if plus = 0 then Some i else memfind_loop s p mem_ptr max_i (i + plus) }
      else Some 0xFFFF)"

definition pbuf_memfind :: "pb_ptr \<Rightarrow> u8 list \<Rightarrow> u16 \<Rightarrow> pbufst \<Rightarrow> u16 option" where
  "pbuf_memfind p mem_ptr start_offset s =
     (let mem_len = of_nat (length mem_ptr); max_i = pb_tot_len (pb_hdr s p) - mem_len
      in if unat (pb_tot_len (pb_hdr s p)) \<ge> length mem_ptr + unat start_offset then memfind_loop s p mem_ptr max_i start_offset
         else Some 0xFFFF)"

definition pbuf_strstr :: "pb_ptr \<Rightarrow> u8 list \<Rightarrow> pbufst \<Rightarrow> u16 option" where
  "pbuf_strstr p substr s =
     (if substr = [] \<or> pb_tot_len (pb_hdr s p) = 0xFFFF then Some 0xFFFF
      else if length substr \<ge> 0xFFFF then Some 0xFFFF
      else pbuf_memfind p substr 0 s)"

text \<open>
  The search skips as many octets as agreed: it does not find \<open>aab\<close> in \<open>aaab\<close>. The comparison reads
  zeros behind the end of a buffer and takes them for data.
\<close>

definition text_buffer :: "u8 list \<Rightarrow> pbufst" where
  "text_buffer bs = \<lparr>
     pb_heap = \<lparr>ram = (\<lambda>_. 0), ram_end = 0, lfree = 0, mem_stats = \<lparr>st_avail = 0, st_used = 0, st_max = 0, st_err = 0, st_illegal = 0\<rparr>\<rparr>,
     pb_pools = \<lparr>memp_tab = (\<lambda>_. None), memp_next = (\<lambda>_ _. None), memp_stats = (\<lambda>_. \<lparr>st_avail = 0, st_used = 0, st_max = 0, st_err = 0, st_illegal = 0\<rparr>)\<rparr>,
     pb_hdr = (\<lambda>_. \<lparr>pb_next = None, pb_payload = Extern 0, pb_tot_len = of_nat (length bs), pb_len = of_nat (length bs),
       pb_type = PBUF_ROM, pb_flags = 0, pb_ref = 1\<rparr>),
     pool_data = (\<lambda>_ _. 0), ext_data = (\<lambda>a. if 0 \<le> a \<and> a < int (length bs) then bs ! nat a else 0)\<rparr>"

lemma memfind_misses: "pbuf_memfind (Ref 0) [97, 97, 98] 0 (text_buffer [97, 97, 97, 98]) = Some 0xFFFF"
proof -
  let ?s = "text_buffer [97, 97, 97, 98]"
  have c: "pbuf_memcmp (Some (Ref 0)) 0 [97, 97, 98] ?s = Some 3"
    by (simp add: text_buffer_def pbuf_memcmp_def skip_loop.simps pbuf_get_at_def load_data_def word_le_def)
  have "memfind_loop ?s (Ref 0) [97, 97, 98] 1 3 = Some 0xFFFF" by (subst memfind_loop.simps) (simp add: word_le_def)
  then have "memfind_loop ?s (Ref 0) [97, 97, 98] 1 0 = Some 0xFFFF" by (subst memfind_loop.simps) (simp add: c)
  moreover have "pb_tot_len (pb_hdr ?s (Ref 0)) = 4" by (simp add: text_buffer_def)
  ultimately show ?thesis by (simp add: pbuf_memfind_def)
qed

lemma memcmp_beyond_end: "pbuf_memcmp (Some (Ref 0)) 0 [97, 0, 0] (text_buffer [97]) = Some 0"
  by (simp add: text_buffer_def pbuf_memcmp_def skip_loop.simps pbuf_get_at_def load_data_def word_le_def)

end
