(* ===== verification/Lwip_Heap_Blocks.thy ===== *)
theory Lwip_Heap_Blocks
  imports Lwip_Heap
begin

unbundle bit_operations_syntax

text \<open>
  The heap as a list of blocks: the headers in the array form a doubly linked list that tiles it,
  free blocks are never adjacent, and \<open>lfree\<close> is the first of them. Every operation of
  \<open>Lwip_Heap\<close> refines an operation on the list, and none touches the data of a block in use.
\<close>

section \<open>Octets\<close>

lemma load16_store16 [simp]: "load16 (store16 a v f) a = v"
proof (rule bit_word_eqI)
  fix n assume "n < LENGTH(16)"
  then show "bit (load16 (store16 a v f) a) n = bit v n"
    by (cases "n < 8") (auto simp: load16_def store16_def bit_simps not_less)
qed

lemma store16_other [simp]: "x \<noteq> a \<Longrightarrow> x \<noteq> a + 1 \<Longrightarrow> store16 a v f x = f x"
  by (simp add: store16_def)

lemma store16_above [simp]: "a + 1 < x \<Longrightarrow> store16 a v f x = f x" and store16_below [simp]: "x < a \<Longrightarrow> store16 a v f x = f x"
  by (simp_all add: store16_def)

lemma load16_cong: "f a = g a \<Longrightarrow> f (a + 1) = g (a + 1) \<Longrightarrow> load16 f a = load16 g a"
  by (simp add: load16_def)

lemma load16_store16_above [simp]: "a + 1 < b \<Longrightarrow> load16 (store16 a v f) b = load16 f b"
  and load16_store16_below [simp]: "b + 1 < a \<Longrightarrow> load16 (store16 a v f) b = load16 f b"
  by (simp_all add: load16_def)

lemma load16_upd_above [simp]: "a < b \<Longrightarrow> load16 (f(a := v)) b = load16 f b"
  and load16_upd_below [simp]: "b + 1 < a \<Longrightarrow> load16 (f(a := v)) b = load16 f b"
  by (simp_all add: load16_def)

lemma uint_of_int16: "0 \<le> i \<Longrightarrow> i < 65536 \<Longrightarrow> uint (word_of_int i :: u16) = i"
  by (simp add: uint_word_of_int)

lemma uint_plus16: "uint a + uint b < 65536 \<Longrightarrow> uint (a + b :: u16) = uint a + uint b"
  by (simp add: uint_word_ariths)

lemma diff_word16: "uint (w :: u16) = p + n \<Longrightarrow> w - word_of_int p = word_of_int n"
  by (metis add_diff_cancel_left' word_of_int_uint wi_hom_sub)

section \<open>Blocks\<close>

text \<open>
  \<open>seg f p q bs r t\<close>: from offset \<open>p\<close> to \<open>r\<close> the array holds the blocks \<open>bs\<close> (size with header, in use),
  the block before the first is at \<open>q\<close> and the last is at \<open>t\<close>.
\<close>

type_synonym block = "int \<times> bool"

fun seg :: "(int \<Rightarrow> u8) \<Rightarrow> int \<Rightarrow> int \<Rightarrow> block list \<Rightarrow> int \<Rightarrow> int \<Rightarrow> bool" where
  "seg f p q [] r t \<longleftrightarrow> r = p \<and> t = q"
| "seg f p q ((n, u) # bs) r t \<longleftrightarrow>
     20 \<le> n \<and> 4 dvd n \<and> uint (load16 f p) = p + n \<and> uint (load16 f (p + 2)) = q \<and> f (p + 4) = (if u then 1 else 0) \<and>
     seg f (p + n) p bs r t"

fun first_free :: "int \<Rightarrow> block list \<Rightarrow> int" where
  "first_free p [] = p"
| "first_free p ((n, u) # bs) = (if u then first_free (p + n) bs else p)"

fun coalesced :: "block list \<Rightarrow> bool" where
  "coalesced ((n, u) # (m, v) # bs) \<longleftrightarrow> (u \<or> v) \<and> coalesced ((m, v) # bs)"
| "coalesced bs \<longleftrightarrow> True"

definition used_size :: "block list \<Rightarrow> int" where
  "used_size bs = sum_list (map fst (filter snd bs))"

text \<open>The addresses of the data of the blocks in use, and the blocks in use by address.\<close>

fun payload :: "int \<Rightarrow> block list \<Rightarrow> int \<Rightarrow> bool" where
  "payload p [] a \<longleftrightarrow> False"
| "payload p ((n, u) # bs) a \<longleftrightarrow> u \<and> p + 8 \<le> a \<and> a < p + n \<or> payload (p + n) bs a"

definition heap_ok :: "block list \<Rightarrow> heapst \<Rightarrow> bool" where
  "heap_ok bs h \<longleftrightarrow> (\<exists>t. seg (ram h) 0 0 bs 32404 t) \<and> ram h 32408 = 1 \<and> ram_end h = 32404 \<and>
     lfree h = first_free 0 bs \<and> coalesced bs \<and> st_used (mem_stats h) = word_of_int (used_size bs)"

definition same_data :: "int \<Rightarrow> block list \<Rightarrow> (int \<Rightarrow> u8) \<Rightarrow> (int \<Rightarrow> u8) \<Rightarrow> bool" where
  "same_data p bs f g \<longleftrightarrow> (\<forall>a. payload p bs a \<longrightarrow> g a = f a)"

lemma seg_bounds: "seg f p q bs r t \<Longrightarrow> p + 20 * int (length bs) \<le> r"
  by (induction bs arbitrary: p q) (auto, force)

lemma seg_le: "seg f p q bs r t \<Longrightarrow> p \<le> r"
  using seg_bounds [of f p q bs r t] by linarith

lemma seg_append: "seg f p q (xs @ ys) r t \<longleftrightarrow> (\<exists>p' q'. seg f p q xs p' q' \<and> seg f p' q' ys r t)"
  by (induction xs arbitrary: p q) (auto, blast+)

lemma seg_aligned: "seg f p q bs r t \<Longrightarrow> 4 dvd p \<Longrightarrow> 4 dvd r"
  by (induction bs arbitrary: p q) auto

lemma seg_end: "seg f p q bs r t \<Longrightarrow> r = p + sum_list (map fst bs)"
proof (induction bs arbitrary: p q)
  case (Cons b bs)
  obtain n u where b: "b = (n, u)" by (cases b)
  with Cons.prems have "seg f (p + n) p bs r t" by simp
  from Cons.IH [OF this] b show ?case by simp
qed simp

lemma seg_frame:
  assumes "seg f p q bs r t" "\<And>a. p \<le> a \<Longrightarrow> a < r \<Longrightarrow> g a = f a"
  shows "seg g p q bs r t"
  using assms
proof (induction bs arbitrary: p q)
  case (Cons b bs)
  obtain n u where b: "b = (n, u)" by (cases b)
  from Cons.prems(1) b have r: "20 \<le> n" "seg f (p + n) p bs r t" by auto
  have "p + n \<le> r" using seg_le [OF r(2)] .
  then have "load16 g p = load16 f p" "load16 g (p + 2) = load16 f (p + 2)" "g (p + 4) = f (p + 4)"
    using r(1) Cons.prems(2) by (auto intro!: load16_cong)
  moreover have "seg g (p + n) p bs r t" using Cons.IH [OF r(2)] Cons.prems(2) r(1) by auto
  ultimately show ?case using Cons.prems(1) b by simp
qed simp

lemma seg_last: "seg f p q bs r t \<Longrightarrow> bs \<noteq> [] \<Longrightarrow> t < r \<and> p \<le> t"
proof (induction bs arbitrary: p q)
  case (Cons b bs)
  then show ?case by (cases b; cases bs) fastforce+
qed simp

text \<open>The next blocks keep their place when only the back link of the first is written.\<close>

lemma seg_relink:
  assumes "seg f p q bs r t" "\<And>a. p \<le> a \<Longrightarrow> a < r \<Longrightarrow> a \<noteq> p + 2 \<Longrightarrow> a \<noteq> p + 3 \<Longrightarrow> g a = f a"
    "bs \<noteq> [] \<Longrightarrow> uint (load16 g (p + 2)) = q'"
  shows "\<exists>t'. seg g p q' bs r t'"
proof (cases bs)
  case (Cons b cs)
  obtain n u where b: "b = (n, u)" by (cases b)
  from assms(1) Cons b have r: "20 \<le> n" "seg f (p + n) p cs r t" by auto
  have "p + n \<le> r" using seg_le [OF r(2)] .
  then have "load16 g p = load16 f p" "g (p + 4) = f (p + 4)"
    using r(1) assms(2) by (auto intro!: load16_cong)
  moreover have "seg g (p + n) p cs r t" by (rule seg_frame [OF r(2)]) (use assms(2) r(1) in auto)
  ultimately show ?thesis using assms(1,3) Cons b by auto
qed (use assms(1) in simp)

lemma payload_append:
  "seg f p q xs p' q' \<Longrightarrow> payload p (xs @ ys) a \<longleftrightarrow> payload p xs a \<or> payload p' ys a"
  by (induction xs arbitrary: p q) auto

lemma payload_range: "seg f p q bs r t \<Longrightarrow> payload p bs a \<Longrightarrow> p + 8 \<le> a \<and> a < r"
proof (induction bs arbitrary: p q)
  case (Cons b bs)
  obtain n u where b: "b = (n, u)" by (cases b)
  with Cons.prems seg_le [of f "p + n" p bs r t] Cons.IH [of "p + n" p] show ?case by auto
qed simp

text \<open>
  Replacing the blocks between \<open>p\<close> and \<open>r\<close>: everything outside is kept except for the back link of the
  block at \<open>r\<close>.
\<close>

lemma seg_edit:
  assumes "seg f 0 0 xs p a" "seg f r b ys e t" "seg g p a mid r b'" "p \<le> r"
    "\<And>x. x < p \<or> r \<le> x \<Longrightarrow> x \<noteq> r + 2 \<Longrightarrow> x \<noteq> r + 3 \<Longrightarrow> g x = f x"
    "ys \<noteq> [] \<Longrightarrow> uint (load16 g (r + 2)) = b'"
  shows "\<exists>t'. seg g 0 0 (xs @ mid @ ys) e t'" "same_data 0 xs f g" "same_data r ys f g" "g (e + 4) = f (e + 4)"
proof -
  have "seg g 0 0 xs p a" by (rule seg_frame [OF assms(1)]) (use assms(4,5) in auto)
  moreover obtain t' where "seg g r b' ys e t'" using seg_relink [OF assms(2), of g b'] assms(5,6) by auto
  ultimately show "\<exists>t'. seg g 0 0 (xs @ mid @ ys) e t'" using assms(3) by (simp only: seg_append) blast
  show "same_data 0 xs f g"
    using payload_range [OF assms(1)] assms(4,5) by (force simp: same_data_def)
  show "same_data r ys f g"
    using payload_range [OF assms(2)] assms(5) by (force simp: same_data_def)
  show "g (e + 4) = f (e + 4)" using seg_le [OF assms(2)] assms(5) by simp
qed

section \<open>Allocation on the list\<close>

fun fit :: "int \<Rightarrow> int \<Rightarrow> block list \<Rightarrow> int option" where
  "fit m p [] = None"
| "fit m p ((n, u) # bs) = (if \<not> u \<and> m + 8 \<le> n then Some p else fit m (p + n) bs)"

definition carve :: "int \<Rightarrow> int \<Rightarrow> block list" where
  "carve m n = (if m + 28 \<le> n then [(m + 8, True), (n - m - 8, False)] else [(n, True)])"

fun alloc :: "int \<Rightarrow> block list \<Rightarrow> block list" where
  "alloc m [] = []"
| "alloc m ((n, u) # bs) = (if \<not> u \<and> m + 8 \<le> n then carve m n @ bs else (n, u) # alloc m bs)"

lemma fit_none: "seg f p q bs r t \<Longrightarrow> r \<le> p + m \<Longrightarrow> fit m p bs = None"
proof (induction bs arbitrary: p q)
  case (Cons b bs)
  obtain n u where b: "b = (n, u)" by (cases b)
  with Cons.prems seg_le [of f "p + n" p bs r t] Cons.IH [of "p + n" p] show ?case by auto
qed simp

lemma fit_first_free: "0 \<le> m \<Longrightarrow> fit m (first_free p bs) (dropWhile snd bs) = fit m p bs"
  by (induction bs arbitrary: p) auto

lemma seg_first_free: "seg f p q bs r t \<Longrightarrow> \<exists>q'. seg f (first_free p bs) q' (dropWhile snd bs) r t"
  by (induction bs arbitrary: p q) auto

lemma fit_split:
  "fit m p bs = Some l \<Longrightarrow> seg f p q bs r t \<Longrightarrow>
   \<exists>xs n ys a. bs = xs @ (n, False) # ys \<and> m + 8 \<le> n \<and> seg f p q xs l a \<and> seg f l a ((n, False) # ys) r t \<and>
     alloc m bs = xs @ carve m n @ ys"
proof (induction bs arbitrary: p q)
  case (Cons b bs)
  obtain n u where b: "b = (n, u)" by (cases b)
  show ?case
  proof (cases "\<not> u \<and> m + 8 \<le> n")
    case True
    with Cons.prems b show ?thesis by (intro exI [of _ "[]"]) auto
  next
    case False
    with Cons.prems b have "fit m (p + n) bs = Some l" "seg f (p + n) p bs r t" by (auto split: if_splits)
    from Cons.IH [OF this] obtain xs k ys a where
      "bs = xs @ (k, False) # ys" "m + 8 \<le> k" "seg f (p + n) p xs l a" "seg f l a ((k, False) # ys) r t" "alloc m bs = xs @ carve m k @ ys"
      by blast
    moreover have "alloc m (b # bs) = b # alloc m bs" using False b by auto
    moreover have "seg f p q (b # xs) l a" using Cons.prems(2) b \<open>seg f (p + n) p xs l a\<close> by auto
    ultimately show ?thesis by (intro exI [of _ "b # xs"] exI [of _ k] exI [of _ ys] exI [of _ a]) auto
  qed
qed simp

section \<open>The loops of mem\_malloc\<close>

lemma data_size_value:
  assumes "uint (mem_next h p) = p + n" "8 \<le> n" "0 \<le> p"
  shows "uint (data_size h (word_of_int p)) = n - 8"
proof -
  have b: "p + n < 65536" using uint_lt2p [of "mem_next h p"] assms(1) by simp
  then have p: "uint (word_of_int p :: u16) = p" using assms by (intro uint_of_int16) auto
  have u: "uint (ucast w :: u32) = uint w" for w :: u16 by (simp add: uint_up_ucast is_up)
  have "uint (data_size h (word_of_int p)) = (p + n - (p + 8)) mod 2 ^ 32"
    unfolding data_size_def p
    by (simp only: uint_word_ariths u assms(1) p layout) (simp add: mod_simps)
  then show ?thesis using assms b by simp
qed

lemma find_block_fit:
  assumes "seg (ram h) p q bs 32404 t" "0 \<le> p"
  shows "find_block sz h (word_of_int p) = Some (map_option word_of_int (fit (uint sz) p bs))"
  using assms
proof (induction bs arbitrary: p q)
  case Nil
  then show ?case by (subst find_block.simps) simp
next
  case (Cons b bs)
  obtain n u where b: "b = (n, u)" by (cases b)
  from Cons.prems b have s: "20 \<le> n" "uint (mem_next h p) = p + n" "seg (ram h) (p + n) p bs 32404 t"
    "mem_used h p = (if u then 1 else 0)" by (auto simp: mem_next_def mem_used_def)
  have r: "p + n \<le> 32404" using seg_le [OF s(3)] .
  have p: "uint (word_of_int p :: u16) = p" using r s(1) Cons.prems(2) by (intro uint_of_int16) auto
  have nx: "mem_next h p = word_of_int (p + n)" using s(2) by (metis word_of_int_uint)
  have "uint (ucast sz :: u32) = uint sz" by (simp add: uint_up_ucast is_up)
  then have d: "ucast sz \<le> data_size h (word_of_int p) \<longleftrightarrow> uint sz + 8 \<le> n"
    using data_size_value [OF s(2) _ Cons.prems(2)] s(1) by (simp add: word_le_def) auto
  show ?case
  proof (cases "p < 32404 - uint sz")
    case True
    then show ?thesis
      using Cons.IH [OF s(3)] Cons.prems(2) s(1,4) b nx d p by (subst find_block.simps) auto
  next
    case False
    then have "fit (uint sz) p (b # bs) = None" using fit_none [OF Cons.prems(1)] by simp
    with False p show ?thesis by (subst find_block.simps) simp
  qed
qed

lemma next_lfree_first:
  assumes "seg (ram h) p q bs (ram_end h) t" "0 \<le> p" "ram_end h = 32404"
  shows "next_lfree h p = Some (first_free p bs)"
  using assms
proof (induction bs arbitrary: p q)
  case Nil
  then show ?case by (subst next_lfree.simps) simp
next
  case (Cons b bs)
  obtain n u where b: "b = (n, u)" by (cases b)
  from Cons.prems b have s: "20 \<le> n" "uint (mem_next h p) = p + n" "seg (ram h) (p + n) p bs (ram_end h) t"
    "mem_used h p = (if u then 1 else 0)" by (auto simp: mem_next_def mem_used_def)
  have r: "p + n \<le> 32404" using seg_le [OF s(3)] Cons.prems(3) by simp
  have "at_ram (mem_next h p) = Some (p + n)" using s(2) r by (simp add: at_ram_def)
  then show ?case using Cons.IH [OF s(3)] Cons.prems(2,3) s(1,4) r b by (subst next_lfree.simps) auto
qed

section \<open>Taking a block\<close>

text \<open>
  What an operation that replaces the blocks from \<open>p\<close> to \<open>r\<close> by \<open>mid\<close> leaves: the list, the data of the
  blocks outside, the end of the heap.
\<close>

definition edited :: "block list \<Rightarrow> int \<Rightarrow> block list \<Rightarrow> block list \<Rightarrow> heapst \<Rightarrow> heapst \<Rightarrow> bool" where
  "edited xs r mid ys h h' \<longleftrightarrow> (\<exists>t. seg (ram h') 0 0 (xs @ mid @ ys) 32404 t) \<and> same_data 0 xs (ram h) (ram h') \<and>
     same_data r ys (ram h) (ram h') \<and> ram h' 32408 = ram h 32408 \<and> ram_end h' = ram_end h"

lemma editedI:
  assumes "seg (ram h) 0 0 xs p a" "seg (ram h) r b ys 32404 t" "seg (ram h') p a mid r b'"
    "\<And>x. x < p \<or> r \<le> x \<Longrightarrow> x \<noteq> r + 2 \<Longrightarrow> x \<noteq> r + 3 \<Longrightarrow> ram h' x = ram h x"
    "ys \<noteq> [] \<Longrightarrow> uint (load16 (ram h') (r + 2)) = b'" "ram_end h' = ram_end h"
  shows "edited xs r mid ys h h'"
  using seg_edit [OF assms(1-3) seg_le [OF assms(3)], OF assms(4,5)] assms(6) by (simp add: edited_def)

lemmas heap_defs = set_next_def set_prev_def set_used_def mem_next_def mem_prev_def mem_used_def

lemma seg_Nil_iff: "seg f p q bs r t \<Longrightarrow> bs = [] \<longleftrightarrow> p = r"
  using seg_bounds [of f p q bs r t] by (cases bs) auto

lemma seg_prev: "seg f p q bs r t \<Longrightarrow> bs \<noteq> [] \<Longrightarrow> uint (load16 f (p + 2)) = q"
  by (cases bs) auto

lemma inc_used_fields [simp]: "ram (MEM_STATS_INC_USED y h) = ram h" "ram_end (MEM_STATS_INC_USED y h) = ram_end h"
  "lfree (MEM_STATS_INC_USED y h) = lfree h" "st_used (mem_stats (MEM_STATS_INC_USED y h)) = st_used (mem_stats h) + y"
  by (simp_all add: MEM_STATS_INC_USED_def Let_def)

lemma dec_used_fields [simp]: "ram (MEM_STATS_DEC_USED y h) = ram h" "ram_end (MEM_STATS_DEC_USED y h) = ram_end h"
  "lfree (MEM_STATS_DEC_USED y h) = lfree h" "st_used (mem_stats (MEM_STATS_DEC_USED y h)) = st_used (mem_stats h) - y"
  by (simp_all add: MEM_STATS_DEC_USED_def)

lemma take_block_effect:
  assumes "seg (ram h) 0 0 xs p a" "seg (ram h) p a ((n, False) # ys) 32404 t"
    "uint sz + 8 \<le> n" "12 \<le> uint sz" "4 dvd uint sz"
  shows "\<exists>h'. take_block sz (word_of_int p) h = Some h' \<and> edited xs (p + n) (carve (uint sz) n) ys h h' \<and>
    lfree h' = lfree h \<and> st_used (mem_stats h') = st_used (mem_stats h) + word_of_int (used_size (carve (uint sz) n))"
proof -
  let ?f = "ram h" and ?m = "uint sz" and ?ptr = "word_of_int p :: u16"
  from assms(2) have s: "20 \<le> n" "4 dvd n" "uint (load16 ?f p) = p + n" "uint (load16 ?f (p + 2)) = a" "?f (p + 4) = 0"
    "seg ?f (p + n) p ys 32404 t" by auto
  have p0: "0 \<le> p" using seg_le [OF assms(1)] .
  have r: "p + n \<le> 32404" using seg_le [OF s(6)] .
  have p: "uint ?ptr = p" by (rule uint_of_int16 [OF p0]) (use r s(1) in linarith)
  have u: "uint (ucast w :: u32) = uint w" for w :: u16 by (simp add: uint_up_ucast is_up)
  have m: "?m < 65536" using uint_lt2p [of sz] by simp
  have "uint (ucast sz + ucast SIZEOF_STRUCT_MEM + ucast MIN_SIZE_ALIGNED :: u32) = ?m + 20"
    using m by (simp add: uint_word_ariths u)
  then have split: "ucast sz + ucast SIZEOF_STRUCT_MEM + ucast MIN_SIZE_ALIGNED \<le> data_size h ?ptr \<longleftrightarrow> ?m + 28 \<le> n"
    using data_size_value [of h p n] s(1,3) p0 by (simp add: word_le_def mem_next_def) auto
  show ?thesis
  proof (cases "?m + 28 \<le> n")
    case True
    let ?w = "?ptr + SIZEOF_STRUCT_MEM + sz" and ?q = "p + (?m + 8)" and ?v = "load16 ?f p"
    have w: "uint ?w = ?q" using True p r assms(4) by (simp add: uint_plus16)
    have at: "at_ram ?v = Some (p + n)" using s(3) r by (simp add: at_ram_def)
    have e: "?v = 32404 \<longleftrightarrow> ys = []" using seg_Nil_iff [OF s(6)] s(3) by (simp add: word_uint_eq_iff)
    let ?G = "(store16 p ?w (store16 (?q + 2) ?ptr (store16 ?q ?v (?f(?q + 4 := 0)))))(p + 4 := 1)"
    let ?g = "if ys \<noteq> [] then store16 (p + n + 2) ?w ?G else ?G"
    let ?h = "MEM_STATS_INC_USED (sz + 8) (h\<lparr>ram := ?g\<rparr>)"
    have "take_block sz ?ptr h = Some ?h"
      unfolding take_block_def split
      using True w p e at assms(3,4) by (simp add: Let_def heap_defs)
    moreover have "seg (ram ?h) p a (carve ?m n) (p + n) ?q"
      using True s w p assms(4,5) by (simp add: carve_def)
    then have "edited xs (p + n) (carve ?m n) ys h ?h"
      by (rule editedI [OF assms(1) s(6)]) (use True w assms(4) in auto)
    moreover have "sz + 8 = word_of_int (used_size (carve ?m n))"
      using True by (simp add: used_size_def carve_def)
    ultimately show ?thesis by simp
  next
    case False
    let ?h = "MEM_STATS_INC_USED (word_of_int n) (h\<lparr>ram := ?f(p + 4 := 1)\<rparr>)"
    have "load16 ?f p - ?ptr = word_of_int n"
      using diff_word16 [OF s(3)] .
    then have "take_block sz ?ptr h = Some ?h"
      unfolding take_block_def split using False p by (simp add: Let_def heap_defs)
    moreover have "seg (ram ?h) p a (carve ?m n) (p + n) p"
      using False s by (simp add: carve_def)
    then have "edited xs (p + n) (carve ?m n) ys h ?h"
      by (rule editedI [OF assms(1) s(6)]) (use s seg_prev [OF s(6)] in auto)
    moreover have "used_size (carve ?m n) = n" using False by (simp add: used_size_def carve_def)
    ultimately show ?thesis by simp
  qed
qed

section \<open>mem\_malloc\<close>

lemma and_not_3: "uint (x AND NOT (3 :: u16)) = uint x div 4 * 4"
proof -
  have "x AND NOT 3 = push_bit 2 (drop_bit 2 x)"
  proof (rule bit_word_eqI)
    fix n assume n: "n < LENGTH(16)"
    have "(3 :: u16) = mask 2" by (simp add: mask_eq_decr_exp)
    then have "bit (3 :: u16) n \<longleftrightarrow> n < 2" using n by (simp only: bit_mask_iff) auto
    moreover have "2 \<le> n \<Longrightarrow> Suc (Suc (n - 2)) = n" by simp
    ultimately show "bit (x AND NOT 3) n = bit (push_bit 2 (drop_bit 2 x)) n"
      using n by (simp only: bit_and_iff bit_not_iff bit_push_bit_iff bit_drop_bit_eq) auto
  qed
  moreover have "uint (drop_bit 2 x) = uint x div 4" by (simp add: drop_bit_eq_div uint_div)
  moreover have "uint x div 4 * 4 mod 65536 = uint x div 4 * 4"
    by (rule mod_pos_pos_trivial) (use uint_lt2p [of x] in \<open>auto simp: pos_imp_zdiv_nonneg_iff\<close>)
  ultimately show ?thesis by (simp add: push_bit_eq_mult uint_word_ariths)
qed

lemma align_value: "uint (LWIP_MEM_ALIGN_SIZE sz) = (uint sz + 3) mod 65536 div 4 * 4"
proof -
  have "LWIP_MEM_ALIGN_SIZE sz = (sz + 3) AND NOT 3" by (simp add: LWIP_MEM_ALIGN_SIZE_def add.commute)
  then show ?thesis using and_not_3 [of "sz + 3"] by (simp add: uint_word_ariths)
qed

text \<open>The number of octets that a request for \<open>sz\<close> octets asks of a block.\<close>

definition want :: "u16 \<Rightarrow> int" where
  "want sz = max 12 (uint (LWIP_MEM_ALIGN_SIZE sz))"

lemma want_props: "12 \<le> want sz" "4 dvd want sz" "uint sz \<le> 65532 \<Longrightarrow> uint sz \<le> want sz \<and> want sz < max 13 (uint sz + 4)"
proof -
  show "12 \<le> want sz" by (simp add: want_def)
  show "4 dvd want sz" by (simp add: want_def max_def align_value)
  assume "uint sz \<le> 65532"
  then have "(uint sz + 3) mod 65536 = uint sz + 3" by simp
  then show "uint sz \<le> want sz \<and> want sz < max 13 (uint sz + 4)" by (auto simp: want_def align_value max_def)
qed

lemma want_word:
  "uint (if LWIP_MEM_ALIGN_SIZE sz < MIN_SIZE_ALIGNED then MIN_SIZE_ALIGNED else LWIP_MEM_ALIGN_SIZE sz) = want sz"
  by (auto simp: want_def word_less_def max_def)

lemma first_free_append:
  "seg f p q xs p' q' \<Longrightarrow> first_free p (xs @ ys) = (if list_all snd xs then first_free p' ys else first_free p xs)"
  by (induction xs arbitrary: p q) auto

lemma first_free_less: "seg f p q xs p' q' \<Longrightarrow> \<not> list_all snd xs \<Longrightarrow> p \<le> first_free p xs \<and> first_free p xs < p'"
proof (induction xs arbitrary: p q)
  case (Cons b xs)
  obtain n u where b: "b = (n, u)" by (cases b)
  with Cons.prems seg_le [of f "p + n" p xs p' q'] Cons.IH [of "p + n" p] show ?case by auto
qed simp

lemma coalesced_Cons: "coalesced (b # bs) \<longleftrightarrow> (bs = [] \<or> snd b \<or> snd (hd bs)) \<and> coalesced bs"
  by (cases b; cases bs) auto

lemma coalesced_append:
  "coalesced (xs @ ys) \<longleftrightarrow> coalesced xs \<and> coalesced ys \<and> (xs = [] \<or> ys = [] \<or> snd (last xs) \<or> snd (hd ys))"
  by (induction xs) (auto simp: coalesced_Cons)

lemma used_size_append [simp]: "used_size (xs @ ys) = used_size xs + used_size ys"
  by (simp add: used_size_def)

lemma used_size_Cons [simp]: "used_size ((n, u) # bs) = (if u then n else 0) + used_size bs" "used_size [] = 0"
  by (simp_all add: used_size_def)

lemma same_data_append:
  "seg f p q xs p' q' \<Longrightarrow> same_data p (xs @ ys) g g' \<longleftrightarrow> same_data p xs g g' \<and> same_data p' ys g g'"
  by (auto simp: same_data_def payload_append)

lemma same_data_Cons: "same_data p ((n, False) # bs) g g' = same_data (p + n) bs g g'"
  by (simp add: same_data_def)

lemma coalesced_carve: "coalesced (xs @ (n, False) # ys) \<Longrightarrow> coalesced (xs @ carve m n @ ys)"
  by (auto simp: coalesced_append coalesced_Cons carve_def)

lemma find_from_lfree:
  assumes "heap_ok bs h"
  shows "find_block w h (word_of_int (lfree h)) = Some (map_option word_of_int (fit (uint w) 0 bs))"
proof -
  from assms obtain t where s: "seg (ram h) 0 0 bs 32404 t" and l: "lfree h = first_free 0 bs" by (auto simp: heap_ok_def)
  from seg_first_free [OF s] obtain q' where "seg (ram h) (first_free 0 bs) q' (dropWhile snd bs) 32404 t" by blast
  moreover have "0 \<le> first_free 0 bs" using first_free_append [OF s, of "[]"] first_free_less [OF s] by (auto split: if_splits)
  ultimately show ?thesis using find_block_fit [of h "first_free 0 bs" q' "dropWhile snd bs" t w] l by (simp add: fit_first_free)
qed

lemma mem_malloc_takes:
  assumes "heap_ok bs h" "sz \<noteq> 0" "want sz \<le> 32404" "fit (want sz) 0 bs = Some p"
  shows "\<exists>h'. mem_malloc sz h = Some (Some (p + 8), h') \<and> heap_ok (alloc (want sz) bs) h' \<and> same_data 0 bs (ram h) (ram h')"
proof -
  define w where "w = (if LWIP_MEM_ALIGN_SIZE sz < MIN_SIZE_ALIGNED then MIN_SIZE_ALIGNED else LWIP_MEM_ALIGN_SIZE sz)"
  have m: "uint w = want sz" unfolding w_def by (rule want_word)
  then have small: "\<not> MEM_SIZE_ALIGNED < w" using assms(3) by (simp add: word_less_def)
  from assms(1) obtain t where s: "seg (ram h) 0 0 bs 32404 t" by (auto simp: heap_ok_def)
  have ok: "ram h 32408 = 1" "ram_end h = 32404" "lfree h = first_free 0 bs" "coalesced bs"
    "st_used (mem_stats h) = word_of_int (used_size bs)" using assms(1) by (simp_all add: heap_ok_def)
  from fit_split [OF assms(4) s] obtain xs n ys a where
    bs: "bs = xs @ (n, False) # ys" "want sz + 8 \<le> n" "alloc (want sz) bs = xs @ carve (want sz) n @ ys" and
    x: "seg (ram h) 0 0 xs p a" and y: "seg (ram h) p a ((n, False) # ys) 32404 t" by blast
  have p: "0 \<le> p" "p + n \<le> 32404" "4 dvd p" using seg_le [OF x] seg_aligned [OF x] y seg_le [of "ram h" "p + n" p ys 32404 t] by auto
  have pw: "uint (word_of_int p :: u16) = p" by (rule uint_of_int16 [OF p(1)]) (use p bs(2) want_props(1) [of sz] in linarith)
  have found: "find_block w h (word_of_int (lfree h)) = Some (Some (word_of_int p))"
    using find_from_lfree [OF assms(1)] m assms(4) by simp
  from take_block_effect [OF x y, of w] m bs(2) want_props(1,2) [of sz] obtain h1 where
    h1: "take_block w (word_of_int p) h = Some h1" "edited xs (p + n) (carve (want sz) n) ys h h1" "lfree h1 = lfree h"
      "st_used (mem_stats h1) = st_used (mem_stats h) + word_of_int (used_size (carve (want sz) n))" by auto
  from h1(2) obtain t1 where s1: "seg (ram h1) 0 0 (xs @ carve (want sz) n @ ys) 32404 t1" by (auto simp: edited_def)
  have e1: "ram_end h1 = 32404" "ram h1 32408 = 1" using h1(2) ok by (simp_all add: edited_def)
  have sd: "same_data 0 bs (ram h) (ram h1)"
    using h1(2) by (simp add: edited_def bs(1) same_data_append [OF x] same_data_Cons)
  have "(if p = lfree h1 then do { l \<leftarrow> next_lfree h1 (lfree h1); Some (h1\<lparr>lfree := l\<rparr>) } else Some h1) =
      Some (h1\<lparr>lfree := first_free 0 (xs @ carve (want sz) n @ ys)\<rparr>)"
  proof (cases "list_all snd xs")
    case True
    from s1 obtain p1 q1 where s2: "seg (ram h1) 0 0 xs p1 q1" "seg (ram h1) p1 q1 (carve (want sz) n @ ys) 32404 t1"
      by (auto simp: seg_append)
    have "p1 = p" using seg_end [OF s2(1)] seg_end [OF x] by simp
    with next_lfree_first [of h1 p q1 "carve (want sz) n @ ys" t1] True s2 e1 p(1) h1(3) ok(3) bs(1)
    show ?thesis by (simp add: first_free_append [OF x] first_free_append [OF s2(1)])
  next
    case False
    then have "lfree h1 = first_free 0 xs" "first_free 0 xs < p"
      using first_free_less [OF x] h1(3) ok(3) bs(1) by (simp_all add: first_free_append [OF x])
    with False show ?thesis by (simp add: first_free_append [OF x])
  qed
  then have "mem_malloc sz h = Some (Some (p + 8), h1\<lparr>lfree := first_free 0 (xs @ carve (want sz) n @ ys)\<rparr>)"
    using assms(2) found h1(1) pw m bs(2) p e1(1) small
    unfolding mem_malloc_def Let_def w_def [symmetric] by simp
  moreover have "heap_ok (alloc (want sz) bs) (h1\<lparr>lfree := first_free 0 (xs @ carve (want sz) n @ ys)\<rparr>)"
    unfolding heap_ok_def bs(3) using s1 e1 h1(4) ok(4,5) coalesced_carve [of xs n ys]
    by (auto simp: bs(1) wi_hom_add [symmetric] add_ac)
  ultimately show ?thesis using sd by auto
qed

lemma mem_malloc_refuses:
  "sz = 0 \<or> 32404 < want sz \<Longrightarrow> mem_malloc sz h = Some (None, h)"
  "heap_ok bs h \<Longrightarrow> sz \<noteq> 0 \<Longrightarrow> want sz \<le> 32404 \<Longrightarrow> fit (want sz) 0 bs = None \<Longrightarrow>
   mem_malloc sz h = Some (None, h\<lparr>mem_stats := (mem_stats h)\<lparr>st_err := st_err (mem_stats h) + 1\<rparr>\<rparr>)"
proof -
  define w where "w = (if LWIP_MEM_ALIGN_SIZE sz < MIN_SIZE_ALIGNED then MIN_SIZE_ALIGNED else LWIP_MEM_ALIGN_SIZE sz)"
  have m: "uint w = want sz" unfolding w_def by (rule want_word)
  then have big: "MEM_SIZE_ALIGNED < w \<longleftrightarrow> 32404 < want sz" by (simp add: word_less_def)
  show "sz = 0 \<or> 32404 < want sz \<Longrightarrow> mem_malloc sz h = Some (None, h)"
    unfolding mem_malloc_def Let_def w_def [symmetric] using big by auto
  show "heap_ok bs h \<Longrightarrow> sz \<noteq> 0 \<Longrightarrow> want sz \<le> 32404 \<Longrightarrow> fit (want sz) 0 bs = None \<Longrightarrow>
      mem_malloc sz h = Some (None, h\<lparr>mem_stats := (mem_stats h)\<lparr>st_err := st_err (mem_stats h) + 1\<rparr>\<rparr>)"
    unfolding mem_malloc_def Let_def w_def [symmetric] using big find_from_lfree [of bs h w] m by simp
qed

section \<open>mem\_free\<close>

text \<open>Freed blocks merge with the free neighbours.\<close>

definition absorb :: "int \<Rightarrow> block list \<Rightarrow> int \<times> block list" where
  "absorb n ys = (case ys of (m, False) # zs \<Rightarrow> (n + m, zs) | _ \<Rightarrow> (n, ys))"

definition merge_prev :: "block list \<Rightarrow> int \<Rightarrow> block list" where
  "merge_prev xs n = (if xs \<noteq> [] \<and> \<not> snd (last xs) then butlast xs @ [(fst (last xs) + n, False)] else xs @ [(n, False)])"

definition release :: "block list \<Rightarrow> int \<Rightarrow> block list \<Rightarrow> block list" where
  "release xs n ys = (case absorb n ys of (n', ys') \<Rightarrow> merge_prev xs n' @ ys')"

definition reheap :: "block list \<Rightarrow> block list \<Rightarrow> heapst \<Rightarrow> heapst \<Rightarrow> bool" where
  "reheap bs bs' h h' \<longleftrightarrow> (\<exists>t. seg (ram h') 0 0 bs' 32404 t) \<and> same_data 0 bs (ram h) (ram h') \<and>
     ram h' 32408 = ram h 32408 \<and> ram_end h' = ram_end h"

lemma reheap_refl: "seg (ram h) 0 0 bs 32404 t \<Longrightarrow> reheap bs bs h h"
  by (auto simp: reheap_def same_data_def)

lemma edited_reheap:
  assumes "edited xs r mid ys h h'" "seg (ram h) 0 0 xs p a" "seg (ram h) p a mid0 r b" "\<not> list_ex snd mid0"
  shows "reheap (xs @ mid0 @ ys) (xs @ mid @ ys) h h'"
proof -
  have "\<not> payload p mid0 x" for x using assms(4) by (induction mid0 arbitrary: p) auto
  then have "same_data p mid0 (ram h) (ram h')" by (simp add: same_data_def)
  then show ?thesis
    using assms(1) by (simp add: edited_def reheap_def same_data_append [OF assms(2)] same_data_append [OF assms(3)])
qed

lemma plug_forward_merges:
  assumes "seg (ram h) 0 0 xs p a" "seg (ram h) p a ((n, False) # ys) 32404 t" "ram h 32408 = 1" "ram_end h = 32404" "lfree h \<le> p"
  shows "\<exists>h'. plug_forward p h = Some h' \<and> reheap (xs @ (n, False) # ys) (xs @ (fst (absorb n ys), False) # snd (absorb n ys)) h h' \<and>
    lfree h' = lfree h \<and> mem_stats h' = mem_stats h"
proof -
  from assms(2) have s: "20 \<le> n" "4 dvd n" "uint (load16 (ram h) p) = p + n" "uint (load16 (ram h) (p + 2)) = a" "ram h (p + 4) = 0"
    "seg (ram h) (p + n) p ys 32404 t" by auto
  have p0: "0 \<le> p" using seg_le [OF assms(1)] .
  have r: "p + n \<le> 32404" using seg_le [OF s(6)] .
  have at: "at_ram (load16 (ram h) p) = Some (p + n)" using s(3) r by (simp add: at_ram_def)
  show ?thesis
  proof (cases "\<exists>m zs. ys = (m, False) # zs")
    case True
    then obtain m zs where ys: "ys = (m, False) # zs" by blast
    with s(6) have y: "20 \<le> m" "4 dvd m" "uint (load16 (ram h) (p + n)) = p + n + m" "ram h (p + n + 4) = 0"
      "seg (ram h) (p + (n + m)) (p + n) zs 32404 t" by (auto simp: add.assoc)
    have r2: "p + (n + m) \<le> 32404" using seg_le [OF y(5)] .
    have pw: "uint (word_of_int p :: u16) = p" by (rule uint_of_int16 [OF p0]) (use r s(1) in linarith)
    have at2: "at_ram (load16 (ram h) (p + n)) = Some (p + (n + m))" using y(3) r2 by (simp add: at_ram_def)
    let ?h = "h\<lparr>ram := store16 (p + (n + m) + 2) (word_of_int p) (store16 p (load16 (ram h) (p + n)) (ram h))\<rparr>"
    have "plug_forward p h = Some ?h"
      using at at2 y s(1) assms(4,5) r2 by (simp add: plug_forward_def heap_defs Let_def)
    moreover have "seg (ram ?h) p a [(n + m, False)] (p + (n + m)) p" using s y by simp
    then have "edited xs (p + (n + m)) [(n + m, False)] zs h ?h"
      by (rule editedI [OF assms(1) y(5)]) (use s y pw in auto)
    from edited_reheap [OF this assms(1), of "[(n, False), (m, False)]" "p + n"] s y ys
    have "reheap (xs @ (n, False) # ys) (xs @ (n + m, False) # zs) h ?h" by simp
    ultimately show ?thesis using ys by (simp add: absorb_def)
  next
    case False
    then have "absorb n ys = (n, ys)" by (auto simp: absorb_def split: list.splits prod.splits bool.splits)
    moreover have "ram h (p + n + 4) \<noteq> 0"
    proof (cases ys)
      case Nil
      then show ?thesis using s(6) assms(3) by simp
    next
      case (Cons b zs)
      obtain m u where "b = (m, u)" by (cases b)
      with False Cons s(6) show ?thesis by auto
    qed
    then have "plug_forward p h = Some h" using at by (simp add: plug_forward_def heap_defs)
    moreover have "seg (ram h) 0 0 (xs @ (n, False) # ys) 32404 t" using assms(1,2) by (auto simp: seg_append)
    ultimately show ?thesis using reheap_refl by simp
  qed
qed

lemma plug_backward_merges:
  assumes "seg (ram h) 0 0 xs p a" "seg (ram h) p a ((n, False) # ys) 32404 t" "lfree h \<noteq> p \<or> xs = [] \<or> snd (last xs)"
  shows "\<exists>h'. plug_backward p h = Some h' \<and> reheap (xs @ (n, False) # ys) (merge_prev xs n @ ys) h h' \<and>
    lfree h' = lfree h \<and> mem_stats h' = mem_stats h"
proof -
  from assms(2) have s: "20 \<le> n" "4 dvd n" "uint (load16 (ram h) p) = p + n" "uint (load16 (ram h) (p + 2)) = a"
    "seg (ram h) (p + n) p ys 32404 t" by auto
  have r: "p + n \<le> 32404" using seg_le [OF s(5)] .
  have whole: "seg (ram h) 0 0 (xs @ (n, False) # ys) 32404 t" using assms(1,2) by (auto simp: seg_append)
  show ?thesis
  proof (cases "xs = []")
    case True
    then have "plug_backward p h = Some h" using s(4) assms(1) by (simp add: plug_backward_def heap_defs at_ram_def)
    then show ?thesis using True reheap_refl [OF whole] by (simp add: merge_prev_def)
  next
    case False
    then obtain xs0 k u where xs: "xs = xs0 @ [(k, u)]" by (metis append_butlast_last_id surj_pair)
    with assms(1) obtain q0 where x: "seg (ram h) 0 0 xs0 a q0" "p = a + k" "20 \<le> k" "4 dvd k" "uint (load16 (ram h) a) = p"
      "uint (load16 (ram h) (a + 2)) = q0" "ram h (a + 4) = (if u then 1 else 0)" by (auto simp: seg_append)
    have a: "0 \<le> a" using seg_le [OF x(1)] .
    have at: "at_ram (load16 (ram h) (p + 2)) = Some a" using s(1,4) r x(2,3) by (simp add: at_ram_def)
    show ?thesis
    proof (cases u)
      case True
      then have "plug_backward p h = Some h" using at x(7) by (simp add: plug_backward_def heap_defs)
      then show ?thesis using True xs reheap_refl [OF whole] by (simp add: merge_prev_def)
    next
      case False
      have aw: "uint (word_of_int a :: u16) = a" by (rule uint_of_int16 [OF a]) (use r s(1) x(2,3) in linarith)
      have at2: "at_ram (load16 (ram h) p) = Some (p + n)" using s(3) r by (simp add: at_ram_def)
      let ?h = "h\<lparr>ram := store16 (p + n + 2) (word_of_int a) (store16 a (load16 (ram h) p) (ram h))\<rparr>"
      have "plug_backward p h = Some ?h"
        using at at2 x(2,3,7) False assms(3) xs by (simp add: plug_backward_def heap_defs Let_def)
      moreover have "seg (ram ?h) a q0 [(k + n, False)] (p + n) a" using s x False by simp
      then have "edited xs0 (p + n) [(k + n, False)] ys h ?h"
        by (rule editedI [OF x(1) s(5)]) (use s x aw in auto)
      from edited_reheap [OF this x(1), of "[(k, False), (n, False)]" p] assms(1,2) x s xs False
      have "reheap (xs @ (n, False) # ys) (merge_prev xs n @ ys) h ?h" by (simp add: merge_prev_def)
      ultimately show ?thesis by auto
    qed
  qed
qed

lemma reheap_trans:
  assumes "reheap as bs h h1" "reheap bs cs h1 h2" "\<And>a. payload 0 as a \<Longrightarrow> payload 0 bs a"
  shows "reheap as cs h h2"
  using assms by (auto simp: reheap_def same_data_def)

lemma absorb_cases:
  obtains m zs where "ys = (m, False) # zs" "absorb n ys = (n + m, zs)" | "absorb n ys = (n, ys)" "ys = [] \<or> snd (hd ys)"
  by (cases ys; cases "snd (hd ys)") (auto simp: absorb_def)

lemma release_facts:
  assumes "coalesced (xs @ (n, True) # ys)"
  shows "coalesced (release xs n ys)" "used_size (release xs n ys) = used_size xs + used_size ys"
proof -
  obtain n' ys' where a: "absorb n ys = (n', ys')" by (cases "absorb n ys")
  have c: "coalesced xs" "coalesced ys" using assms by (auto simp: coalesced_append coalesced_Cons)
  have y: "coalesced ys'" "ys' = [] \<or> snd (hd ys')" "used_size ys' = used_size ys"
    using c(2) a by (cases rule: absorb_cases [of ys n]; auto simp: coalesced_Cons)+
  have "coalesced (merge_prev xs n')" "merge_prev xs n' \<noteq> []" "used_size (merge_prev xs n') = used_size xs"
    using c(1) by (cases xs rule: rev_cases; force simp: merge_prev_def coalesced_append coalesced_Cons split: if_splits)+
  with y show "coalesced (release xs n ys)" "used_size (release xs n ys) = used_size xs + used_size ys"
    by (auto simp: release_def a coalesced_append)
qed

lemma first_free_prefix: "first_free p (xs @ (k, False) # zs) = first_free p (xs @ (k', False) # zs')"
  by (induction xs arbitrary: p) auto

lemma release_first_free: "first_free p (release xs n ys) = first_free p (xs @ (n, False) # ys)"
proof (cases "xs \<noteq> [] \<and> \<not> snd (last xs)")
  case True
  then obtain xs0 k where "xs = xs0 @ [(k, False)]" by (metis append_butlast_last_id prod.collapse)
  then show ?thesis by (auto simp: release_def merge_prev_def first_free_prefix split: prod.splits)
next
  case False
  then show ?thesis by (auto simp: release_def merge_prev_def first_free_prefix split: prod.splits)
qed

lemma heap_split:
  assumes "heap_ok (xs @ (n, u) # ys) h" "p = sum_list (map fst xs)"
  obtains a t where "seg (ram h) 0 0 xs p a" "seg (ram h) p a ((n, u) # ys) 32404 t" "0 \<le> p" "p + n \<le> 32404" "4 dvd p"
    "uint (word_of_int p :: u16) = p" "at_ram (load16 (ram h) p) = Some (p + n)" "p + n \<le> first_free (p + n) ys"
proof -
  from assms(1) obtain p' a t where x: "seg (ram h) 0 0 xs p' a" and y: "seg (ram h) p' a ((n, u) # ys) 32404 t"
    by (auto simp: heap_ok_def seg_append)
  have p: "p' = p" using seg_end [OF x] assms(2) by simp
  from y p have s: "20 \<le> n" "uint (load16 (ram h) p) = p + n" "seg (ram h) (p + n) p ys 32404 t" by auto
  have r: "0 \<le> p" "p + n \<le> 32404" "4 dvd p" using seg_le [OF x] seg_le [OF s(3)] seg_aligned [OF x] p by auto
  moreover have "uint (word_of_int p :: u16) = p" by (rule uint_of_int16 [OF r(1)]) (use r s(1) in linarith)
  moreover have "at_ram (load16 (ram h) p) = Some (p + n)" using s(2) r by (simp add: at_ram_def)
  moreover have "p + n \<le> first_free (p + n) ys"
    using first_free_append [OF s(3), of "[]"] first_free_less [OF s(3)] r(2) by (auto split: if_splits)
  ultimately show ?thesis using that x y p by blast
qed

text \<open>The state in which \<open>plug_holes\<close> is called: the block is already marked free.\<close>

lemma freed_block:
  assumes "heap_ok (xs @ (n, True) # ys) h" "p = sum_list (map fst xs)"
  defines "h1 \<equiv> MEM_STATS_DEC_USED (word_of_int n) (if p < lfree h then h\<lparr>ram := (ram h)(p + 4 := 0), lfree := p\<rparr> else h\<lparr>ram := (ram h)(p + 4 := 0)\<rparr>)"
  shows "\<exists>a t. seg (ram h1) 0 0 xs p a \<and> seg (ram h1) p a ((n, False) # ys) 32404 t"
    "ram h1 32408 = 1" "ram_end h1 = 32404" "lfree h1 = first_free 0 (xs @ (n, False) # ys)" "lfree h1 \<le> p"
    "same_data 0 (xs @ (n, False) # ys) (ram h) (ram h1)" "xs \<noteq> [] \<and> \<not> snd (last xs) \<Longrightarrow> lfree h1 < p"
    "st_used (mem_stats h1) = word_of_int (used_size xs + used_size ys)"
proof -
  have ok: "ram h 32408 = 1" "ram_end h = 32404" "lfree h = first_free 0 (xs @ (n, True) # ys)"
    "st_used (mem_stats h) = word_of_int (used_size xs + (n + used_size ys))" using assms(1) by (simp_all add: heap_ok_def)
  obtain a t where x: "seg (ram h) 0 0 xs p a" and y: "seg (ram h) p a ((n, True) # ys) 32404 t" and
    pn: "p + n \<le> 32404" and ff: "p + n \<le> first_free (p + n) ys" using heap_split [OF assms(1,2)] by metis
  from y have s: "20 \<le> n" "seg (ram h) (p + n) p ys 32404 t" by auto
  have r1: "ram h1 = (ram h)(p + 4 := 0)" by (simp add: h1_def)
  show "ram h1 32408 = 1" "ram_end h1 = 32404" using pn ok(1,2) s(1) by (simp_all add: h1_def)
  have x1: "seg (ram h1) 0 0 xs p a" by (rule seg_frame [OF x]) (simp add: r1)
  have "seg (ram h1) (p + n) p ys 32404 t" by (rule seg_frame [OF s(2)]) (use s(1) in \<open>simp add: r1\<close>)
  with y s(1) have "seg (ram h1) p a ((n, False) # ys) 32404 t" by (simp add: r1)
  with x1 show "\<exists>a t. seg (ram h1) 0 0 xs p a \<and> seg (ram h1) p a ((n, False) # ys) 32404 t" by blast
  show l: "lfree h1 = first_free 0 (xs @ (n, False) # ys)"
    using ff first_free_less [OF x] s(1) by (cases "list_all snd xs") (simp_all add: h1_def ok(3) first_free_append [OF x])
  show "lfree h1 \<le> p" using first_free_less [OF x] by (auto simp: l first_free_append [OF x])
  show "lfree h1 < p" if "xs \<noteq> [] \<and> \<not> snd (last xs)"
  proof -
    have "\<not> list_all snd xs" using that by (auto simp: list_all_iff)
    then show ?thesis using first_free_less [OF x] by (simp add: l first_free_append [OF x])
  qed
  have "payload 0 xs b \<Longrightarrow> b < p" "payload (p + n) ys b \<Longrightarrow> p + n < b" for b
    using payload_range [OF x] payload_range [OF s(2)] by force+
  then show "same_data 0 (xs @ (n, False) # ys) (ram h) (ram h1)"
    using s(1) by (force simp: same_data_def r1 payload_append [OF x])
  show "st_used (mem_stats h1) = word_of_int (used_size xs + used_size ys)"
    by (simp add: h1_def ok(4) wi_hom_add [symmetric])
qed

lemma mem_free_releases:
  assumes "heap_ok (xs @ (n, True) # ys) h"
  shows "\<exists>h'. mem_free (Some (sum_list (map fst xs) + 8)) h = Some h' \<and> heap_ok (release xs n ys) h' \<and>
    same_data 0 (xs @ (n, False) # ys) (ram h) (ram h')"
proof -
  let ?p = "sum_list (map fst xs)"
  let ?h1 = "MEM_STATS_DEC_USED (word_of_int n) (if ?p < lfree h then h\<lparr>ram := (ram h)(?p + 4 := 0), lfree := ?p\<rparr> else h\<lparr>ram := (ram h)(?p + 4 := 0)\<rparr>)"
  note f = freed_block [OF assms refl]
  from f(1) obtain a t where x: "seg (ram ?h1) 0 0 xs ?p a" and y: "seg (ram ?h1) ?p a ((n, False) # ys) 32404 t" by blast
  from y have s: "20 \<le> n" "uint (load16 (ram ?h1) ?p) = ?p + n" "ram ?h1 (?p + 4) = 0" "seg (ram ?h1) (?p + n) ?p ys 32404 t" by auto
  have r: "0 \<le> ?p" "?p + n \<le> 32404" "4 dvd ?p" using seg_le [OF x] seg_le [OF s(4)] seg_aligned [OF x] by auto
  from plug_forward_merges [OF x y f(2,3,5)] obtain h2 where
    h2: "plug_forward ?p ?h1 = Some h2" "reheap (xs @ (n, False) # ys) (xs @ (fst (absorb n ys), False) # snd (absorb n ys)) ?h1 h2"
      "lfree h2 = lfree ?h1" "mem_stats h2 = mem_stats ?h1" by blast
  obtain n' ys' where ab: "absorb n ys = (n', ys')" by (cases "absorb n ys")
  from h2(2) ab obtain t2 p2 a2 where x2: "seg (ram h2) 0 0 xs p2 a2" and y2: "seg (ram h2) p2 a2 ((n', False) # ys') 32404 t2"
    by (auto simp: reheap_def seg_append)
  have "p2 = ?p" using seg_end [OF x2] by simp
  with x2 y2 f(7) h2(3) obtain h3 where
    h3: "plug_backward ?p h2 = Some h3" "reheap (xs @ (n', False) # ys') (release xs n ys) h2 h3" "lfree h3 = lfree h2" "mem_stats h3 = mem_stats h2"
    using plug_backward_merges [of h2 xs ?p a2 n' ys' t2] by (fastforce simp: release_def ab)
  have "payload 0 (xs @ (n, False) # ys) b \<Longrightarrow> payload 0 (xs @ (n', False) # ys') b" for b
    using ab by (cases rule: absorb_cases [of ys n]) (auto simp: payload_append [OF x] add.assoc)
  then have re: "reheap (xs @ (n, False) # ys) (release xs n ys) ?h1 h3" using reheap_trans h2(2) h3(2) ab by auto
  have used: "mem_used h ?p = 1" using assms x by (auto simp: heap_ok_def seg_append mem_used_def dest!: seg_end)
  have "load16 (ram h) ?p - word_of_int ?p = word_of_int n"
    using s(2) diff_word16 [of "load16 (ram h) ?p" ?p n] by (simp split: if_splits)
  then have "mem_free (Some (?p + 8)) h = plug_holes ?p ?h1"
    using used r s(1) assms by (simp add: heap_ok_def mem_free_def header_of_def Let_def mod_eq_0_iff_dvd heap_defs)
  also have "\<dots> = Some h3" using h2(1) h3(1) s(1-3) r f(3) by (simp add: plug_holes_def heap_defs word_le_def)
  finally have "mem_free (Some (?p + 8)) h = Some h3" .
  moreover have "heap_ok (release xs n ys) h3"
    using re f(2-4,8) h2(3,4) h3(3,4) release_facts [of xs n ys] assms
    by (auto simp: heap_ok_def reheap_def release_first_free)
  moreover have "same_data 0 (xs @ (n, False) # ys) (ram h) (ram h3)" using re f(6) by (simp add: reheap_def same_data_def)
  ultimately show ?thesis by blast
qed

section \<open>mem\_trim\<close>

definition shrink :: "int \<Rightarrow> int \<Rightarrow> block list \<Rightarrow> block list" where
  "shrink m n ys =
     (if m + 8 = n then (n, True) # ys
      else case ys of
             (k, False) # zs \<Rightarrow> (m + 8, True) # (n + k - (m + 8), False) # zs
           | _ \<Rightarrow> if m + 28 \<le> n then (m + 8, True) # (n - (m + 8), False) # ys else (n, True) # ys)"

definition kept_octets :: "int \<Rightarrow> int \<Rightarrow> (int \<Rightarrow> u8) \<Rightarrow> (int \<Rightarrow> u8) \<Rightarrow> bool" where
  "kept_octets p n f g \<longleftrightarrow> (\<forall>x. p \<le> x \<and> x < p + n \<longrightarrow> g x = f x)"

lemma trim_cut_effect:
  assumes "seg (ram h) 0 0 xs p a" "seg (ram h) r b zs 32404 t" "uint (load16 (ram h) (p + 2)) = a" "ram h (p + 4) = 1"
    "uint v = r" "12 \<le> m" "4 dvd m" "4 dvd r - p" "p + m + 28 \<le> r"
  shows "\<exists>h'. trim_cut (word_of_int p) (word_of_int (p + (m + 8))) v h = Some h' \<and>
    edited xs r [(m + 8, True), (r - (p + (m + 8)), False)] zs h h' \<and> kept_octets (p + 8) m (ram h) (ram h') \<and>
    lfree h' = lfree h \<and> mem_stats h' = mem_stats h"
proof -
  have p0: "0 \<le> p" using seg_le [OF assms(1)] .
  have r: "r \<le> 32404" using seg_le [OF assms(2)] .
  let ?q = "p + (m + 8)" and ?ptr = "word_of_int p :: u16" and ?ptr2 = "word_of_int (p + (m + 8)) :: u16"
  have pw: "uint ?ptr = p" by (rule uint_of_int16 [OF p0]) (use assms(6,9) r in linarith)
  have qw: "uint ?ptr2 = ?q" by (rule uint_of_int16) (use assms(6,9) r p0 in linarith)+
  have at: "at_ram v = Some r" using assms(5) r by (simp add: at_ram_def)
  have e: "v = 32404 \<longleftrightarrow> zs = []" using seg_Nil_iff [OF assms(2)] assms(5) by (simp add: word_uint_eq_iff)
  let ?G = "store16 p ?ptr2 (store16 (?q + 2) ?ptr (store16 ?q v ((ram h)(?q + 4 := 0))))"
  let ?g = "if zs \<noteq> [] then store16 (r + 2) ?ptr2 ?G else ?G"
  let ?h = "h\<lparr>ram := ?g\<rparr>"
  have "trim_cut ?ptr ?ptr2 v h = Some ?h"
    using pw qw e at assms(6,9) by (simp add: trim_cut_def Let_def heap_defs)
  moreover have "4 dvd r - p - (m + 8)" using dvd_diff [OF assms(8), of "m + 8"] assms(7) by simp
  then have "seg (ram ?h) p a [(m + 8, True), (r - ?q, False)] r ?q"
    using assms(3-9) pw qw by (simp add: diff_diff_eq)
  then have "edited xs r [(m + 8, True), (r - ?q, False)] zs h ?h"
    by (rule editedI [OF assms(1,2)]) (use assms(6,9) qw in auto)
  moreover have "kept_octets (p + 8) m (ram h) (ram ?h)" using assms(6,9) by (simp add: kept_octets_def)
  ultimately show ?thesis by auto
qed

lemma mem_trim_unfold:
  assumes "heap_ok (xs @ (n, True) # ys) h" "p = sum_list (map fst xs)" "m = want sz" "m + 8 \<le> n"
  shows "mem_trim (p + 8) sz h =
    (if m + 8 = n then Some (Some (p + 8), h)
     else if ram h (p + n + 4) = 0 then
       do { h \<leftarrow> trim_cut (word_of_int p) (word_of_int (p + (m + 8))) (load16 (ram h) (p + n))
                  (if lfree h = p + n then h\<lparr>lfree := p + (m + 8)\<rparr> else h);
            Some (Some (p + 8), MEM_STATS_DEC_USED (word_of_int (n - (m + 8))) h) }
     else if m + 28 \<le> n then
       do { h \<leftarrow> trim_cut (word_of_int p) (word_of_int (p + (m + 8))) (load16 (ram h) p)
                  (if p + (m + 8) < lfree h then h\<lparr>lfree := p + (m + 8)\<rparr> else h);
            Some (Some (p + 8), MEM_STATS_DEC_USED (word_of_int (n - (m + 8))) h) }
     else Some (Some (p + 8), h))"
proof -
  define w where "w = (if LWIP_MEM_ALIGN_SIZE sz < MIN_SIZE_ALIGNED then MIN_SIZE_ALIGNED else LWIP_MEM_ALIGN_SIZE sz)"
  have w: "uint w = m" unfolding w_def assms(3) by (rule want_word)
  have m: "12 \<le> m" using want_props(1) assms(3) by simp
  obtain a t where h: "seg (ram h) p a ((n, True) # ys) 32404 t" "0 \<le> p" "p + n \<le> 32404" "uint (word_of_int p :: u16) = p"
    "at_ram (load16 (ram h) p) = Some (p + n)" using heap_split [OF assms(1,2)] by metis
  from h(1) have s: "20 \<le> n" "uint (load16 (ram h) p) = p + n" by auto
  let ?sz = "load16 (ram h) p - word_of_int p - SIZEOF_STRUCT_MEM"
  have sz: "uint ?sz = n - 8" unfolding diff_word16 [OF s(2)] using s(1) h by (simp add: uint_word_ariths uint_of_int16)
  then have "?sz - w = word_of_int (n - 8 - m)" using w by (metis word_of_int_uint wi_hom_sub)
  then have d: "?sz - w = word_of_int (n - (m + 8))" by (simp add: diff_diff_eq add.commute)
  have q: "word_of_int p + SIZEOF_STRUCT_MEM + w = word_of_int (p + (m + 8))"
    using word_of_int_uint [of w] by (simp add: w ac_simps flip: wi_hom_add)
  have qu: "uint (word_of_int (p + (m + 8)) :: u16) = p + (m + 8)" by (rule uint_of_int16) (use h m assms(4) in linarith)+
  define P Q D where PQD: "P = (word_of_int p :: u16)" "Q = (word_of_int (p + (m + 8)) :: u16)" "D = (word_of_int (n - (m + 8)) :: u16)"
  have "\<not> MEM_SIZE_ALIGNED < w" using w h assms(4) by (simp add: word_less_def)
  moreover have "w \<le> ?sz" "w = ?sz \<longleftrightarrow> m + 8 = n" using w sz assms(4) by (auto simp: word_le_def word_uint_eq_iff)
  moreover have "header_of (p + 8) = Some p" "ram_end h = 32404" using assms(1) h(2) by (simp_all add: header_of_def heap_ok_def)
  ultimately show ?thesis
    using h(2,3,5) s(1) m sz w d q qu assms(4)
    unfolding mem_trim_def Let_def w_def [symmetric] PQD [symmetric]
    by (simp add: mem_next_def mem_used_def PQD(1) [symmetric])
qed

lemma trimmed_ok:
  assumes "heap_ok (xs @ (n, True) # ys) h" "edited xs r [(m + 8, True), (j, False)] zs h0 h1" "seg (ram h) 0 0 xs p a"
    "ram h0 = ram h" "ram_end h0 = ram_end h" "lfree h1 = (if list_all snd xs then p + (m + 8) else lfree h)"
    "mem_stats h1 = mem_stats h" "coalesced zs" "zs = [] \<or> snd (hd zs)" "used_size zs = used_size ys"
  shows "heap_ok (xs @ (m + 8, True) # (j, False) # zs) (MEM_STATS_DEC_USED (word_of_int (n - (m + 8))) h1)"
proof -
  have ok: "ram h 32408 = 1" "ram_end h = 32404" "lfree h = first_free 0 (xs @ (n, True) # ys)" "coalesced (xs @ (n, True) # ys)"
    "st_used (mem_stats h) = word_of_int (used_size xs + (n + used_size ys))" using assms(1) by (simp_all add: heap_ok_def)
  have "lfree h1 = first_free 0 (xs @ (m + 8, True) # (j, False) # zs)"
    using assms(6) by (simp add: ok(3) first_free_append [OF assms(3)])
  moreover have "coalesced (xs @ (m + 8, True) # (j, False) # zs)"
    using ok(4) assms(8,9) by (auto simp: coalesced_append coalesced_Cons)
  ultimately show ?thesis
    using assms(2,4,5,7,10) ok(1,2,5) by (auto simp: heap_ok_def edited_def simp flip: wi_hom_add wi_hom_sub)
qed

lemma next_used: "seg f q p ys 32404 t \<Longrightarrow> f 32408 = 1 \<Longrightarrow> ys = [] \<or> snd (hd ys) \<Longrightarrow> f (q + 4) \<noteq> 0"
  by (cases ys) auto

lemma same_data_edited:
  assumes "edited xs r mid zs h0 h'" "ram h0 = ram h" "seg (ram h) 0 0 xs p a" "\<And>b. payload (p + n) ys b \<Longrightarrow> payload r zs b"
  shows "same_data 0 (xs @ (n, False) # ys) (ram h) (ram h')"
  using assms(1,2,4) by (auto simp: edited_def same_data_append [OF assms(3)] same_data_Cons) (auto simp: same_data_def)

text \<open>A free block behind moves down.\<close>

lemma mem_trim_moves:
  assumes "heap_ok (xs @ (n, True) # (k, False) # zs) h" "p = sum_list (map fst xs)" "m = want sz" "m + 8 < n"
  shows "\<exists>h'. mem_trim (p + 8) sz h = Some (Some (p + 8), h') \<and>
    heap_ok (xs @ (m + 8, True) # (n + k - (m + 8), False) # zs) h' \<and>
    same_data 0 (xs @ (n, False) # (k, False) # zs) (ram h) (ram h') \<and> kept_octets (p + 8) m (ram h) (ram h')"
proof -
  have "m + 8 \<le> n" using assms(4) by simp
  note unf = mem_trim_unfold [OF assms(1-3) this]
  have m: "12 \<le> m" "4 dvd m" using want_props(1,2) assms(3) by auto
  obtain a t where x: "seg (ram h) 0 0 xs p a" and y: "seg (ram h) p a ((n, True) # (k, False) # zs) 32404 t" and
    pn: "p + n \<le> 32404" using heap_split [OF assms(1,2)] by metis
  from y have s: "20 \<le> n" "4 dvd n" "uint (load16 (ram h) p) = p + n" "uint (load16 (ram h) (p + 2)) = a" "ram h (p + 4) = 1"
    "20 \<le> k" "4 dvd k" "uint (load16 (ram h) (p + n)) = p + (n + k)" "ram h (p + n + 4) = 0"
      "seg (ram h) (p + (n + k)) (p + n) zs 32404 t" by (auto simp: add.assoc)
  have ok: "lfree h = first_free 0 (xs @ (n, True) # (k, False) # zs)" "coalesced (xs @ (n, True) # (k, False) # zs)"
    using assms(1) by (simp_all add: heap_ok_def)
  let ?h0 = "if lfree h = p + n then h\<lparr>lfree := p + (m + 8)\<rparr> else h"
  have r0: "ram ?h0 = ram h" "ram_end ?h0 = ram_end h" "mem_stats ?h0 = mem_stats h" by simp_all
  have "4 dvd p + (n + k) - p" "p + m + 28 \<le> p + (n + k)" using s(2,6,7) assms(4) by auto
  from trim_cut_effect [of ?h0 xs p a "p + (n + k)" "p + n" zs t, unfolded r0, OF x s(10,4,5,8) m this]
  obtain h1 where h1: "trim_cut (word_of_int p) (word_of_int (p + (m + 8))) (load16 (ram h) (p + n)) ?h0 = Some h1"
    "edited xs (p + (n + k)) [(m + 8, True), (n + k - (m + 8), False)] zs ?h0 h1" "kept_octets (p + 8) m (ram h) (ram h1)"
    "lfree h1 = lfree ?h0" "mem_stats h1 = mem_stats h" by auto
  have "lfree ?h0 = (if list_all snd xs then p + (m + 8) else lfree h)"
    using first_free_less [OF x] s(1) by (auto simp: ok(1) first_free_append [OF x])
  then have "heap_ok (xs @ (m + 8, True) # (n + k - (m + 8), False) # zs) (MEM_STATS_DEC_USED (word_of_int (n - (m + 8))) h1)"
    using trimmed_ok [OF assms(1) h1(2) x r0(1,2) _ h1(5)] h1(4) ok(2) by (simp add: coalesced_append coalesced_Cons)
  moreover have "same_data 0 (xs @ (n, False) # (k, False) # zs) (ram h) (ram h1)"
    by (rule same_data_edited [OF h1(2) r0(1) x]) (simp add: add.assoc)
  ultimately show ?thesis using unf h1(1,3) s(9) assms(4) by simp
qed

text \<open>A new free block is made before a block in use.\<close>

lemma mem_trim_cuts:
  assumes "heap_ok (xs @ (n, True) # ys) h" "p = sum_list (map fst xs)" "m = want sz" "m + 28 \<le> n" "ys = [] \<or> snd (hd ys)"
  shows "\<exists>h'. mem_trim (p + 8) sz h = Some (Some (p + 8), h') \<and> heap_ok (xs @ (m + 8, True) # (n - (m + 8), False) # ys) h' \<and>
    same_data 0 (xs @ (n, False) # ys) (ram h) (ram h') \<and> kept_octets (p + 8) m (ram h) (ram h')"
proof -
  have "m + 8 \<le> n" using assms(4) by simp
  note unf = mem_trim_unfold [OF assms(1-3) this]
  have m: "12 \<le> m" "4 dvd m" using want_props(1,2) assms(3) by auto
  obtain a t where x: "seg (ram h) 0 0 xs p a" and y: "seg (ram h) p a ((n, True) # ys) 32404 t" and
    ff: "p + n \<le> first_free (p + n) ys" using heap_split [OF assms(1,2)] by metis
  from y have s: "20 \<le> n" "4 dvd n" "uint (load16 (ram h) p) = p + n" "uint (load16 (ram h) (p + 2)) = a" "ram h (p + 4) = 1"
    "seg (ram h) (p + n) p ys 32404 t" by auto
  have ok: "lfree h = first_free 0 (xs @ (n, True) # ys)" "coalesced (xs @ (n, True) # ys)" "ram h 32408 = 1"
    using assms(1) by (simp_all add: heap_ok_def)
  let ?h0 = "if p + (m + 8) < lfree h then h\<lparr>lfree := p + (m + 8)\<rparr> else h"
  have r0: "ram ?h0 = ram h" "ram_end ?h0 = ram_end h" "mem_stats ?h0 = mem_stats h" by simp_all
  have "4 dvd p + n - p" "p + m + 28 \<le> p + n" using s(2) assms(4) by auto
  from trim_cut_effect [of ?h0 xs p a "p + n" p ys t, unfolded r0, OF x s(6,4,5,3) m this]
  obtain h1 where h1: "trim_cut (word_of_int p) (word_of_int (p + (m + 8))) (load16 (ram h) p) ?h0 = Some h1"
    "edited xs (p + n) [(m + 8, True), (n - (m + 8), False)] ys ?h0 h1" "kept_octets (p + 8) m (ram h) (ram h1)"
    "lfree h1 = lfree ?h0" "mem_stats h1 = mem_stats h" by auto
  have "lfree ?h0 = (if list_all snd xs then p + (m + 8) else lfree h)"
    using first_free_less [OF x] assms(4) ff m(1) by (cases "list_all snd xs") (simp_all add: ok(1) first_free_append [OF x])
  then have "heap_ok (xs @ (m + 8, True) # (n - (m + 8), False) # ys) (MEM_STATS_DEC_USED (word_of_int (n - (m + 8))) h1)"
    using trimmed_ok [OF assms(1) h1(2) x r0(1,2) _ h1(5)] h1(4) ok(2) assms(5) by (simp add: coalesced_append coalesced_Cons)
  moreover have "same_data 0 (xs @ (n, False) # ys) (ram h) (ram h1)" by (rule same_data_edited [OF h1(2) r0(1) x])
  ultimately show ?thesis using unf h1(1,3) assms(4) next_used [OF s(6) ok(3) assms(5)] by simp
qed

lemma mem_trim_shrinks:
  assumes "heap_ok (xs @ (n, True) # ys) h" "p = sum_list (map fst xs)" "m = want sz" "m + 8 \<le> n"
  shows "\<exists>h'. mem_trim (p + 8) sz h = Some (Some (p + 8), h') \<and> heap_ok (xs @ shrink m n ys) h' \<and>
    same_data 0 (xs @ (n, False) # ys) (ram h) (ram h') \<and> kept_octets (p + 8) m (ram h) (ram h')"
proof (cases "m + 8 < n \<and> ys \<noteq> [] \<and> \<not> snd (hd ys)")
  case True
  then obtain k zs where "ys = (k, False) # zs" by (cases ys) auto
  then show ?thesis using mem_trim_moves [of xs n k zs h p m sz] assms True by (auto simp: shrink_def)
next
  case False
  show ?thesis
  proof (cases "m + 28 \<le> n")
    case True
    then show ?thesis using False mem_trim_cuts [OF assms(1-3)] by (auto simp: shrink_def split: list.splits bool.splits)
  next
    case no: False
    from heap_split [OF assms(1,2)] obtain a t where "seg (ram h) p a ((n, True) # ys) 32404 t" by metis
    then have "m + 8 = n \<or> ram h (p + n + 4) \<noteq> 0"
      using next_used [of "ram h" "p + n" p ys t] assms(1,4) False by (auto simp: heap_ok_def)
    moreover have "shrink m n ys = (n, True) # ys"
      using False no assms(4) by (auto simp: shrink_def split: list.splits bool.splits)
    ultimately show ?thesis
      using mem_trim_unfold [OF assms] no assms(1) by (auto simp: same_data_def kept_octets_def)
  qed
qed

end
