(* ===== verification/Lwip_Heap_Use.thy ===== *)
theory Lwip_Heap_Use
  imports Lwip_Heap_Blocks
begin

unbundle bit_operations_syntax

text \<open>
  The heap as its users see it: sequences of allocations, writes into owned blocks, shrinking
  and freeing. Owned blocks are disjoint and keep their content, no operation on them fails an
  assertion, and with all blocks freed the heap is one free block again.
\<close>

section \<open>Owners\<close>

text \<open>
  \<open>owns h L\<close>: a state of the heap that users reach, with the blocks they own by address and the octets
  they have in them. A new block has whatever octets it had before.
\<close>

definition octets_at :: "(int \<Rightarrow> u8) \<Rightarrow> int \<Rightarrow> nat \<Rightarrow> u8 list" where
  "octets_at f p n = map (\<lambda>i. f (p + int i)) [0..<n]"

inductive owns :: "heapst \<Rightarrow> (int \<rightharpoonup> u8 list) \<Rightarrow> bool" where
  init: "st_used (mem_stats h) = 0 \<Longrightarrow> owns (mem_init h) Map.empty"
| malloc: "owns h L \<Longrightarrow> sz \<le> 65532 \<Longrightarrow> mem_malloc sz h = Some (Some p, h') \<Longrightarrow> owns h' (L(p \<mapsto> octets_at (ram h') p (unat sz)))"
| malloc_null: "owns h L \<Longrightarrow> mem_malloc sz h = Some (None, h') \<Longrightarrow> owns h' L"
| put: "owns h L \<Longrightarrow> L p = Some c \<Longrightarrow> i < length c \<Longrightarrow> owns (h\<lparr>ram := (ram h)(p + int i := v)\<rparr>) (L(p \<mapsto> c[i := v]))"
| trim: "owns h L \<Longrightarrow> L p = Some c \<Longrightarrow> unat sz \<le> length c \<Longrightarrow> mem_trim p sz h = Some (r, h') \<Longrightarrow> owns h' (L(p \<mapsto> take (unat sz) c))"
| free: "owns h L \<Longrightarrow> L p = Some c \<Longrightarrow> mem_free (Some p) h = Some h' \<Longrightarrow> owns h' (L(p := None))"

section \<open>The blocks in use\<close>

fun live :: "int \<Rightarrow> block list \<Rightarrow> (int \<times> int) list" where
  "live p [] = []"
| "live p ((n, u) # bs) = (if u then [(p + 8, n - 8)] else []) @ live (p + n) bs"

lemma live_append: "live p (xs @ ys) = live p xs @ live (p + sum_list (map fst xs)) ys"
  by (induction p xs rule: live.induct) (auto simp: add.assoc)

lemma payload_live: "payload p bs a \<longleftrightarrow> (\<exists>(q, n) \<in> set (live p bs). q \<le> a \<and> a < q + n)"
  by (induction p bs rule: live.induct) auto

lemma live_range: "seg f p q bs r t \<Longrightarrow> (l, n) \<in> set (live p bs) \<Longrightarrow> p + 8 \<le> l \<and> l + n \<le> r \<and> 12 \<le> n \<and> 4 dvd l - p"
proof (induction bs arbitrary: p q)
  case (Cons b bs)
  obtain k u where b: "b = (k, u)" by (cases b)
  with Cons.prems have s: "20 \<le> k" "4 dvd k" "seg f (p + k) p bs r t" by auto
  show ?case
  proof (cases "(l, n) \<in> set (live (p + k) bs)")
    case True
    from Cons.IH [OF s(3) this] s(1,2) show ?thesis using dvd_add [of 4 "l - (p + k)" k] by auto
  next
    case False
    with Cons.prems(2) b s seg_le [OF s(3)] show ?thesis by (auto split: if_splits)
  qed
qed simp

lemma live_disjoint:
  "seg f p q bs r t \<Longrightarrow> (l, n) \<in> set (live p bs) \<Longrightarrow> (l', n') \<in> set (live p bs) \<Longrightarrow> l + n \<le> l' \<or> l' + n' \<le> l \<or> l = l' \<and> n = n'"
proof (induction bs arbitrary: p q)
  case (Cons b bs)
  obtain k u where b: "b = (k, u)" by (cases b)
  with Cons.prems have s: "seg f (p + k) p bs r t" by auto
  show ?case using Cons.IH [OF s] Cons.prems(2,3) b live_range [OF s] by (fastforce split: if_splits)
qed simp

lemma live_split: "(l, n) \<in> set (live p bs) \<Longrightarrow> \<exists>xs ys. bs = xs @ (n + 8, True) # ys \<and> l = p + sum_list (map fst xs) + 8"
proof (induction p bs rule: live.induct)
  case (2 p k u bs)
  show ?case
  proof (cases "(l, n) \<in> set (live (p + k) bs)")
    case True
    from "2.IH" [OF this] obtain xs ys where "bs = xs @ (n + 8, True) # ys" "l = p + k + sum_list (map fst xs) + 8" by blast
    then show ?thesis by (intro exI [of _ "(k, u) # xs"] exI [of _ ys]) simp
  next
    case False
    with "2.prems" show ?thesis by (intro exI [of _ "[]"] exI [of _ bs]) (auto split: if_splits)
  qed
qed simp

lemma live_Nil: "live p bs = [] \<longleftrightarrow> list_all (\<lambda>b. \<not> snd b) bs"
  by (induction p bs rule: live.induct) auto

lemma live_carve:
  "m + 8 \<le> n \<Longrightarrow> \<exists>c\<ge>m. live p (carve m n @ ys) = (p + 8, c) # live (p + n) ys"
  by (auto simp: carve_def)

lemma live_release: "live 0 (release xs n ys) = live 0 xs @ live (sum_list (map fst xs) + n) ys"
proof -
  obtain n' ys' where a: "absorb n ys = (n', ys')" by (cases "absorb n ys")
  have "live (sum_list (map fst xs) + n') ys' = live (sum_list (map fst xs) + n) ys"
    using a by (cases rule: absorb_cases [of ys n]) (auto simp: add.assoc)
  then show ?thesis
    by (cases xs rule: rev_cases) (auto simp: release_def a merge_prev_def live_append add.assoc)
qed

lemma live_shrink:
  "m + 8 \<le> n \<Longrightarrow> \<exists>c\<ge>m. live p (shrink m n ys) = (p + 8, c) # live (p + n) ys"
  by (cases ys) (auto simp: shrink_def add.assoc split: bool.splits)

lemma live_distinct: "seg f p q bs r t \<Longrightarrow> distinct (map fst (live p bs))"
proof (induction bs arbitrary: p q)
  case (Cons b bs)
  obtain k u where b: "b = (k, u)" by (cases b)
  with Cons.prems have s: "20 \<le> k" "seg f (p + k) p bs r t" by auto
  show ?case using Cons.IH [OF s(2)] b live_range [OF s(2)] s(1) by (fastforce split: if_splits)
qed simp

section \<open>The invariant\<close>

definition owned :: "(int \<Rightarrow> u8) \<Rightarrow> (int \<rightharpoonup> u8 list) \<Rightarrow> (int \<times> int) list \<Rightarrow> bool" where
  "owned f L ls \<longleftrightarrow> dom L = fst ` set ls \<and>
     (\<forall>(q, n) \<in> set ls. \<exists>c. L q = Some c \<and> int (length c) \<le> n \<and> (\<forall>i < length c. f (q + int i) = c ! i))"

lemma ownedD:
  "owned f L ls \<Longrightarrow> (l, k) \<in> set ls \<Longrightarrow> \<exists>c. L l = Some c \<and> int (length c) \<le> k \<and> (\<forall>i < length c. f (l + int i) = c ! i)"
  by (auto simp: owned_def)

lemma ownedI:
  assumes "dom L = fst ` set ls"
    "\<And>l k. (l, k) \<in> set ls \<Longrightarrow> \<exists>c. L l = Some c \<and> int (length c) \<le> k \<and> (\<forall>i < length c. f (l + int i) = c ! i)"
  shows "owned f L ls"
  using assms by (auto simp: owned_def)

lemma owned_upd:
  assumes "owned f L (ls @ ls')" "distinct (map fst (ls @ (q, n) # ls'))" "int (length c) \<le> n" "\<And>i. i < length c \<Longrightarrow> g (q + int i) = c ! i"
    "\<And>l k a. (l, k) \<in> set (ls @ ls') \<Longrightarrow> l \<le> a \<Longrightarrow> a < l + k \<Longrightarrow> g a = f a"
  shows "owned g (L(q \<mapsto> c)) (ls @ (q, n) # ls')"
proof -
  have "\<exists>c'. (L(q \<mapsto> c)) l = Some c' \<and> int (length c') \<le> k \<and> (\<forall>i < length c'. g (l + int i) = c' ! i)"
    if k: "(l, k) \<in> set (ls @ ls')" for l k
  proof -
    from ownedD [OF assms(1) k] obtain c' where c': "L l = Some c'" "int (length c') \<le> k" "\<forall>i < length c'. f (l + int i) = c' ! i"
      by blast
    then have "g (l + int i) = c' ! i" if "i < length c'" for i using assms(5) [OF k, of "l + int i"] that by auto
    moreover have "l \<noteq> q" using assms(2) k by force
    ultimately show ?thesis using c' by auto
  qed
  then show ?thesis using assms(1,3,4) by (auto simp: owned_def)
qed

lemma owned_remove:
  assumes "owned f L (ls @ (q, n) # ls')" "distinct (map fst (ls @ (q, n) # ls'))"
  shows "owned f (L(q := None)) (ls @ ls')"
proof -
  have q: "q \<notin> fst ` set (ls @ ls')" using assms(2) by auto
  have "\<exists>c. (L(q := None)) l = Some c \<and> int (length c) \<le> k \<and> (\<forall>i < length c. f (l + int i) = c ! i)"
    if "(l, k) \<in> set (ls @ ls')" for l k
  proof -
    have "l \<noteq> q" using q that by force
    then show ?thesis using ownedD [OF assms(1), of l k] that by auto
  qed
  moreover have "dom (L(q := None)) = fst ` set (ls @ ls')" using assms(1) q by (auto simp: owned_def)
  ultimately show ?thesis unfolding owned_def by blast
qed

lemma owned_same:
  assumes "owned f L ls" "\<And>l k a. (l, k) \<in> set ls \<Longrightarrow> l \<le> a \<Longrightarrow> a < l + k \<Longrightarrow> g a = f a"
  shows "owned g L ls"
proof -
  have "\<exists>c. L l = Some c \<and> int (length c) \<le> k \<and> (\<forall>i < length c. g (l + int i) = c ! i)" if k: "(l, k) \<in> set ls" for l k
  proof -
    from ownedD [OF assms(1) k] obtain c where c: "L l = Some c" "int (length c) \<le> k" "\<forall>i < length c. f (l + int i) = c ! i"
      by blast
    then have "g (l + int i) = c ! i" if "i < length c" for i using assms(2) [OF k, of "l + int i"] that by auto
    with c show ?thesis by auto
  qed
  then show ?thesis using assms(1) by (auto simp: owned_def)
qed

lemma seg_put:
  assumes "seg f p q bs r t" "payload p bs a" "\<And>x. x \<noteq> a \<Longrightarrow> g x = f x"
  shows "seg g p q bs r t"
  using assms(1,2)
proof (induction bs arbitrary: p q)
  case (Cons b bs)
  obtain n u where b: "b = (n, u)" by (cases b)
  with Cons.prems(1) have s: "20 \<le> n" "seg f (p + n) p bs r t" by auto
  have a: "p + 8 \<le> a" using payload_range [OF Cons.prems] by simp
  then have "load16 g p = load16 f p" "load16 g (p + 2) = load16 f (p + 2)" "g (p + 4) = f (p + 4)"
    using assms(3) by (auto intro!: load16_cong)
  moreover have "seg g (p + n) p bs r t"
  proof (cases "payload (p + n) bs a")
    case True
    then show ?thesis using Cons.IH [OF s(2)] by simp
  next
    case False
    then have "a < p + n" using Cons.prems(2) b by auto
    then show ?thesis using assms(3) by (intro seg_frame [OF s(2)]) auto
  qed
  ultimately show ?case using Cons.prems(1) b by simp
qed simp

definition heap_owned :: "block list \<Rightarrow> heapst \<Rightarrow> (int \<rightharpoonup> u8 list) \<Rightarrow> bool" where
  "heap_owned bs h L \<longleftrightarrow> heap_ok bs h \<and> owned (ram h) L (live 0 bs)"

lemma mem_init_ok: "st_used (mem_stats h) = 0 \<Longrightarrow> heap_owned [(32404, False)] (mem_init h) Map.empty"
  by (simp add: heap_owned_def heap_ok_def mem_init_def Let_def heap_defs owned_def)

lemma heap_ok_seg: "heap_ok bs h \<Longrightarrow> \<exists>t. seg (ram h) 0 0 bs 32404 t"
  by (simp add: heap_ok_def)

lemma octets_at_nth [simp]: "length (octets_at f p n) = n" "i < n \<Longrightarrow> octets_at f p n ! i = f (p + int i)"
  by (simp_all add: octets_at_def)

lemma malloc_owned_fresh:
  assumes "heap_owned bs h L" "sz \<le> 65532" "mem_malloc sz h = Some (Some p, h')"
  shows "(\<exists>bs'. heap_owned bs' h' (L(p \<mapsto> octets_at (ram h') p (unat sz)))) \<and> L p = None"
proof -
  have ok: "heap_ok bs h" "owned (ram h) L (live 0 bs)" using assms(1) by (simp_all add: heap_owned_def)
  from assms(3) have z: "sz \<noteq> 0" "want sz \<le> 32404" using mem_malloc_refuses(1) [of sz h] by fastforce+
  moreover from this obtain l where l: "fit (want sz) 0 bs = Some l" using mem_malloc_refuses(2) [OF ok(1), of sz] assms(3) by fastforce
  ultimately have p: "p = l + 8" and h': "heap_ok (alloc (want sz) bs) h'" and d: "same_data 0 bs (ram h) (ram h')"
    using mem_malloc_takes [OF ok(1), of sz l] assms(3) by auto
  obtain t where "seg (ram h) 0 0 bs 32404 t" using ok(1) by (auto simp: heap_ok_def)
  from fit_split [OF l this] obtain xs n ys a where
    bs: "bs = xs @ (n, False) # ys" "want sz + 8 \<le> n" "seg (ram h) 0 0 xs l a" "alloc (want sz) bs = xs @ carve (want sz) n @ ys" by blast
  have lx: "l = sum_list (map fst xs)" using seg_end [OF bs(3)] by simp
  from live_carve [OF bs(2), of l ys] obtain c where c: "want sz \<le> c" "live l (carve (want sz) n @ ys) = (p, c) # live (l + n) ys"
    using p by blast
  have ls: "live 0 bs = live 0 xs @ live (l + n) ys" "live 0 (alloc (want sz) bs) = live 0 xs @ (p, c) # live (l + n) ys"
    unfolding bs(4) live_append [of 0 xs "carve _ _ @ ys"] using c(2) by (simp_all add: bs(1) live_append [of _ xs] flip: lx)
  have "uint sz \<le> want sz" using want_props(3) [of sz] assms(2) by (simp add: word_le_def)
  then have "int (unat sz) \<le> c" using c(1) by simp
  moreover have ds: "distinct (map fst (live 0 (alloc (want sz) bs)))" using heap_ok_seg [OF h'] live_distinct by blast
  moreover have "ram h' b = ram h b" if "(q, k) \<in> set (live 0 bs)" "q \<le> b" "b < q + k" for q k b
    using d that by (auto simp: same_data_def payload_live)
  ultimately have "owned (ram h') (L(p \<mapsto> octets_at (ram h') p (unat sz))) (live 0 (alloc (want sz) bs))"
    unfolding ls using ok(2) by (intro owned_upd) (auto simp: ls)
  moreover have "p \<notin> dom L" using ok(2) ds unfolding ls owned_def by auto
  ultimately show ?thesis using h' by (auto simp: heap_owned_def)
qed

lemma malloc_owned:
  assumes "heap_owned bs h L" "sz \<le> 65532" "mem_malloc sz h = Some (Some p, h')"
  shows "\<exists>bs'. heap_owned bs' h' (L(p \<mapsto> octets_at (ram h') p (unat sz)))"
  using malloc_owned_fresh [OF assms] by blast

lemma owned_block:
  assumes "heap_owned bs h L" "L p = Some c"
  obtains n xs ys where "bs = xs @ (n + 8, True) # ys" "p = sum_list (map fst xs) + 8" "int (length c) \<le> n"
    "\<forall>i < length c. ram h (p + int i) = c ! i" "12 \<le> n" "4 dvd n" "n \<le> 32396" "(p, n) \<in> set (live 0 bs)"
proof -
  have ok: "heap_ok bs h" "owned (ram h) L (live 0 bs)" using assms(1) by (simp_all add: heap_owned_def)
  from ok(2) assms(2) obtain n where n: "(p, n) \<in> set (live 0 bs)" by (force simp: owned_def)
  from live_split [OF n] obtain xs ys where bs: "bs = xs @ (n + 8, True) # ys" "p = sum_list (map fst xs) + 8" by auto
  from heap_split [of xs "n + 8" True ys h] ok(1) bs(1) obtain a t where
    "seg (ram h) (sum_list (map fst xs)) a ((n + 8, True) # ys) 32404 t" "0 \<le> sum_list (map fst xs)" "sum_list (map fst xs) + (n + 8) \<le> 32404"
    by metis
  then have "12 \<le> n" "4 dvd n + 8" "n \<le> 32396" by auto
  moreover from this(2) have "4 dvd n" by presburger
  ultimately show ?thesis using that bs n ownedD [OF ok(2) n] assms(2) by auto
qed

lemma put_owned:
  assumes "heap_owned bs h L" "L p = Some c" "i < length c"
  shows "heap_owned bs (h\<lparr>ram := (ram h)(p + int i := v)\<rparr>) (L(p \<mapsto> c[i := v]))"
proof -
  from owned_block [OF assms(1,2)] obtain n xs ys where
    n: "int (length c) \<le> n" "\<forall>i < length c. ram h (p + int i) = c ! i" "12 \<le> n" "n \<le> 32396" "(p, n) \<in> set (live 0 bs)" by metis
  have ok: "heap_ok bs h" "owned (ram h) L (live 0 bs)" using assms(1) by (simp_all add: heap_owned_def)
  then obtain t where s: "seg (ram h) 0 0 bs 32404 t" by (auto simp: heap_ok_def)
  have pl: "payload 0 bs (p + int i)" unfolding payload_live using n(1,5) assms(3) by (intro bexI [of _ "(p, n)"]) auto
  then have "p + int i < 32404" using payload_range [OF s] by auto
  moreover have "seg ((ram h)(p + int i := v)) 0 0 bs 32404 t" by (rule seg_put [OF s pl]) simp
  ultimately have ok': "heap_ok bs (h\<lparr>ram := (ram h)(p + int i := v)\<rparr>)" using ok(1) by (auto simp: heap_ok_def)
  have "\<exists>c'. (L(p \<mapsto> c[i := v])) l = Some c' \<and> int (length c') \<le> k \<and> (\<forall>j < length c'. ((ram h)(p + int i := v)) (l + int j) = c' ! j)"
    if k: "(l, k) \<in> set (live 0 bs)" for l k
  proof (cases "l = p")
    case True
    then have "k = n" using live_disjoint [OF s k n(5)] live_range [OF s k] n(3) by auto
    with True n(1,2) show ?thesis by (auto simp: nth_list_update)
  next
    case False
    from ownedD [OF ok(2) k] obtain c' where c': "L l = Some c'" "int (length c') \<le> k" "\<forall>j < length c'. ram h (l + int j) = c' ! j" by blast
    moreover have "l + int j \<noteq> p + int i" if "j < length c'" for j
      using live_disjoint [OF s k n(5)] False c'(2) n(1) assms(3) that by auto
    ultimately show ?thesis using False by auto
  qed
  moreover have "dom (L(p \<mapsto> c[i := v])) = fst ` set (live 0 bs)" using ok(2) assms(2) by (auto simp: owned_def)
  ultimately have "owned ((ram h)(p + int i := v)) (L(p \<mapsto> c[i := v])) (live 0 bs)" by (intro ownedI) blast+
  with ok' show ?thesis by (simp add: heap_owned_def)
qed

lemma want_le: "uint sz \<le> n \<Longrightarrow> 12 \<le> n \<Longrightarrow> 4 dvd n \<Longrightarrow> n \<le> 32396 \<Longrightarrow> want sz \<le> n"
  using want_props(2,3) [of sz] by presburger

lemma trim_owned:
  assumes "heap_owned bs h L" "L p = Some c" "unat sz \<le> length c"
  shows "\<exists>h' bs'. mem_trim p sz h = Some (Some p, h') \<and> heap_owned bs' h' (L(p \<mapsto> take (unat sz) c))"
proof -
  from owned_block [OF assms(1,2)] obtain n xs ys where
    n: "bs = xs @ (n + 8, True) # ys" "p = sum_list (map fst xs) + 8" "int (length c) \<le> n" "\<forall>i < length c. ram h (p + int i) = c ! i"
      "12 \<le> n" "4 dvd n" "n \<le> 32396" by metis
  have ok: "heap_ok (xs @ (n + 8, True) # ys) h" "owned (ram h) L (live 0 bs)" using assms(1) n(1) by (simp_all add: heap_owned_def)
  let ?q = "sum_list (map fst xs)"
  have us: "uint sz \<le> n" using assms(3) n(3) uint_nat [of sz] by linarith
  have m: "want sz \<le> n" by (rule want_le [OF us n(5-7)])
  then obtain h' where h': "mem_trim p sz h = Some (Some p, h')" "heap_ok (xs @ shrink (want sz) (n + 8) ys) h'"
    "same_data 0 (xs @ (n + 8, False) # ys) (ram h) (ram h')" "kept_octets p (want sz) (ram h) (ram h')"
    using mem_trim_shrinks [OF ok(1) refl refl, of sz] n(2) by auto
  from live_shrink [of "want sz" "n + 8" ?q ys] m obtain k where
    k: "want sz \<le> k" "live ?q (shrink (want sz) (n + 8) ys) = (p, k) # live (?q + (n + 8)) ys" using n(2) by auto
  let ?ls = "live 0 xs" and ?ls' = "live (?q + (n + 8)) ys"
  have ls: "live 0 (xs @ shrink (want sz) (n + 8) ys) = ?ls @ (p, k) # ?ls'" "live 0 bs = ?ls @ (p, n) # ?ls'"
    using k(2) n(1,2) by (simp_all add: live_append)
  have dist: "distinct (map fst (?ls @ (p, k) # ?ls'))" "distinct (map fst (?ls @ (p, n) # ?ls'))"
    using heap_ok_seg [OF h'(2)] heap_ok_seg [OF ok(1)] live_distinct n(1) ls by metis+
  have u: "uint sz \<le> want sz" "want sz \<le> k" using want_props(3) [of sz] n(7) k(1) us by auto
  have "ram h' b = ram h b" if "(q, j) \<in> set (?ls @ ?ls')" "q \<le> b" "b < q + j" for q j b
    using h'(3) that unfolding same_data_def payload_live by (force simp: live_append)
  moreover have "ram h' (p + int i) = take (unat sz) c ! i" if i: "i < length (take (unat sz) c)" for i
  proof -
    have "i < unat sz" "i < length c" using i by auto
    moreover from this have "int i < want sz" using u(1) uint_nat [of sz] by linarith
    ultimately show ?thesis using h'(4) n(4) by (simp add: kept_octets_def)
  qed
  ultimately have "owned (ram h') ((L(p := None))(p \<mapsto> take (unat sz) c)) (?ls @ (p, k) # ?ls')"
    using u assms(3) owned_remove [of "ram h" L ?ls p n ?ls'] ok(2) dist unfolding ls by (intro owned_upd) auto
  then show ?thesis using h' by (auto simp: heap_owned_def ls)
qed

lemma free_owned:
  assumes "heap_owned bs h L" "L p = Some c"
  shows "\<exists>h' bs'. mem_free (Some p) h = Some h' \<and> heap_owned bs' h' (L(p := None))"
proof -
  from owned_block [OF assms] obtain n xs ys where
    n: "bs = xs @ (n + 8, True) # ys" "p = sum_list (map fst xs) + 8" by metis
  have ok: "heap_ok (xs @ (n + 8, True) # ys) h" "owned (ram h) L (live 0 bs)" using assms(1) n(1) by (simp_all add: heap_owned_def)
  let ?q = "sum_list (map fst xs)"
  let ?ls = "live 0 xs" and ?ls' = "live (?q + (n + 8)) ys"
  from mem_free_releases [OF ok(1)] obtain h' where h': "mem_free (Some p) h = Some h'" "heap_ok (release xs (n + 8) ys) h'"
    "same_data 0 (xs @ (n + 8, False) # ys) (ram h) (ram h')" using n(2) by auto
  have ls: "live 0 bs = ?ls @ (p, n) # ?ls'" using n by (simp add: live_append)
  have "distinct (map fst (?ls @ (p, n) # ?ls'))" using heap_ok_seg [OF ok(1)] live_distinct n(1) ls by metis
  from owned_remove [OF _ this] ok(2) ls have "owned (ram h) (L(p := None)) (?ls @ ?ls')" by simp
  moreover have "ram h' b = ram h b" if "(q, j) \<in> set (?ls @ ?ls')" "q \<le> b" "b < q + j" for q j b
    using h'(3) that unfolding same_data_def payload_live by (force simp: live_append)
  ultimately have "owned (ram h') (L(p := None)) (live 0 (release xs (n + 8) ys))"
    unfolding live_release by (rule owned_same)
  then show ?thesis using h' by (auto simp: heap_owned_def)
qed

lemma owns_heap: "owns h L \<Longrightarrow> \<exists>bs. heap_owned bs h L"
proof (induction rule: owns.induct)
  case (init h)
  then show ?case using mem_init_ok by blast
next
  case (malloc_null h L sz h')
  then obtain bs where bs: "heap_owned bs h L" by blast
  have "heap_owned bs h' L"
  proof (cases "sz = 0 \<or> 32404 < want sz")
    case True
    then show ?thesis using malloc_null(2) bs mem_malloc_refuses(1) [of sz h] by simp
  next
    case False
    with malloc_null(2) bs mem_malloc_takes [of bs h sz] have "fit (want sz) 0 bs = None"
      by (cases "fit (want sz) 0 bs") (auto simp: heap_owned_def)
    then show ?thesis using False malloc_null(2) bs mem_malloc_refuses(2) [of bs h sz] by (auto simp: heap_owned_def heap_ok_def)
  qed
  then show ?case by blast
next
  case (malloc h L sz p h')
  then show ?case using malloc_owned by blast
next
  case (put h L p c i v)
  then show ?case using put_owned by blast
next
  case (trim h L p c sz r h')
  then obtain bs where "heap_owned bs h L" by blast
  from trim_owned [OF this trim(2,3)] obtain h1 bs' where
    "mem_trim p sz h = Some (Some p, h1)" "heap_owned bs' h1 (L(p \<mapsto> take (unat sz) c))" by blast
  with trim(4) show ?case by (metis option.inject prod.inject)
next
  case (free h L p c h')
  then obtain bs where "heap_owned bs h L" by blast
  from free_owned [OF this free(2)] obtain h1 bs' where "mem_free (Some p) h = Some h1" "heap_owned bs' h1 (L(p := None))" by blast
  with free(3) show ?case by (metis option.inject)
qed

section \<open>Properties\<close>

text \<open>Owned blocks lie inside the heap and apart from each other; a heap without owners is one free block.\<close>

lemma owned_inside:
  assumes "heap_owned bs h L" "L p = Some c"
  shows "4 dvd p \<and> 8 \<le> p \<and> p + int (length c) \<le> 32404 \<and> octets_at (ram h) p (length c) = c"
proof -
  from assms(1) obtain t where s: "seg (ram h) 0 0 bs 32404 t" by (auto simp: heap_owned_def heap_ok_def)
  from owned_block [OF assms] obtain n where
    n: "int (length c) \<le> n" "\<forall>i < length c. ram h (p + int i) = c ! i" "(p, n) \<in> set (live 0 bs)" by metis
  with live_range [OF s n(3)] show ?thesis by (auto intro!: nth_equalityI)
qed

lemma owned_apart:
  assumes "heap_owned bs h L" "L p = Some c" "L q = Some d" "p < q"
  shows "p + int (length c) \<le> q"
proof -
  from assms(1) obtain t where s: "seg (ram h) 0 0 bs 32404 t" by (auto simp: heap_owned_def heap_ok_def)
  from owned_block [OF assms(1,2)] obtain n where n: "int (length c) \<le> n" "(p, n) \<in> set (live 0 bs)" by metis
  from owned_block [OF assms(1,3)] obtain k where k: "12 \<le> k" "(q, k) \<in> set (live 0 bs)" by metis
  from live_disjoint [OF s n(2) k(2)] n(1) k(1) assms(4) show ?thesis by auto
qed

lemma heap_unowned:
  assumes "heap_owned bs h Map.empty"
  shows "bs = [(32404, False)]"
proof -
  from assms have bs: "heap_ok bs h" "owned (ram h) Map.empty (live 0 bs)" by (simp_all add: heap_owned_def)
  then have free: "list_all (\<lambda>b. \<not> snd b) bs" using live_Nil [of 0 bs] by (simp add: owned_def)
  obtain t where "seg (ram h) 0 0 bs 32404 t" using heap_ok_seg [OF bs(1)] by blast
  then have sum: "sum_list (map fst bs) = 32404" using seg_end by fastforce
  then obtain b bs' where b: "bs = b # bs'" by (cases bs) auto
  moreover have "bs' = []" using bs(1) free b by (cases bs') (auto simp: heap_ok_def coalesced_Cons)
  ultimately show ?thesis using sum free by (cases b) simp
qed

lemma unowned_malloc:
  assumes "heap_owned bs h Map.empty" "0 < sz" "sz \<le> 32396"
  shows "\<exists>h'. mem_malloc sz h = Some (Some 8, h')"
proof -
  have "uint sz \<le> 32396" using assms(3) by (simp add: word_le_def)
  then have "want sz \<le> 32396" using want_le [of sz 32396] by simp
  moreover have "heap_ok [(32404, False)] h" using assms(1) heap_unowned [OF assms(1)] by (simp add: heap_owned_def)
  ultimately show ?thesis using mem_malloc_takes [of "[(32404, False)]" h sz 0] assms(2) by auto
qed


text \<open>
  No operation on owned blocks ends in a failed assertion or an endless search (C19): every allocation
  returns, freeing an owned block returns, and shrinking one returns its address.
\<close>

theorem heap_operations_return:
  assumes "owns h L"
  shows "(\<exists>r h'. mem_malloc sz h = Some (r, h')) \<and>
    (\<forall>p c. L p = Some c \<longrightarrow> (\<exists>h'. mem_free (Some p) h = Some h') \<and>
       (unat sz \<le> length c \<longrightarrow> (\<exists>h'. mem_trim p sz h = Some (Some p, h'))))"
proof -
  from owns_heap [OF assms] obtain bs where bs: "heap_owned bs h L" by blast
  then have ok: "heap_ok bs h" by (simp add: heap_owned_def)
  have "\<exists>r h'. mem_malloc sz h = Some (r, h')"
  proof (cases "sz = 0 \<or> 32404 < want sz")
    case True
    from mem_malloc_refuses(1) [OF this] show ?thesis by blast
  next
    case False
    then show ?thesis
      using mem_malloc_refuses(2) [OF ok, of sz] mem_malloc_takes [OF ok, of sz] by (cases "fit (want sz) 0 bs") fastforce+
  qed
  then show ?thesis using trim_owned [OF bs] free_owned [OF bs] by blast
qed

text \<open>
  Nothing leaks: when every block has been freed, whatever happened before, the heap is one free
  block, and a request for up to 32396 octets is served from its start.
\<close>

theorem heap_all_returned:
  assumes "owns h Map.empty" "0 < sz" "sz \<le> 32396"
  shows "\<exists>h'. mem_malloc sz h = Some (Some 8, h')"
  using owns_heap [OF assms(1)] unowned_malloc assms(2,3) by blast

text \<open>\<open>mem_calloc\<close> is an allocation followed by writes of zero, as long as the product does not wrap.\<close>

lemma zeroed_owns:
  assumes "owns h L" "L p = Some c" "k \<le> length c"
  shows "owns (h\<lparr>ram := (\<lambda>a. if p \<le> a \<and> a < p + int k then 0 else ram h a)\<rparr>) (L(p \<mapsto> replicate k 0 @ drop k c))"
  using assms(3)
proof (induction k)
  case 0
  have "L(p \<mapsto> c) = L" using assms(2) by auto
  moreover have "(\<lambda>a. if p \<le> a \<and> a < p + int 0 then 0 else ram h a) = ram h" by (rule ext) auto
  ultimately show ?case using assms(1) by (simp del: of_nat_0)
next
  case (Suc k)
  let ?h = "\<lambda>k. h\<lparr>ram := (\<lambda>a. if p \<le> a \<and> a < p + int k then 0 else ram h a)\<rparr>"
  have c: "drop k c = c ! k # drop (Suc k) c" using Suc.prems by (simp add: Cons_nth_drop_Suc)
  have "owns (?h k\<lparr>ram := (ram (?h k))(p + int k := 0)\<rparr>)
      ((L(p \<mapsto> replicate k 0 @ drop k c))(p \<mapsto> (replicate k 0 @ drop k c)[k := 0]))"
    by (rule owns.put [OF Suc.IH]) (use Suc.prems in simp_all)
  moreover have "(replicate k 0 @ drop k c)[k := 0] = replicate (Suc k) 0 @ drop (Suc k) c"
    unfolding c by (simp add: list_update_append replicate_append_same)
  moreover have "?h k\<lparr>ram := (ram (?h k))(p + int k := 0)\<rparr> = ?h (Suc k)" by (auto simp: fun_eq_iff)
  ultimately show ?case by (simp only: fun_upd_upd)
qed

lemma mem_calloc_owns:
  assumes "owns h L" "unat count * unat sz \<le> 65532" "mem_calloc count sz h = Some (Some p, h')"
  shows "owns h' (L(p \<mapsto> replicate (unat count * unat sz) 0))"
proof -
  have n: "unat (count * sz) = unat count * unat sz" using assms(2) by (simp add: unat_word_ariths)
  then have small: "count * sz \<le> 65532" using assms(2) by (simp add: word_le_nat_alt)
  from assms(3) obtain h1 where h1: "mem_malloc (count * sz) h = Some (Some p, h1)" "zero_ram p (uint count * uint sz) h1 = Some h'"
    by (auto simp: mem_calloc_def bind_eq_Some_conv split: option.splits prod.splits)
  have "uint count * uint sz = int (unat count * unat sz)" by simp
  then have h': "h' = h1\<lparr>ram := (\<lambda>a. if p \<le> a \<and> a < p + int (unat count * unat sz) then 0 else ram h1 a)\<rparr>"
    using h1(2) by (auto simp: zero_ram_def split: if_splits)
  show ?thesis
    using zeroed_owns [OF owns.malloc [OF assms(1) small h1(1)], of p "octets_at (ram h1) p (unat (count * sz))" "unat count * unat sz"] n h'
    by simp
qed

text \<open>
  A request of 65533 octets or more wraps to the smallest size when it is aligned: on an empty heap the
  caller gets 12 octets, and the next block starts right behind them.
\<close>

lemma mem_malloc_wraps:
  assumes "st_used (mem_stats h) = 0"
  shows "\<exists>h1. mem_malloc 65535 (mem_init h) = Some (Some 8, h1) \<and> (\<exists>h2. mem_malloc 1 h1 = Some (Some 28, h2))"
proof -
  have w: "want 65535 = 12" "want 1 = 12" by (simp_all add: want_def align_value)
  have ok: "heap_ok [(32404, False)] (mem_init h)" using mem_init_ok [OF assms] by (simp add: heap_owned_def)
  from mem_malloc_takes [OF ok, of 65535 0] obtain h1 where
    h1: "mem_malloc 65535 (mem_init h) = Some (Some 8, h1)" "heap_ok [(20, True), (32384, False)] h1"
    by (auto simp: w carve_def)
  from mem_malloc_takes [OF h1(2), of 1 20] h1(1) show ?thesis by (auto simp: w)
qed

definition zero_heap :: heapst where
  "zero_heap = \<lparr>ram = (\<lambda>_. 0), ram_end = 0, lfree = 0,
     mem_stats = \<lparr>st_avail = 0, st_used = 0, st_max = 0, st_err = 0, st_illegal = 0\<rparr>\<rparr>"

lemma zero_heap_owns: "owns (mem_init zero_heap) Map.empty"
  by (rule owns.init) (simp add: zero_heap_def)

lemma two_blocks:
  "\<exists>h1 h2. mem_malloc 3 (mem_init zero_heap) = Some (Some 8, h1) \<and> mem_malloc 100 h1 = Some (Some 28, h2)"
proof -
  have w: "want 3 = 12" "want 100 = 100" by (simp_all add: want_def align_value)
  have ok: "heap_ok [(32404, False)] (mem_init zero_heap)" using mem_init_ok [of zero_heap] by (simp add: heap_owned_def zero_heap_def)
  from mem_malloc_takes [OF ok, of 3 0] obtain h1 where
    h1: "mem_malloc 3 (mem_init zero_heap) = Some (Some 8, h1)" "heap_ok [(20, True), (32384, False)] h1" by (auto simp: w carve_def)
  from mem_malloc_takes [OF h1(2), of 100 20] h1(1) show ?thesis by (auto simp: w)
qed


theorem heap_operations_return_witness:
  "\<exists>h1 h2. mem_malloc 3 (mem_init zero_heap) = Some (Some 8, h1) \<and> mem_free (Some 8) h1 = Some h2"
proof -
  obtain h1 where h: "mem_malloc 3 (mem_init zero_heap) = Some (Some 8, h1)" using two_blocks by blast
  then have "owns h1 [8 \<mapsto> octets_at (ram h1) 8 (unat (3 :: u16))]" using owns.malloc [OF zero_heap_owns _ h] by simp
  with h heap_operations_return [OF this, of 1] show ?thesis by auto
qed

theorem heap_all_returned_witness:
  "\<exists>h'. mem_malloc 32396 (mem_init zero_heap) = Some (Some 8, h')"
  using heap_all_returned [OF zero_heap_owns, of 32396] by simp

end
