(* ===== verification/Lwip_Pbuf_Refs.thy ===== *)
theory Lwip_Pbuf_Refs
  imports Lwip_Pbuf Lwip_Heap_Use
begin

text \<open>
  Reference counting of the packet buffers: the count of a buffer is the number of references its
  users hold plus the number of buffers that are followed by it, the data of every buffer lies
  inside its own block, and a buffer is given back exactly when its last reference goes.
\<close>

section \<open>The buffers in use\<close>

definition buffer_ok :: "(int \<rightharpoonup> u8 list) \<Rightarrow> (memp_t \<Rightarrow> nat set) \<Rightarrow> pb_ptr \<Rightarrow> pbuf_struct \<Rightarrow> bool" where
  "buffer_ok L out p h \<longleftrightarrow>
     (case p of
        Ram a \<Rightarrow> pb_type h = PBUF_RAM \<and>
          (\<exists>c off. L a = Some c \<and> pb_payload h = Data p off \<and> 16 \<le> off \<and> off + uint (pb_len h) \<le> int (length c))
      | Pool e \<Rightarrow> pb_type h = PBUF_POOL \<and> e \<in> out MEMP_PBUF_POOL \<and>
          (\<exists>off. pb_payload h = Data p off \<and> 16 \<le> off \<and> off + uint (pb_len h) \<le> 1532)
      | Ref e \<Rightarrow> (pb_type h = PBUF_ROM \<or> pb_type h = PBUF_REF) \<and> e \<in> out MEMP_PBUF \<and>
          (pb_payload h = Null \<or> (\<exists>a. pb_payload h = Extern a)))"

definition memory_ok :: "(int \<rightharpoonup> u8 list) \<Rightarrow> (memp_t \<Rightarrow> nat set) \<Rightarrow> pbufst \<Rightarrow> bool" where
  "memory_ok L out s \<longleftrightarrow> (\<exists>bs. heap_owned bs (pb_heap s) L) \<and> (\<forall>i. pool_ok i (out i) (pb_pools s))"

text \<open>
  \<open>preds D us s p\<close> are the buffers of \<open>us\<close> that \<open>p\<close> follows, apart from those of \<open>D\<close>, whose pointer is about to
  be cleared. The users hold \<open>R p\<close> references to the buffer \<open>p\<close>.
\<close>

definition preds :: "pb_ptr set \<Rightarrow> pb_ptr set \<Rightarrow> pbufst \<Rightarrow> pb_ptr \<Rightarrow> pb_ptr set" where
  "preds D us s p = {x \<in> us - D. pb_next (pb_hdr s x) = Some p}"

definition counts_ok :: "pb_ptr set \<Rightarrow> pb_ptr set \<Rightarrow> (pb_ptr \<Rightarrow> nat) \<Rightarrow> pbufst \<Rightarrow> bool" where
  "counts_ok D us R s \<longleftrightarrow> finite us \<and> (\<forall>p. 0 < R p \<longrightarrow> p \<in> us) \<and>
     (\<forall>p \<in> us - D. \<forall>q. pb_next (pb_hdr s p) = Some q \<longrightarrow> q \<in> us) \<and>
     (\<forall>p \<in> us. 0 < unat (pb_ref (pb_hdr s p)) \<and> unat (pb_ref (pb_hdr s p)) = R p + card (preds D us s p))"

text \<open>The memory taken for buffers is that of the buffers in use.\<close>

definition none_lost :: "pb_ptr set \<Rightarrow> (int \<rightharpoonup> u8 list) \<Rightarrow> (memp_t \<Rightarrow> nat set) \<Rightarrow> bool" where
  "none_lost us L out \<longleftrightarrow> (\<forall>a \<in> dom L. Ram a \<in> us) \<and> (\<forall>e \<in> out MEMP_PBUF_POOL. Pool e \<in> us) \<and> (\<forall>e \<in> out MEMP_PBUF. Ref e \<in> us)"

definition pbufs_ok :: "pb_ptr set \<Rightarrow> pb_ptr set \<Rightarrow> (pb_ptr \<Rightarrow> nat) \<Rightarrow> (int \<rightharpoonup> u8 list) \<Rightarrow> (memp_t \<Rightarrow> nat set) \<Rightarrow> pbufst \<Rightarrow> bool" where
  "pbufs_ok D us R L out s \<longleftrightarrow> memory_ok L out s \<and> (\<forall>p \<in> us. buffer_ok L out p (pb_hdr s p)) \<and> counts_ok D us R s \<and> none_lost us L out"

lemma buffer_ok_fields:
  "pb_type g = pb_type h \<Longrightarrow> pb_payload g = pb_payload h \<Longrightarrow> pb_len g = pb_len h \<Longrightarrow> buffer_ok L out p g = buffer_ok L out p h"
  by (cases p) (simp_all add: buffer_ok_def)

lemma upd_pbuf_simps [simp]:
  "pb_hdr (upd_pbuf p f s) = (pb_hdr s)(p := f (pb_hdr s p))" "pb_heap (upd_pbuf p f s) = pb_heap s"
  "pb_pools (upd_pbuf p f s) = pb_pools s" "pool_data (upd_pbuf p f s) = pool_data s" "ext_data (upd_pbuf p f s) = ext_data s"
  by (simp_all add: upd_pbuf_def)

lemma memory_ok_cong: "pb_heap t = pb_heap s \<Longrightarrow> pb_pools t = pb_pools s \<Longrightarrow> memory_ok L out t = memory_ok L out s"
  by (simp add: memory_ok_def)

section \<open>Giving one buffer back\<close>

text \<open>What giving \<open>p\<close> back leaves of the memory and of the other buffers.\<close>

definition given_back :: "pb_ptr \<Rightarrow> (int \<rightharpoonup> u8 list) \<Rightarrow> (int \<rightharpoonup> u8 list) \<Rightarrow> (memp_t \<Rightarrow> nat set) \<Rightarrow> (memp_t \<Rightarrow> nat set) \<Rightarrow> bool" where
  "given_back p L L' out out' \<longleftrightarrow> (case p of
     Ram a \<Rightarrow> L' = L(a := None) \<and> out' = out
   | Pool e \<Rightarrow> L' = L \<and> out' = out(MEMP_PBUF_POOL := out MEMP_PBUF_POOL - {e})
   | Ref e \<Rightarrow> L' = L \<and> out' = out(MEMP_PBUF := out MEMP_PBUF - {e}))"

lemma given_back_others: "given_back p L L' out out' \<Longrightarrow> x \<noteq> p \<Longrightarrow> buffer_ok L out x h \<Longrightarrow> buffer_ok L' out' x h"
  by (cases p; cases x) (auto simp: given_back_def buffer_ok_def)

lemma given_back_none_lost: "given_back p L L' out out' \<Longrightarrow> none_lost us L out \<Longrightarrow> none_lost (us - {p}) L' out'"
  by (cases p) (auto simp: given_back_def none_lost_def split: if_splits)

lemma pools_upd: "\<forall>i. pool_ok i (out i) m \<Longrightarrow> e \<in> out j \<Longrightarrow> \<forall>i. pool_ok i ((out(j := out j - {e})) i) (memp_free j (Some e) m)"
  using memp_free_ok by (metis fun_upd_other fun_upd_same)

lemma pbuf_dealloc_ok:
  assumes "memory_ok L out s" "buffer_ok L out p (pb_hdr s p)"
  shows "\<exists>s' L' out'. pbuf_dealloc p s = Some s' \<and> memory_ok L' out' s' \<and> given_back p L L' out out' \<and>
    pb_hdr s' = pb_hdr s \<and> pool_data s' = pool_data s \<and> ext_data s' = ext_data s"
proof (cases p)
  case (Ram a)
  from assms(1) obtain bs where bs: "heap_owned bs (pb_heap s) L" by (auto simp: memory_ok_def)
  from assms(2) Ram obtain c where c: "L a = Some c" "pb_type (pb_hdr s p) = PBUF_RAM" by (auto simp: buffer_ok_def)
  from free_owned [OF bs c(1)] obtain h' bs' where "mem_free (Some a) (pb_heap s) = Some h'" "heap_owned bs' h' (L(a := None))" by blast
  with Ram c assms(1) show ?thesis
    by (intro exI [of _ "s\<lparr>pb_heap := h'\<rparr>"] exI [of _ "L(a := None)"] exI [of _ out])
      (auto simp: pbuf_dealloc_def memory_ok_def given_back_def)
next
  case (Pool e)
  with assms show ?thesis using pools_upd [of out "pb_pools s" e MEMP_PBUF_POOL]
    by (intro exI [of _ "s\<lparr>pb_pools := memp_free MEMP_PBUF_POOL (Some e) (pb_pools s)\<rparr>"] exI [of _ L]
        exI [of _ "out(MEMP_PBUF_POOL := out MEMP_PBUF_POOL - {e})"])
      (auto simp: pbuf_dealloc_def memory_ok_def given_back_def buffer_ok_def)
next
  case (Ref e)
  with assms show ?thesis using pools_upd [of out "pb_pools s" e MEMP_PBUF]
    by (intro exI [of _ "s\<lparr>pb_pools := memp_free MEMP_PBUF (Some e) (pb_pools s)\<rparr>"] exI [of _ L]
        exI [of _ "out(MEMP_PBUF := out MEMP_PBUF - {e})"])
      (auto simp: pbuf_dealloc_def memory_ok_def given_back_def buffer_ok_def)
qed

section \<open>Freeing\<close>

text \<open>
  A buffer of \<open>K\<close> is kept: the users refer to it or it follows a buffer that is kept. A state \<open>s'\<close> with the buffers
  \<open>us'\<close> left has the same structures there, counts apart, and the same data.
\<close>

definition kept :: "pb_ptr set \<Rightarrow> pb_ptr set \<Rightarrow> (pb_ptr \<Rightarrow> nat) \<Rightarrow> pbufst \<Rightarrow> pb_ptr set \<Rightarrow> bool" where
  "kept D us R s K \<longleftrightarrow> K \<subseteq> us \<and> (\<forall>k \<in> K. 0 < R k \<or> (\<exists>x \<in> K - D. pb_next (pb_hdr s x) = Some k))"

definition left_same :: "pb_ptr set \<Rightarrow> (int \<rightharpoonup> u8 list) \<Rightarrow> (int \<rightharpoonup> u8 list) \<Rightarrow> pbufst \<Rightarrow> pbufst \<Rightarrow> bool" where
  "left_same us' L L' s s' \<longleftrightarrow> (\<forall>x \<in> us'. (pb_hdr s' x)\<lparr>pb_ref := 0\<rparr> = (pb_hdr s x)\<lparr>pb_ref := 0\<rparr>) \<and>
     (\<forall>a. Ram a \<in> us' \<longrightarrow> L' a = L a) \<and> pool_data s' = pool_data s \<and> ext_data s' = ext_data s"

lemma preds_ref [simp]: "preds D us (upd_pbuf p (\<lambda>h. h\<lparr>pb_ref := f h\<rparr>) s) x = preds D us s x"
  by (auto simp: preds_def)

lemma counts_drop:
  assumes "counts_ok D us (R(p := R p + 1)) s" "unat (pb_ref (pb_hdr s p)) \<noteq> 1"
  shows "counts_ok D us R (upd_pbuf p (\<lambda>h. h\<lparr>pb_ref := pb_ref h - 1\<rparr>) s)"
proof -
  let ?s = "upd_pbuf p (\<lambda>h. h\<lparr>pb_ref := pb_ref h - 1\<rparr>) s"
  have p: "p \<in> us" "0 < unat (pb_ref (pb_hdr s p))" "unat (pb_ref (pb_hdr s p)) = R p + 1 + card (preds D us s p)"
    using assms(1) by (auto simp: counts_ok_def)
  have "unat (pb_ref (pb_hdr s p) - 1) = unat (pb_ref (pb_hdr s p)) - 1"
    using p(2) by (metis One_nat_def Suc_leI unat_1 unat_sub word_le_nat_alt)
  then show ?thesis using assms p unfolding counts_ok_def by auto
qed

lemma counts_remove:
  assumes "counts_ok D us (R(p := R p + 1)) s" "unat (pb_ref (pb_hdr s p)) = 1" "p \<notin> D" "p \<in> us"
    and s': "pb_hdr s' = (pb_hdr s)(p := h)"
  shows "case pb_next (pb_hdr s p) of
      None \<Rightarrow> counts_ok D (us - {p}) R s'
    | Some q \<Rightarrow> counts_ok D (us - {p}) (R(q := R q + 1)) s'"
proof -
  have c: "R p = 0" "card (preds D us s p) = 0" using assms(1,2,4) by (auto simp: counts_ok_def)
  have fin: "finite us" using assms(1) by (simp add: counts_ok_def)
  have np: "preds D us s p = {}" using c(2) fin by (simp add: preds_def)
  have pr: "preds D (us - {p}) s' x = preds D us s x - {p}" for x using s' by (auto simp: preds_def)
  have pin: "p \<in> preds D us s x \<longleftrightarrow> pb_next (pb_hdr s p) = Some x" for x using assms(3,4) by (auto simp: preds_def)
  have cd: "card (preds D us s x) = card (preds D us s x - {p}) + (if pb_next (pb_hdr s p) = Some x then 1 else 0)" for x
    using pin [of x] fin card.remove [of "preds D us s x" p] by (auto simp: preds_def)
  have ref: "0 < unat (pb_ref (pb_hdr s' x)) \<and> unat (pb_ref (pb_hdr s' x)) =
      R x + (if pb_next (pb_hdr s p) = Some x then 1 else 0) + card (preds D (us - {p}) s' x)" if "x \<in> us - {p}" for x
    using assms(1) that cd [of x] s' unfolding counts_ok_def pr by auto
  have nx: "q \<in> us - {p}" if "x \<in> us - D" "pb_next (pb_hdr s x) = Some q" for x q
    using assms(1) that np by (auto simp: counts_ok_def preds_def)
  have rin: "x \<in> us - {p}" if "0 < R x" for x using assms(1) that c(1) by (auto simp: counts_ok_def)
  have n': "\<forall>x \<in> us - {p} - D. \<forall>q. pb_next (pb_hdr s' x) = Some q \<longrightarrow> q \<in> us - {p}" using nx s' by auto
  have q: "x \<in> us - {p}" if "pb_next (pb_hdr s p) = Some x" for x using nx assms(3,4) that by blast
  define R' where "R' x = R x + (if pb_next (pb_hdr s p) = Some x then 1 else 0)" for x
  have ok: "counts_ok D (us - {p}) R' s'"
    unfolding counts_ok_def
  proof (intro conjI)
    show "\<forall>x. 0 < R' x \<longrightarrow> x \<in> us - {p}" using rin q by (metis R'_def add.right_neutral)
    show "\<forall>x \<in> us - {p}. 0 < unat (pb_ref (pb_hdr s' x)) \<and> unat (pb_ref (pb_hdr s' x)) = R' x + card (preds D (us - {p}) s' x)"
      using ref by (simp only: R'_def) blast
    show "finite (us - {p})" using fin by simp
  qed (rule n')
  show ?thesis
  proof (cases "pb_next (pb_hdr s p)")
    case None
    then have "R' = R" by (simp add: R'_def fun_eq_iff)
    with ok None show ?thesis by simp
  next
    case (Some q)
    then have "R' = R(q := R q + 1)" by (simp add: R'_def fun_eq_iff)
    with ok Some show ?thesis by simp
  qed
qed

lemma kept_step:
  assumes "kept D us R s K" "counts_ok D us (R(p := R p + 1)) s" "unat (pb_ref (pb_hdr s p)) = 1"
    and "\<And>x. x \<noteq> p \<Longrightarrow> pb_hdr s' x = pb_hdr s x"
  shows "p \<notin> K" "kept D (us - {p}) R s' K"
proof -
  have "p \<in> us" using assms(2) by (auto simp: counts_ok_def)
  then have "R p = 0" "card (preds D us s p) = 0" using assms(2,3) by (auto simp: counts_ok_def)
  then have "R p = 0" "preds D us s p = {}" using assms(2) by (auto simp: counts_ok_def preds_def)
  then show k: "p \<notin> K" using assms(1) by (fastforce simp: kept_def preds_def)
  have "pb_hdr s' x = pb_hdr s x" if "x \<in> K" for x using assms(4) k that by metis
  then show "kept D (us - {p}) R s' K" using assms(1) k by (auto simp: kept_def)
qed

text \<open>Giving back a buffer whose last reference is dropped, as one step of the walk along the chain.\<close>

lemma free_step:
  assumes "pbufs_ok D us (R(p := R p + 1)) L out s" "kept D us R s K" "D \<subseteq> K" "unat (pb_ref (pb_hdr s p)) = 1"
  shows "\<exists>s' L' out'. pbuf_dealloc p (upd_pbuf p (\<lambda>h. h\<lparr>pb_ref := pb_ref h - 1\<rparr>) s) = Some s' \<and>
    (case pb_next (pb_hdr s p) of
       None \<Rightarrow> pbufs_ok D (us - {p}) R L' out' s'
     | Some q \<Rightarrow> pbufs_ok D (us - {p}) (R(q := R q + 1)) L' out' s') \<and>
    p \<in> us \<and> kept D (us - {p}) R s' K \<and> left_same (us - {p}) L L' s s'"
proof -
  let ?s = "upd_pbuf p (\<lambda>h. h\<lparr>pb_ref := pb_ref h - 1\<rparr>) s"
  have ok: "memory_ok L out s" "\<forall>p \<in> us. buffer_ok L out p (pb_hdr s p)" "counts_ok D us (R(p := R p + 1)) s"
    using assms(1) by (simp_all add: pbufs_ok_def)
  have nl: "none_lost us L out" using assms(1) by (simp add: pbufs_ok_def)
  have p: "p \<in> us" using ok(3) by (auto simp: counts_ok_def)
  have m: "memory_ok L out ?s" using ok(1) by (simp add: memory_ok_def)
  have b: "buffer_ok L out p (pb_hdr ?s p)" using ok(2) p buffer_ok_fields [of "pb_hdr ?s p" "pb_hdr s p"] by simp
  from pbuf_dealloc_ok [OF m b] obtain s' L' out' where d: "pbuf_dealloc p ?s = Some s'" "memory_ok L' out' s'"
    "given_back p L L' out out'" "pb_hdr s' = pb_hdr ?s" "pool_data s' = pool_data s" "ext_data s' = ext_data s" by auto
  have h: "pb_hdr s' x = pb_hdr s x" if "x \<noteq> p" for x using d(4) that by simp
  note k = kept_step [OF assms(2) ok(3) assms(4) h]
  have c: "case pb_next (pb_hdr s p) of None \<Rightarrow> counts_ok D (us - {p}) R s' | Some q \<Rightarrow> counts_ok D (us - {p}) (R(q := R q + 1)) s'"
    using counts_remove [OF ok(3) assms(4) _ p, of s' "pb_hdr ?s p"] k(1) assms(3) d(4) by auto
  have o: "\<forall>x \<in> us - {p}. buffer_ok L' out' x (pb_hdr s' x)" using ok(2) given_back_others [OF d(3)] h by auto
  have "L' a = L a" if "Ram a \<noteq> p" for a using d(3) that by (auto simp: given_back_def split: pb_ptr.splits)
  then have "left_same (us - {p}) L L' s s'" using h d(5,6) by (auto simp: left_same_def)
  moreover have "case pb_next (pb_hdr s p) of None \<Rightarrow> pbufs_ok D (us - {p}) R L' out' s'
      | Some q \<Rightarrow> pbufs_ok D (us - {p}) (R(q := R q + 1)) L' out' s'"
    using c o d(2) given_back_none_lost [OF d(3) nl] by (auto simp: pbufs_ok_def split: option.splits)
  ultimately show ?thesis using d(1) k(2) p by blast
qed

lemma left_same_trans: "left_same us1 L L1 s s1 \<Longrightarrow> left_same us2 L1 L2 s1 s2 \<Longrightarrow> us2 \<subseteq> us1 \<Longrightarrow> left_same us2 L L2 s s2"
  by (simp add: left_same_def subset_iff)

lemma left_same_fields:
  assumes "left_same us L L' s s'" "x \<in> us"
  shows "pb_next (pb_hdr s' x) = pb_next (pb_hdr s x)" "pb_payload (pb_hdr s' x) = pb_payload (pb_hdr s x)"
    "pb_tot_len (pb_hdr s' x) = pb_tot_len (pb_hdr s x)" "pb_len (pb_hdr s' x) = pb_len (pb_hdr s x)"
    "pb_type (pb_hdr s' x) = pb_type (pb_hdr s x)"
proof -
  have e: "(pb_hdr s' x)\<lparr>pb_ref := 0\<rparr> = (pb_hdr s x)\<lparr>pb_ref := 0\<rparr>" using assms by (simp add: left_same_def)
  show "pb_next (pb_hdr s' x) = pb_next (pb_hdr s x)" using arg_cong [OF e, of pb_next] by simp
  show "pb_payload (pb_hdr s' x) = pb_payload (pb_hdr s x)" using arg_cong [OF e, of pb_payload] by simp
  show "pb_tot_len (pb_hdr s' x) = pb_tot_len (pb_hdr s x)" using arg_cong [OF e, of pb_tot_len] by simp
  show "pb_len (pb_hdr s' x) = pb_len (pb_hdr s x)" using arg_cong [OF e, of pb_len] by simp
  show "pb_type (pb_hdr s' x) = pb_type (pb_hdr s x)" using arg_cong [OF e, of pb_type] by simp
qed

text \<open>The pointers of the buffers left are as before or cleared.\<close>

definition shorter :: "pb_ptr set \<Rightarrow> pbufst \<Rightarrow> pbufst \<Rightarrow> bool" where
  "shorter us s s' \<longleftrightarrow> (\<forall>x \<in> us. pb_next (pb_hdr s' x) \<in> {None, pb_next (pb_hdr s x)})"

lemma left_same_shorter: "left_same us L L' s s' \<Longrightarrow> shorter us s s'"
  using left_same_fields(1) by (fastforce simp: shorter_def)

text \<open>The whole walk, started with one reference to \<open>p\<close> too many.\<close>

lemma free_loop_ok:
  assumes "pbufs_ok D us (R(p := R p + 1)) L out s" "kept D us R s K" "D \<subseteq> K"
  shows "\<exists>n s' us' L' out'. free_loop (Some p) count s = Some (n, s') \<and> pbufs_ok D us' R L' out' s' \<and>
    K \<subseteq> us' \<and> us' \<subseteq> us \<and> left_same us' L L' s s' \<and> n = count + of_nat (card us - card us')"
  using assms
proof (induction "card us" arbitrary: us p count s L out rule: less_induct)
  case less
  let ?s = "upd_pbuf p (\<lambda>h. h\<lparr>pb_ref := pb_ref h - 1\<rparr>) s"
  have ok: "memory_ok L out s" "\<forall>p \<in> us. buffer_ok L out p (pb_hdr s p)" "counts_ok D us (R(p := R p + 1)) s"
    using less.prems(1) by (simp_all add: pbufs_ok_def)
  have p: "p \<in> us" "0 < unat (pb_ref (pb_hdr s p))" "finite us" using ok(3) by (auto simp: counts_ok_def)
  have r0: "pb_ref (pb_hdr s p) \<noteq> 0" using p(2) by auto
  show ?case
  proof (cases "unat (pb_ref (pb_hdr s p)) = 1")
    case False
    then have r: "pb_ref (pb_hdr s p) - 1 \<noteq> 0" by (metis right_minus_eq unat_1)
    have "pbufs_ok D us R L out ?s"
      using counts_drop [OF ok(3) False] ok(1,2) less.prems(1) buffer_ok_fields [of "pb_hdr ?s p" "pb_hdr s p"]
      by (auto simp: pbufs_ok_def memory_ok_def)
    moreover have "left_same us L L s ?s" by (simp add: left_same_def)
    ultimately show ?thesis using r0 r less.prems(2)
      by (intro exI [of _ count] exI [of _ ?s] exI [of _ us] exI [of _ L] exI [of _ out]) (simp add: free_loop.simps kept_def)
  next
    case True
    then have "pb_ref (pb_hdr s p) = 1" by (metis unat_1 word_unat_eq_iff)
    then have r: "pb_ref (pb_hdr s p) - 1 = 0" by simp
    from free_step [OF less.prems True] obtain s1 L1 out1 where d: "pbuf_dealloc p ?s = Some s1"
      "case pb_next (pb_hdr s p) of None \<Rightarrow> pbufs_ok D (us - {p}) R L1 out1 s1 | Some q \<Rightarrow> pbufs_ok D (us - {p}) (R(q := R q + 1)) L1 out1 s1"
      "kept D (us - {p}) R s1 K" "left_same (us - {p}) L L1 s s1" by blast
    have c: "card (us - {p}) < card us" "card us = card (us - {p}) + 1" using card.remove [OF p(3,1)] by linarith+
    have e: "free_loop (Some p) count s = free_loop (pb_next (pb_hdr s p)) (count + 1) s1"
      using r0 r d(1) by (subst free_loop.simps) simp
    show ?thesis
    proof (cases "pb_next (pb_hdr s p)")
      case None
      then show ?thesis using e d(2,3,4) c
        by (intro exI [of _ "count + 1"] exI [of _ s1] exI [of _ "us - {p}"] exI [of _ L1] exI [of _ out1])
          (simp add: free_loop.simps kept_def)
    next
      case (Some q)
      then have "pbufs_ok D (us - {p}) (R(q := R q + 1)) L1 out1 s1" using d(2) by simp
      from less.hyps [OF c(1) this d(3) less.prems(3), of "count + 1"] obtain n s' us' L' out' where
        f: "free_loop (Some q) (count + 1) s1 = Some (n, s')" "pbufs_ok D us' R L' out' s'" "K \<subseteq> us'" "us' \<subseteq> us - {p}"
          "left_same us' L1 L' s1 s'" "n = count + 1 + of_nat (card (us - {p}) - card us')" by blast
      have "card us' \<le> card (us - {p})" using f(4) p(3) by (simp add: card_mono)
      then have "n = count + of_nat (card us - card us')" using f(6) c(2) by (simp add: Suc_diff_le)
      then show ?thesis using e Some f left_same_trans [OF d(4) f(5,4)] by auto
    qed
  qed
qed

section \<open>Pointers and counts\<close>

text \<open>How the counts follow a change of pointers; \<open>counts_same\<close> is a change of other fields.\<close>

lemma counts_same:
  assumes "counts_ok D us R s"
    and "\<And>x. pb_next (pb_hdr s' x) = pb_next (pb_hdr s x)" "\<And>x. pb_ref (pb_hdr s' x) = pb_ref (pb_hdr s x)"
  shows "counts_ok D us R s'"
  using assms(1) unfolding counts_ok_def preds_def assms(2,3) .

lemma counts_new:
  assumes "counts_ok {} us R s" "p \<notin> us" "pb_hdr s' = (pb_hdr s)(p := h)" "pb_next h = None" "pb_ref h = 1"
  shows "counts_ok {} (insert p us) (R(p := R p + 1)) s'"
proof -
  have R: "R p = 0" using assms(1,2) by (auto simp: counts_ok_def)
  have n: "q \<in> us" if "x \<in> us" "pb_next (pb_hdr s x) = Some q" for x q using assms(1) that by (auto simp: counts_ok_def)
  have pr: "preds {} (insert p us) s' x = preds {} us s x" for x using assms(2-4) by (auto simp: preds_def)
  have "preds {} us s p = {}" using n assms(2) by (auto simp: preds_def)
  then show ?thesis using assms R unfolding counts_ok_def pr by auto
qed

lemma counts_ref:
  assumes "counts_ok D us R s" "p \<in> us" "pb_ref (pb_hdr s p) \<noteq> 65535"
  shows "counts_ok D us (R(p := R p + 1)) (upd_pbuf p (\<lambda>h. h\<lparr>pb_ref := pb_ref h + 1\<rparr>) s)"
proof -
  have "unat (pb_ref (pb_hdr s p) + 1) = unat (pb_ref (pb_hdr s p)) + 1"
  proof -
    have "unat (pb_ref (pb_hdr s p)) < 65536" using unsigned_less [of "pb_ref (pb_hdr s p)"] by simp
    moreover have "unat (pb_ref (pb_hdr s p)) \<noteq> 65535" using assms(3) by (simp add: word_unat_eq_iff)
    ultimately have "Suc (unat (pb_ref (pb_hdr s p))) < 65536" by linarith
    then show ?thesis by (simp add: unat_word_ariths)
  qed
  then show ?thesis using assms(1,2) unfolding counts_ok_def by auto
qed

lemma counts_join:
  assumes "counts_ok {} us R s" "0 < R t" "r \<in> us" "pb_next (pb_hdr s r) = None"
    and "pb_hdr s' = (pb_hdr s)(r := h)" "pb_next h = Some t" "pb_ref h = pb_ref (pb_hdr s r)"
  shows "counts_ok {} us (R(t := R t - 1)) s'"
proof -
  have fin: "finite us" and t: "t \<in> us" using assms(1,2) by (auto simp: counts_ok_def)
  have pr: "preds {} us s' x = (if x = t then insert r (preds {} us s x) else preds {} us s x)" for x
    using assms(3-6) by (auto simp: preds_def)
  have "r \<notin> preds {} us s t" using assms(4) by (simp add: preds_def)
  moreover have "finite (preds {} us s t)" using fin by (simp add: preds_def)
  ultimately have cd: "card (preds {} us s' x) = card (preds {} us s x) + (if x = t then 1 else 0)" for x by (simp add: pr)
  show ?thesis using assms t unfolding counts_ok_def cd by (auto split: if_splits)
qed

text \<open>A pointer not counted, and a pointer cleared that was not counted.\<close>

lemma counts_hide:
  assumes "counts_ok {} us R s" "r \<in> us" "pb_next (pb_hdr s r) = Some q"
  shows "counts_ok {r} us (R(q := R q + 1)) s" "q \<in> us"
proof -
  have fin: "finite us" and q: "q \<in> us" using assms by (auto simp: counts_ok_def)
  show "q \<in> us" by (rule q)
  have pr: "preds {} us s x = (if x = q then insert r (preds {r} us s x) else preds {r} us s x)" for x
    using assms(2,3) by (auto simp: preds_def)
  have "r \<notin> preds {r} us s q" "finite (preds {r} us s q)" using fin by (simp_all add: preds_def)
  then have cd: "card (preds {} us s x) = card (preds {r} us s x) + (if x = q then 1 else 0)" for x by (simp add: pr)
  show "counts_ok {r} us (R(q := R q + 1)) s" using assms(1) q unfolding counts_ok_def cd by (auto split: if_splits)
qed

lemma counts_clear:
  assumes "counts_ok {r} us R s" "pb_hdr s' = (pb_hdr s)(r := h)" "pb_next h = None" "pb_ref h = pb_ref (pb_hdr s r)"
  shows "counts_ok {} us R s'"
proof -
  have pr: "preds {} us s' x = preds {r} us s x" for x using assms(2,3) by (auto simp: preds_def)
  have ref: "pb_ref (pb_hdr s' x) = pb_ref (pb_hdr s x)" for x using assms(2,4) by simp
  have nx: "pb_next (pb_hdr s' x) = Some q \<Longrightarrow> x \<noteq> r \<and> pb_next (pb_hdr s x) = Some q" for x q using assms(2,3) by (simp split: if_splits)
  show ?thesis using assms(1) nx unfolding counts_ok_def pr ref by blast
qed

lemma counts_cut:
  assumes "counts_ok {} us R s" "r \<in> us" "pb_next (pb_hdr s r) = Some q"
    and "pb_hdr s' = (pb_hdr s)(r := h)" "pb_next h = None" "pb_ref h = pb_ref (pb_hdr s r)"
  shows "counts_ok {} us (R(q := R q + 1)) s'"
  by (rule counts_clear [OF counts_hide(1) [OF assms(1-3)] assms(4-6)])

text \<open>All buffers in use are kept, whatever extra reference is dropped.\<close>

lemma counts_kept:
  assumes "counts_ok D us R s"
  shows "kept D us R s us"
proof -
  have "0 < R k \<or> (\<exists>x \<in> us - D. pb_next (pb_hdr s x) = Some k)" if "k \<in> us" for k
  proof (cases "preds D us s k = {}")
    case True
    then have "card (preds D us s k) = 0" by simp
    then show ?thesis using assms that by (fastforce simp: counts_ok_def)
  qed (auto simp: preds_def)
  then show ?thesis by (auto simp: kept_def)
qed

section \<open>The operations on buffers in use\<close>

lemma pbufs_upd:
  assumes "pbufs_ok D us R L out s" "\<And>h. pb_next (f h) = pb_next h" "\<And>h. pb_ref (f h) = pb_ref h"
    and "p \<in> us \<Longrightarrow> buffer_ok L out p (f (pb_hdr s p))"
  shows "pbufs_ok D us R L out (upd_pbuf p f s)"
proof -
  have "counts_ok D us R (upd_pbuf p f s)"
    by (rule counts_same [of D us R s]) (use assms(1-3) in \<open>simp_all add: pbufs_ok_def\<close>)
  then show ?thesis using assms(1,4) by (auto simp: pbufs_ok_def memory_ok_def)
qed

lemma pbufs_tot_len:
  assumes "pbufs_ok D us R L out s"
  shows "pbufs_ok D us R L out (upd_pbuf p (\<lambda>h. h\<lparr>pb_tot_len := g h\<rparr>) s)"
proof (rule pbufs_upd [OF assms])
  show "buffer_ok L out p ((pb_hdr s p)\<lparr>pb_tot_len := g (pb_hdr s p)\<rparr>)" if "p \<in> us"
    using assms that buffer_ok_fields [of "(pb_hdr s p)\<lparr>pb_tot_len := g (pb_hdr s p)\<rparr>" "pb_hdr s p"] by (simp add: pbufs_ok_def)
qed simp_all

lemma pbuf_free_ok:
  assumes "pbufs_ok {} us R L out s" "0 < R p"
  shows "\<exists>n s' us' L' out'. pbuf_free (Some p) s = Some (n, s') \<and> pbufs_ok {} us' (R(p := R p - 1)) L' out' s' \<and>
    us' \<subseteq> us \<and> left_same us' L L' s s' \<and> n = of_nat (card us - card us')"
proof -
  have "pbufs_ok {} us ((R(p := R p - 1))(p := (R(p := R p - 1)) p + 1)) L out s" using assms by simp
  moreover have "kept {} us (R(p := R p - 1)) s {}" by (simp add: kept_def)
  ultimately show ?thesis using free_loop_ok [of "{}" us "R(p := R p - 1)" p L out s "{}" 0] by (auto simp: pbuf_free_def)
qed

lemma pbuf_ref_ok:
  assumes "pbufs_ok {} us R L out s" "p \<in> us" "pb_ref (pb_hdr s p) \<noteq> 65535"
  shows "pbufs_ok {} us (R(p := R p + 1)) L out (pbuf_ref (Some p) s)"
proof -
  let ?s = "upd_pbuf p (\<lambda>h. h\<lparr>pb_ref := pb_ref h + 1\<rparr>) s"
  have "counts_ok {} us (R(p := R p + 1)) ?s" using counts_ref [of "{}" us R s p] assms by (simp add: pbufs_ok_def)
  moreover have "\<forall>x \<in> us. buffer_ok L out x (pb_hdr ?s x)"
    using assms(1) buffer_ok_fields [of "pb_hdr ?s p" "pb_hdr s p"] by (auto simp: pbufs_ok_def)
  ultimately show ?thesis using assms(1) by (simp add: pbufs_ok_def memory_ok_def pbuf_ref_def)
qed

lemma in_use: "pbufs_ok D us R L out s \<Longrightarrow> 0 < R p \<Longrightarrow> p \<in> us"
  by (auto simp: pbufs_ok_def counts_ok_def)

lemma next_in_use: "pbufs_ok {} us R L out s \<Longrightarrow> p \<in> us \<Longrightarrow> pb_next (pb_hdr s p) = Some q \<Longrightarrow> q \<in> us"
  by (auto simp: pbufs_ok_def counts_ok_def)

lemma pbufs_join:
  assumes "pbufs_ok {} us R L out s" "0 < R t" "p \<in> us" "pb_next (pb_hdr s p) = None"
  shows "pbufs_ok {} us (R(t := R t - 1)) L out (upd_pbuf p (\<lambda>h. h\<lparr>pb_next := Some t\<rparr>) s)"
proof -
  let ?s = "upd_pbuf p (\<lambda>h. h\<lparr>pb_next := Some t\<rparr>) s"
  have "counts_ok {} us (R(t := R t - 1)) ?s"
    by (rule counts_join [of us R s t p ?s "(pb_hdr s p)\<lparr>pb_next := Some t\<rparr>"]) (use assms in \<open>simp_all add: pbufs_ok_def\<close>)
  moreover have "\<forall>x \<in> us. buffer_ok L out x (pb_hdr ?s x)"
    using assms(1) buffer_ok_fields [of "pb_hdr ?s p" "pb_hdr s p"] by (auto simp: pbufs_ok_def)
  ultimately show ?thesis using assms(1) by (simp add: pbufs_ok_def memory_ok_def)
qed

lemma pbufs_cut:
  assumes "pbufs_ok {} us R L out s" "p \<in> us" "pb_next (pb_hdr s p) = Some q"
  shows "pbufs_ok {} us (R(q := R q + 1)) L out (upd_pbuf p (\<lambda>h. h\<lparr>pb_next := None, pb_tot_len := g h\<rparr>) s)"
proof -
  let ?s = "upd_pbuf p (\<lambda>h. h\<lparr>pb_next := None, pb_tot_len := g h\<rparr>) s"
  have "counts_ok {} us (R(q := R q + 1)) ?s"
    by (rule counts_cut [of us R s p q ?s "pb_hdr ?s p"]) (use assms in \<open>simp_all add: pbufs_ok_def\<close>)
  moreover have "\<forall>x \<in> us. buffer_ok L out x (pb_hdr ?s x)"
    using assms(1) buffer_ok_fields [of "pb_hdr ?s p" "pb_hdr s p"] by (auto simp: pbufs_ok_def)
  ultimately show ?thesis using assms(1) by (simp add: pbufs_ok_def memory_ok_def)
qed

lemma cat_loop_ok:
  assumes "cat_loop t p s = Some s'"
  shows "pbufs_ok {} us R L out s \<longrightarrow> 0 < R t \<longrightarrow> p \<in> us \<longrightarrow> pbufs_ok {} us (R(t := R t - 1)) L out s'"
  using assms
proof (rule cat_loop.raw_induct [where P = "\<lambda>t p s s'. pbufs_ok {} us R L out s \<longrightarrow> 0 < R t \<longrightarrow> p \<in> us \<longrightarrow> pbufs_ok {} us (R(t := R t - 1)) L out s'", rotated], intro impI)
  fix f t p s s'
  let ?s = "upd_pbuf p (\<lambda>h. h\<lparr>pb_tot_len := pb_tot_len h + pb_tot_len (pb_hdr s t)\<rparr>) s"
  assume IH: "\<And>t p s s'. f t p s = Some s' \<Longrightarrow> pbufs_ok {} us R L out s \<longrightarrow> 0 < R t \<longrightarrow> p \<in> us \<longrightarrow> pbufs_ok {} us (R(t := R t - 1)) L out s'"
    and b: "(case pb_next (pb_hdr s p) of
        None \<Rightarrow>
          if pb_tot_len (pb_hdr s p) \<noteq> pb_len (pb_hdr s p) then None
          else let s = ?s in Some (upd_pbuf p (\<lambda>h. h\<lparr>pb_next := Some t\<rparr>) s)
      | Some n \<Rightarrow> f t n ?s) = Some s'"
    and pre: "pbufs_ok {} us R L out s" "0 < R t" "p \<in> us"
  have ok: "pbufs_ok {} us R L out ?s" by (rule pbufs_tot_len [OF pre(1)])
  show "pbufs_ok {} us (R(t := R t - 1)) L out s'"
  proof (cases "pb_next (pb_hdr s p)")
    case None
    then have "s' = upd_pbuf p (\<lambda>h. h\<lparr>pb_next := Some t\<rparr>) ?s" using b by (simp add: Let_def split: if_splits)
    then show ?thesis using pbufs_join [OF ok pre(2,3)] None by simp
  next
    case (Some n)
    then show ?thesis using IH [of t n ?s s'] b ok pre(2) next_in_use [OF pre(1,3) Some] by simp
  qed
qed

lemma pbuf_cat_ok:
  assumes "pbufs_ok {} us R L out s" "0 < R h" "0 < R t" "pbuf_cat (Some h) (Some t) s = Some s'"
  shows "pbufs_ok {} us (R(t := R t - 1)) L out s'"
  using cat_loop_ok [of t h s s' us R L out] assms in_use [OF assms(1,2)] by (simp add: pbuf_cat_def)

lemma cat_loop_ref:
  assumes "cat_loop t p s = Some s'"
  shows "\<forall>x. pb_ref (pb_hdr s' x) = pb_ref (pb_hdr s x)"
  using assms
proof (rule cat_loop.raw_induct [where P = "\<lambda>t p s s'. \<forall>x. pb_ref (pb_hdr s' x) = pb_ref (pb_hdr s x)", rotated])
  fix f t p s s'
  let ?s = "upd_pbuf p (\<lambda>h. h\<lparr>pb_tot_len := pb_tot_len h + pb_tot_len (pb_hdr s t)\<rparr>) s"
  assume IH: "\<And>t p s s'. f t p s = Some s' \<Longrightarrow> \<forall>x. pb_ref (pb_hdr s' x) = pb_ref (pb_hdr s x)"
    and b: "(case pb_next (pb_hdr s p) of
        None \<Rightarrow>
          if pb_tot_len (pb_hdr s p) \<noteq> pb_len (pb_hdr s p) then None
          else let s = ?s in Some (upd_pbuf p (\<lambda>h. h\<lparr>pb_next := Some t\<rparr>) s)
      | Some n \<Rightarrow> f t n ?s) = Some s'"
  show "\<forall>x. pb_ref (pb_hdr s' x) = pb_ref (pb_hdr s x)"
    using b IH [of t _ ?s s'] by (auto simp: Let_def split: option.splits if_splits)
qed

lemma pbuf_chain_ok:
  assumes "pbufs_ok {} us R L out s" "0 < R h" "0 < R t" "pb_ref (pb_hdr s t) \<noteq> 65535" "pbuf_chain (Some h) (Some t) s = Some s'"
  shows "pbufs_ok {} us R L out s'"
proof -
  from assms(5) obtain s1 where s1: "cat_loop t h s = Some s1" "s' = pbuf_ref (Some t) s1"
    by (auto simp: pbuf_chain_def pbuf_cat_def bind_eq_Some_conv)
  have "pbufs_ok {} us (R(t := R t - 1)) L out s1" using cat_loop_ok [OF s1(1)] assms(1,3) in_use [OF assms(1,2)] by simp
  from pbuf_ref_ok [OF this in_use [OF assms(1,3)]] show ?thesis using cat_loop_ref [OF s1(1)] assms(3,4) s1(2) by simp
qed

lemma pbuf_dechain_ok:
  assumes "pbufs_ok {} us R L out s" "0 < R p" "pbuf_dechain p s = Some (q, s')"
  shows "\<exists>us' L' out'. pbufs_ok {} us' R L' out' s' \<and> us' \<subseteq> us \<and> shorter us' s s'"
proof (cases "pb_next (pb_hdr s p)")
  case None
  with assms show ?thesis by (auto simp: pbuf_dechain_def shorter_def split: if_splits)
next
  case (Some n)
  let ?s1 = "upd_pbuf n (\<lambda>h. h\<lparr>pb_tot_len := pb_tot_len (pb_hdr s p) - pb_len (pb_hdr s p)\<rparr>) s"
  let ?s2 = "upd_pbuf p (\<lambda>h. h\<lparr>pb_next := None, pb_tot_len := pb_len h\<rparr>) ?s1"
  have "pbufs_ok {} us R L out ?s1" by (rule pbufs_tot_len [OF assms(1)])
  moreover have "pb_next (pb_hdr ?s1 p) = Some n" using Some by auto
  ultimately have ok: "pbufs_ok {} us (R(n := R n + 1)) L out ?s2" by (intro pbufs_cut [OF _ in_use [OF assms(1,2)]])
  from pbuf_free_ok [OF ok, of n] obtain k s3 us' L' out' where
    f: "pbuf_free (Some n) ?s2 = Some (k, s3)" "pbufs_ok {} us' R L' out' s3" "us' \<subseteq> us" "left_same us' L L' ?s2 s3" by auto
  have "s' = s3" using assms(3) Some f(1) by (auto simp: pbuf_dechain_def Let_def bind_eq_Some_conv split: if_splits)
  moreover have "shorter us' s s3" using left_same_fields(1) [OF f(4)] by (auto simp: shorter_def)
  ultimately show ?thesis using f(2,3) by blast
qed

subsection \<open>Shrinking\<close>

definition links :: "pbufst \<Rightarrow> (pb_ptr \<times> pb_ptr) set" where
  "links s = {(a, b). pb_next (pb_hdr s a) = Some b}"

lemma links_next: "links t = links s \<Longrightarrow> pb_next (pb_hdr t x) = pb_next (pb_hdr s x)"
  by (cases "pb_next (pb_hdr t x)"; cases "pb_next (pb_hdr s x)") (auto simp: links_def set_eq_iff, metis option.distinct(1))

lemma links_avoid: "(p, q) \<in> (links s)\<^sup>* \<Longrightarrow> (p, q) \<in> (links s \<inter> (- {q}) \<times> UNIV)\<^sup>*"
proof (induction rule: converse_rtrancl_induct)
  case (step y z)
  then show ?case by (cases "y = q") (auto intro: converse_rtrancl_into_rtrancl)
qed simp

text \<open>The buffers between the head, which the users refer to, and \<open>q\<close> are kept when the rest is freed.\<close>

lemma path_kept:
  assumes "pbufs_ok {} us R L out s" "0 < R p" "(p, q) \<in> (links s)\<^sup>*"
  shows "\<exists>K. kept {q} us R s K \<and> q \<in> K"
proof -
  let ?K = "{x. (p, x) \<in> (links s \<inter> (- {q}) \<times> UNIV)\<^sup>*}"
  have "x \<in> us \<and> (0 < R x \<or> (\<exists>y \<in> ?K - {q}. pb_next (pb_hdr s y) = Some x))" if "(p, x) \<in> (links s \<inter> (- {q}) \<times> UNIV)\<^sup>*" for x
    using that
  proof (induction rule: rtrancl_induct)
    case base
    then show ?case using in_use [OF assms(1,2)] assms(2) by simp
  next
    case (step y z)
    then show ?case using next_in_use [OF assms(1), of y z] by (auto simp: links_def)
  qed
  then have "kept {q} us R s ?K" by (auto simp: kept_def)
  then show ?thesis using links_avoid [OF assms(3)] by blast
qed

lemma realloc_loop_ok:
  assumes "realloc_loop grow p len s = Some (q, rem, s')"
  shows "pbufs_ok {} us R L out s \<longrightarrow> p \<in> us \<longrightarrow>
    pbufs_ok {} us R L out s' \<and> q \<in> us \<and> (p, q) \<in> (links s)\<^sup>* \<and> links s' = links s \<and> rem \<le> pb_len (pb_hdr s' q)"
proof -
  let ?P = "\<lambda>p s r. \<forall>q rem s'. r = (q, rem, s') \<longrightarrow> pbufs_ok {} us R L out s \<longrightarrow> p \<in> us \<longrightarrow>
    pbufs_ok {} us R L out s' \<and> q \<in> us \<and> (p, q) \<in> (links s)\<^sup>* \<and> links s' = links s \<and> rem \<le> pb_len (pb_hdr s' q)"
  have "?P p s (q, rem, s')" using assms
  proof (rule realloc_loop.raw_induct [where P = "\<lambda>grow p len s r. ?P p s r", rotated], intro allI impI)
    fix f grow p len s r q rem s'
    let ?s = "upd_pbuf p (\<lambda>h. h\<lparr>pb_tot_len := pb_tot_len h + grow\<rparr>) s"
    assume IH: "\<And>grow p len s r. f grow p len s = Some r \<Longrightarrow> ?P p s r"
      and b: "(if len > pb_len (pb_hdr s p) then
          do { let len = len - pb_len (pb_hdr s p); let s = ?s;
               case pb_next (pb_hdr s p) of None \<Rightarrow> None | Some q \<Rightarrow> f grow q len s }
        else Some (p, len, s)) = Some r"
      and r: "r = (q, rem, s')" and pre: "pbufs_ok {} us R L out s" "p \<in> us"
    have l: "links ?s = links s" by (auto simp: links_def split: if_splits)
    show "pbufs_ok {} us R L out s' \<and> q \<in> us \<and> (p, q) \<in> (links s)\<^sup>* \<and> links s' = links s \<and> rem \<le> pb_len (pb_hdr s' q)"
    proof (cases "len > pb_len (pb_hdr s p)")
      case True
      with b obtain n where n: "pb_next (pb_hdr s p) = Some n" "f grow n (len - pb_len (pb_hdr s p)) ?s = Some r"
        by (auto simp: Let_def split: option.splits)
      have "pbufs_ok {} us R L out ?s" by (rule pbufs_tot_len [OF pre(1)])
      moreover have "(p, n) \<in> links s" using n(1) by (simp add: links_def)
      ultimately show ?thesis using IH [OF n(2)] r next_in_use [OF pre n(1)] l by (auto intro: converse_rtrancl_into_rtrancl)
    next
      case False
      then show ?thesis using b r pre by auto
    qed
  qed
  then show ?thesis by blast
qed

lemma owned_length: "heap_owned bs h L \<Longrightarrow> L a = Some c \<Longrightarrow> length c \<le> 32396"
  using owned_block [of bs h L a c] by (metis of_nat_le_iff of_nat_numeral order_trans)

text \<open>The last buffer cut to its new length, its memory trimmed first when it is in the heap.\<close>

lemma trim_ok:
  assumes "pbufs_ok {} us R L out s" "q \<in> us" "rem \<le> pb_len (pb_hdr s q)" "pb_type (pb_hdr s q) = PBUF_RAM"
    and "trim_ram q rem s = Some s'"
  shows "\<exists>L'. pbufs_ok {} us R L' out (upd_pbuf q (\<lambda>h. h\<lparr>pb_len := rem, pb_tot_len := rem\<rparr>) s') \<and> pb_hdr s' = pb_hdr s"
proof -
  have b: "buffer_ok L out q (pb_hdr s q)" using assms(1,2) by (simp add: pbufs_ok_def)
  with assms(4) obtain a c off where q: "q = Ram a" "L a = Some c" "pb_payload (pb_hdr s q) = Data q off" "16 \<le> off"
    "off + uint (pb_len (pb_hdr s q)) \<le> int (length c)" by (auto simp: buffer_ok_def split: pb_ptr.splits)
  from assms(1) obtain bs where bs: "heap_owned bs (pb_heap s) L" by (auto simp: pbufs_ok_def memory_ok_def)
  have le: "uint rem \<le> uint (pb_len (pb_hdr s q))" using assms(3) by (simp add: word_le_def)
  then have sum: "off + uint rem \<le> int (length c)" "off + uint rem \<le> 32396" "0 \<le> off + uint rem"
    using q(4,5) owned_length [OF bs q(2)] uint_ge_0 [of rem] by linarith+
  have "word_of_int off + rem = word_of_int (off + uint rem)" by simp
  moreover have "uint (word_of_int (off + uint rem) :: u16) = off + uint rem" by (rule uint_of_int16) (use sum(2,3) in linarith)+
  ultimately have "uint (word_of_int off + rem) = off + uint rem" by simp
  then have sz: "unat (word_of_int off + rem) = nat (off + uint rem)" by (metis unat_eq_nat_uint)
  with sum have "unat (word_of_int off + rem) \<le> length c" by simp
  from trim_owned [OF bs q(2) this] obtain h' bs' where
    t: "mem_trim a (word_of_int off + rem) (pb_heap s) = Some (Some a, h')" "heap_owned bs' h' (L(a \<mapsto> take (nat (off + uint rem)) c))"
    unfolding sz by blast
  let ?L = "L(a \<mapsto> take (nat (off + uint rem)) c)"
  let ?s = "upd_pbuf q (\<lambda>h. h\<lparr>pb_len := rem, pb_tot_len := rem\<rparr>) s'"
  have s': "s' = s\<lparr>pb_heap := h'\<rparr>" using assms(5) q(1,3) t(1) by (simp add: trim_ram_def)
  have len: "length (take (nat (off + uint rem)) c) = nat (off + uint rem)" using sum(1) by simp
  have "memory_ok ?L out ?s" using t(2) s' assms(1) by (auto simp: memory_ok_def pbufs_ok_def)
  moreover have "buffer_ok ?L out x (pb_hdr ?s x)" if "x \<in> us" for x
  proof (cases "x = q")
    case True
    then show ?thesis using q len sum(3) assms(4) s' by (simp add: buffer_ok_def)
  next
    case False
    moreover have "buffer_ok L out x (pb_hdr s x)" using assms(1) that by (simp add: pbufs_ok_def)
    ultimately show ?thesis using q(1) s' by (cases x) (simp_all add: buffer_ok_def)
  qed
  moreover have "counts_ok {} us R ?s"
    by (rule counts_same [of "{}" us R s]) (use assms(1) s' in \<open>simp_all add: pbufs_ok_def\<close>)
  moreover have "none_lost us ?L out" using assms(1,2) q(1) by (auto simp: pbufs_ok_def none_lost_def)
  ultimately have "pbufs_ok {} us R ?L out ?s" by (simp only: pbufs_ok_def) blast
  moreover have "pb_hdr s' = pb_hdr s" using s' by simp
  ultimately show ?thesis by blast
qed

lemma cut_ok:
  assumes "pbufs_ok {} us R L out s" "q \<in> us" "rem \<le> pb_len (pb_hdr s q)"
  shows "pbufs_ok {} us R L out (upd_pbuf q (\<lambda>h. h\<lparr>pb_len := rem, pb_tot_len := rem\<rparr>) s)"
proof (rule pbufs_upd [OF assms(1)])
  have le: "uint rem \<le> uint (pb_len (pb_hdr s q))" using assms(3) by (simp add: word_le_def)
  have "buffer_ok L out q (pb_hdr s q)" using assms(1,2) by (simp add: pbufs_ok_def)
  with le show "buffer_ok L out q ((pb_hdr s q)\<lparr>pb_len := rem, pb_tot_len := rem\<rparr>)"
    by (fastforce simp: buffer_ok_def split: pb_ptr.splits)
qed simp_all

text \<open>The buffers behind \<open>q\<close> freed and the pointer to them cleared.\<close>

lemma drop_rest_ok:
  assumes "pbufs_ok {} us R L out s" "0 < R p" "(p, q) \<in> (links s)\<^sup>*" "q \<in> us"
    and "pb_next (pb_hdr s q) = Some n"
  shows "\<exists>k s' us' L' out'. pbuf_free (Some n) s = Some (k, s') \<and>
    pbufs_ok {} us' R L' out' (upd_pbuf q (\<lambda>h. h\<lparr>pb_next := None\<rparr>) s') \<and> us' \<subseteq> us \<and> shorter us' s s'"
proof -
  from path_kept [OF assms(1-3)] obtain K where K: "kept {q} us R s K" "q \<in> K" by blast
  have "counts_ok {q} us (R(n := R n + 1)) s" using counts_hide(1) [of us R s q n] assms by (simp add: pbufs_ok_def)
  then have "pbufs_ok {q} us (R(n := R n + 1)) L out s" using assms(1) by (simp add: pbufs_ok_def)
  from free_loop_ok [OF this K(1), of 0] K(2) obtain k s' us' L' out' where
    f: "free_loop (Some n) 0 s = Some (k, s')" "pbufs_ok {q} us' R L' out' s'" "us' \<subseteq> us" "left_same us' L L' s s'" by auto
  let ?s = "upd_pbuf q (\<lambda>h. h\<lparr>pb_next := None\<rparr>) s'"
  have "counts_ok {} us' R ?s"
    by (rule counts_clear [of q us' R s' ?s "pb_hdr ?s q"]) (use f(2) in \<open>simp_all add: pbufs_ok_def\<close>)
  moreover have "\<forall>x \<in> us'. buffer_ok L' out' x (pb_hdr ?s x)"
    using f(2) buffer_ok_fields [of "pb_hdr ?s q" "pb_hdr s' q"] by (auto simp: pbufs_ok_def)
  ultimately have "pbufs_ok {} us' R L' out' ?s" using f(2) by (simp add: pbufs_ok_def memory_ok_def)
  with f(1,3) left_same_shorter [OF f(4)] show ?thesis by (auto simp: pbuf_free_def)
qed

lemma clear_null: "pb_next (pb_hdr s q) = None \<Longrightarrow> upd_pbuf q (\<lambda>h. h\<lparr>pb_next := None\<rparr>) s = s"
  by (cases "pb_hdr s q") (simp add: upd_pbuf_def fun_upd_idem)

lemma pbuf_realloc_ok:
  assumes "pbufs_ok {} us R L out s" "0 < R p" "pbuf_realloc (Some p) len s = Some s'"
  shows "\<exists>us' L' out'. pbufs_ok {} us' R L' out' s' \<and> us' \<subseteq> us \<and> shorter us' s s'"
proof (cases "len \<ge> pb_tot_len (pb_hdr s p)")
  case True
  with assms show ?thesis by (auto simp: pbuf_realloc_def shorter_def)
next
  case False
  let ?cut = "\<lambda>q rem. upd_pbuf q (\<lambda>h. h\<lparr>pb_len := rem, pb_tot_len := rem\<rparr>)"
  from False assms(3) obtain q rem s1 where
    s1: "realloc_loop (len - pb_tot_len (pb_hdr s p)) p len s = Some (q, rem, s1)"
    by (cases "realloc_loop (len - pb_tot_len (pb_hdr s p)) p len s") (auto simp: pbuf_realloc_def)
  have "(do { s2 \<leftarrow> (if pb_type (pb_hdr s1 q) = PBUF_RAM \<and> rem \<noteq> pb_len (pb_hdr s1 q) then trim_ram q rem s1 else Some s1);
      s4 \<leftarrow> (if pb_next (pb_hdr (?cut q rem s2) q) \<noteq> None
          then do { (_, s) \<leftarrow> pbuf_free (pb_next (pb_hdr (?cut q rem s2) q)) (?cut q rem s2); Some s }
          else Some (?cut q rem s2));
      Some (upd_pbuf q (\<lambda>h. h\<lparr>pb_next := None\<rparr>) s4) }) = Some s'"
    using False assms(3) s1 unfolding pbuf_realloc_def by (simp only: option.case if_False Let_def bind.bind_lunit prod.case)
  then obtain s2 s4 where
    s2: "(if pb_type (pb_hdr s1 q) = PBUF_RAM \<and> rem \<noteq> pb_len (pb_hdr s1 q) then trim_ram q rem s1 else Some s1) = Some s2" and
    s4: "(if pb_next (pb_hdr (?cut q rem s2) q) \<noteq> None
          then do { (_, s) \<leftarrow> pbuf_free (pb_next (pb_hdr (?cut q rem s2) q)) (?cut q rem s2); Some s }
          else Some (?cut q rem s2)) = Some s4" and
    s': "s' = upd_pbuf q (\<lambda>h. h\<lparr>pb_next := None\<rparr>) s4"
    unfolding bind_eq_Some_conv by (metis option.inject)
  from realloc_loop_ok [OF s1] assms(1) in_use [OF assms(1,2)] have
    ok: "pbufs_ok {} us R L out s1" "q \<in> us" "(p, q) \<in> (links s1)\<^sup>*" "rem \<le> pb_len (pb_hdr s1 q)" "links s1 = links s" by auto
  have "\<exists>L2. pbufs_ok {} us R L2 out (?cut q rem s2) \<and> pb_hdr s2 = pb_hdr s1"
  proof (cases "pb_type (pb_hdr s1 q) = PBUF_RAM \<and> rem \<noteq> pb_len (pb_hdr s1 q)")
    case True
    then show ?thesis using trim_ok [OF ok(1,2,4)] s2 by presburger
  next
    case False
    then have "s2 = s1" using s2 by (simp only: if_False option.inject)
    then show ?thesis using cut_ok [OF ok(1,2,4)] by blast
  qed
  then obtain L2 where L2: "pbufs_ok {} us R L2 out (?cut q rem s2)" "pb_hdr s2 = pb_hdr s1" by blast
  have lk: "links (?cut q rem s2) = links s1" using L2(2) by (auto simp: links_def split: if_splits)
  have nx: "pb_next (pb_hdr (?cut q rem s2) x) = pb_next (pb_hdr s x)" for x using links_next [of "?cut q rem s2" s x] lk ok(5) by blast
  show ?thesis
  proof (cases "pb_next (pb_hdr (?cut q rem s2) q)")
    case None
    then have "s' = upd_pbuf q (\<lambda>h. h\<lparr>pb_next := None\<rparr>) (?cut q rem s2)" using s4 s' by simp
    also have "\<dots> = ?cut q rem s2" by (rule clear_null [OF None])
    finally show ?thesis using L2(1) nx by (auto simp: shorter_def)
  next
    case (Some n)
    from drop_rest_ok [OF L2(1) assms(2) _ ok(2) Some] ok(3) lk obtain k s5 us' L' out' where
      "pbuf_free (Some n) (?cut q rem s2) = Some (k, s5)" "pbufs_ok {} us' R L' out' (upd_pbuf q (\<lambda>h. h\<lparr>pb_next := None\<rparr>) s5)" "us' \<subseteq> us"
      and sh: "shorter us' (?cut q rem s2) s5" by metis
    moreover have "s' = upd_pbuf q (\<lambda>h. h\<lparr>pb_next := None\<rparr>) s5" using s4 s' Some calculation(1) by simp
    moreover have "shorter us' s (upd_pbuf q (\<lambda>h. h\<lparr>pb_next := None\<rparr>) s5)" using sh nx by (simp add: shorter_def)
    ultimately show ?thesis by blast
  qed
qed

end
