(* ===== verification/Lwip_Pbuf_Use.thy ===== *)
theory Lwip_Pbuf_Use
  imports Lwip_Pbuf_Refs
begin

unbundle bit_operations_syntax

text \<open>
  Packet buffers as the stack uses them: allocation, references, chains, headers and data, in any
  order. A reference held is never lost, no two buffers share memory, freeing fails no assertion, and
  with all references given up every pool element and the whole heap are free again.
\<close>

section \<open>Chains\<close>

text \<open>No chain of buffers in use is a cycle.\<close>

definition chains_end :: "pb_ptr set \<Rightarrow> pbufst \<Rightarrow> bool" where
  "chains_end us s \<longleftrightarrow> acyclic (links s \<inter> us \<times> UNIV)"

lemma chains_shorter:
  assumes "chains_end us s" "us' \<subseteq> us" "shorter us' s s'"
  shows "chains_end us' s'"
proof -
  have "links s' \<inter> us' \<times> UNIV \<subseteq> links s \<inter> us \<times> UNIV" using assms(2,3) by (auto simp: links_def shorter_def)
  then show ?thesis using assms(1) acyclic_subset by (auto simp: chains_end_def)
qed

lemma chains_new:
  assumes "chains_end us s" "\<And>x. x \<in> us \<Longrightarrow> pb_next (pb_hdr s' x) = pb_next (pb_hdr s x)" "pb_next (pb_hdr s' p) = None"
  shows "chains_end (insert p us) s'"
proof -
  have "links s' \<inter> insert p us \<times> UNIV \<subseteq> links s \<inter> us \<times> UNIV" using assms(2,3) by (auto simp: links_def)
  then show ?thesis using assms(1) acyclic_subset by (auto simp: chains_end_def)
qed

lemma chains_link:
  assumes "chains_end us s" "(t, r) \<notin> (links s)\<^sup>*" "\<And>x. x \<noteq> r \<Longrightarrow> pb_next (pb_hdr s' x) = pb_next (pb_hdr s x)" "pb_next (pb_hdr s' r) = Some t"
  shows "chains_end us s'"
proof -
  have "links s' \<inter> us \<times> UNIV \<subseteq> insert (r, t) (links s \<inter> us \<times> UNIV)"
    using assms(3,4) by (auto simp: links_def) (metis option.inject)+
  moreover have "(t, r) \<notin> (links s \<inter> us \<times> UNIV)\<^sup>*" using assms(2) rtrancl_mono [of "links s \<inter> us \<times> UNIV" "links s"] by blast
  then have "acyclic (insert (r, t) (links s \<inter> us \<times> UNIV))" using assms(1) by (simp add: chains_end_def acyclic_insert)
  ultimately show ?thesis using acyclic_subset by (auto simp: chains_end_def)
qed

lemma links_last: "pb_next (pb_hdr s q) = None \<Longrightarrow> (q, r) \<in> (links s)\<^sup>* \<Longrightarrow> r = q"
  by (erule converse_rtranclE) (auto simp: links_def)

section \<open>Allocation\<close>

lemma pbufs_new:
  assumes "memory_ok L' out' s" "\<And>x h. buffer_ok L out x h \<Longrightarrow> buffer_ok L' out' x h"
    and "pbufs_ok {} us R L out t" "pb_hdr s = pb_hdr t" "p \<notin> us"
    and "pb_next h = None" "pb_ref h = 1" "buffer_ok L' out' p h" "none_lost (insert p us) L' out'"
  shows "pbufs_ok {} (insert p us) (R(p := R p + 1)) L' out' (upd_pbuf p (\<lambda>_. h) s)"
proof -
  have "counts_ok {} (insert p us) (R(p := R p + 1)) (upd_pbuf p (\<lambda>_. h) s)"
    by (rule counts_new [of us R t p _ h]) (use assms in \<open>simp_all add: pbufs_ok_def\<close>)
  moreover have "\<forall>x \<in> insert p us. buffer_ok L' out' x (pb_hdr (upd_pbuf p (\<lambda>_. h) s) x)"
    using assms by (auto simp: pbufs_ok_def)
  moreover have "memory_ok L' out' (upd_pbuf p (\<lambda>_. h) s)" using assms(1) by (simp add: memory_ok_def)
  ultimately show ?thesis using assms(9) by (simp only: pbufs_ok_def)
qed

lemma lost_new:
  "pbufs_ok D us R L out s \<Longrightarrow> none_lost (insert (Pool e) us) L (out(MEMP_PBUF_POOL := insert e (out MEMP_PBUF_POOL)))"
  "pbufs_ok D us R L out s \<Longrightarrow> none_lost (insert (Ref e) us) L (out(MEMP_PBUF := insert e (out MEMP_PBUF)))"
  "pbufs_ok D us R L out s \<Longrightarrow> none_lost (insert (Ram a) us) (L(a \<mapsto> c)) out"
  by (auto simp: pbufs_ok_def none_lost_def)

text \<open>An element taken from a pool, as the memory of a new buffer.\<close>

lemma pool_taken:
  assumes "memory_ok L out s" "memp_malloc i (pb_pools s) = (Some e, m)"
  shows "memory_ok L (out(i := insert e (out i))) (s\<lparr>pb_pools := m\<rparr>)" "e \<notin> out i"
proof -
  have ok: "pool_ok j (out j) (pb_pools s)" for j using assms(1) by (simp add: memory_ok_def)
  show "e \<notin> out i" by (rule memp_malloc_ok(2) [OF ok assms(2)])
  have "pool_ok j ((out(i := insert e (out i))) j) m" for j
    using memp_malloc_ok(1) [OF ok assms(2)] memp_malloc_ok(4) [OF ok assms(2), of j "out j"] ok [of j] by (cases "j = i") auto
  then show "memory_ok L (out(i := insert e (out i))) (s\<lparr>pb_pools := m\<rparr>)" using assms(1) by (simp add: memory_ok_def)
qed

lemma pool_refused:
  assumes "pbufs_ok D us R L out s" "memp_malloc i (pb_pools s) = (None, m)"
  shows "pbufs_ok D us R L out (s\<lparr>pb_pools := m\<rparr>)"
proof -
  have "pool_ok j (out j) (pb_pools s)" for j using assms(1) by (simp add: pbufs_ok_def memory_ok_def)
  then have "\<forall>j. pool_ok j (out j) m" using memp_malloc_none(2) assms(2) by metis
  moreover have "counts_ok D us R (s\<lparr>pb_pools := m\<rparr>)" by (rule counts_same [of D us R s]) (use assms(1) in \<open>simp_all add: pbufs_ok_def\<close>)
  ultimately show ?thesis using assms(1) by (auto simp: pbufs_ok_def memory_ok_def)
qed

lemma buffer_ok_grow: "buffer_ok L out x h \<Longrightarrow> buffer_ok L (out(i := insert e (out i))) x h"
  by (cases x) (auto simp: buffer_ok_def)

lemma room_bounds:
  "uint (LWIP_MEM_ALIGN_SIZE (header_room layer)) \<le> 56"
  "uint (LWIP_MEM_ALIGN_SIZE (SIZEOF_STRUCT_PBUF + header_room layer)) = 16 + uint (LWIP_MEM_ALIGN_SIZE (header_room layer))"
  by (cases layer; simp add: header_room_def LWIP_MEM_ALIGN_SIZE_def)+

lemma tail_step:
  assumes "pbufs_ok {} us R L out s" "r \<in> us" "pb_next (pb_hdr s r) = None" "memp_malloc MEMP_PBUF_POOL (pb_pools s) = (Some e, m)"
    and "h = (pb_hdr s (Pool e))\<lparr>pb_type := PBUF_POOL, pb_flags := 0, pb_next := None, pb_tot_len := n, pb_len := len,
      pb_payload := Data (Pool e) 16, pb_ref := 1\<rparr>" "uint len \<le> 1516"
  shows "pbufs_ok {} (insert (Pool e) us) R L (out(MEMP_PBUF_POOL := insert e (out MEMP_PBUF_POOL)))
    (upd_pbuf r (\<lambda>h. h\<lparr>pb_next := Some (Pool e)\<rparr>) (upd_pbuf (Pool e) (\<lambda>_. h) (s\<lparr>pb_pools := m\<rparr>)))" "Pool e \<notin> us"
proof -
  let ?out = "out(MEMP_PBUF_POOL := insert e (out MEMP_PBUF_POOL))"
  let ?s = "upd_pbuf (Pool e) (\<lambda>_. h) (s\<lparr>pb_pools := m\<rparr>)"
  have mem: "memory_ok L ?out (s\<lparr>pb_pools := m\<rparr>)" "e \<notin> out MEMP_PBUF_POOL"
    using pool_taken [OF _ assms(4)] assms(1) by (auto simp: pbufs_ok_def)
  then show e: "Pool e \<notin> us" using assms(1) by (auto simp: pbufs_ok_def buffer_ok_def)
  have ok: "pbufs_ok {} (insert (Pool e) us) (R(Pool e := R (Pool e) + 1)) L ?out ?s"
    by (rule pbufs_new [OF mem(1) buffer_ok_grow assms(1) _ e _ _ _ lost_new(1) [OF assms(1)]]) (use assms(5,6) in \<open>simp_all add: buffer_ok_def\<close>)
  have "r \<noteq> Pool e" using assms(2) e by auto
  then show "pbufs_ok {} (insert (Pool e) us) R L ?out (upd_pbuf r (\<lambda>h. h\<lparr>pb_next := Some (Pool e)\<rparr>) ?s)"
    using pbufs_join [OF ok, of "Pool e" r] assms(2,3) by (simp add: fun_upd_idem)
qed

lemma alloc_tail_ok:
  assumes "pbufs_ok {} us R L out s" "chains_end us s" "0 < R p" "r \<in> us" "pb_next (pb_hdr s r) = None" "n < 65535"
  shows "\<exists>ok s' us' L' out'. alloc_tail p r n s = Some (ok, s') \<and> chains_end us' s' \<and>
    pbufs_ok {} us' (if ok then R else R(p := R p - 1)) L' out' s' \<and> (ok \<longrightarrow> (\<forall>x \<in> us. pb_ref (pb_hdr s' x) = pb_ref (pb_hdr s x)))"
  using assms
proof (induction "nat n" arbitrary: us out s r n rule: less_induct)
  case less
  show ?case
  proof (cases "n > 0")
    case False
    then have "alloc_tail p r n s = Some (True, s)" by (simp add: alloc_tail.simps)
    then show ?thesis using less.prems(1,2) by auto
  next
    case True
    obtain e m where mm: "memp_malloc MEMP_PBUF_POOL (pb_pools s) = (e, m)" by fastforce
    show ?thesis
    proof (cases e)
      case None
      from pool_refused [OF less.prems(1) mm [unfolded None]] have "pbufs_ok {} us R L out (s\<lparr>pb_pools := m\<rparr>)" .
      from pbuf_free_ok [OF this less.prems(3)] obtain k s' us' L' out' where
        f: "pbuf_free (Some p) (s\<lparr>pb_pools := m\<rparr>) = Some (k, s')" "pbufs_ok {} us' (R(p := R p - 1)) L' out' s'" "us' \<subseteq> us"
          "left_same us' L L' (s\<lparr>pb_pools := m\<rparr>) s'" by blast
      have "chains_end us' s'" using chains_shorter [OF less.prems(2) f(3), of s'] left_same_shorter [OF f(4)] by (simp add: shorter_def)
      moreover have "alloc_tail p r n s = Some (False, s')" using True mm None f(1) by (subst alloc_tail.simps) simp
      ultimately show ?thesis using f(2) by auto
    next
      case (Some e)
      let ?len = "min (word_of_int n) PBUF_POOL_BUFSIZE_ALIGNED"
      let ?h = "(pb_hdr s (Pool e))\<lparr>pb_type := PBUF_POOL, pb_flags := 0, pb_next := None, pb_tot_len := word_of_int n, pb_len := ?len,
        pb_payload := Data (Pool e) 16, pb_ref := 1\<rparr>"
      let ?s = "upd_pbuf r (\<lambda>h. h\<lparr>pb_next := Some (Pool e)\<rparr>) (upd_pbuf (Pool e) (\<lambda>_. ?h) (s\<lparr>pb_pools := m\<rparr>))"
      have un: "uint (word_of_int n :: u16) = n" using True less.prems(6) by (intro uint_of_int16) auto
      then have ul: "uint ?len = min n 1516" by (simp add: min_def word_le_def)
      note st = tail_step [OF less.prems(1,4,5) mm [unfolded Some] refl, of ?len]
      have ok: "pbufs_ok {} (insert (Pool e) us) R L (out(MEMP_PBUF_POOL := insert e (out MEMP_PBUF_POOL))) ?s" and e: "Pool e \<notin> us"
        using st ul by auto
      have re: "r \<noteq> Pool e" using e less.prems(4) by auto
      have "chains_end (insert (Pool e) us) (upd_pbuf (Pool e) (\<lambda>_. ?h) (s\<lparr>pb_pools := m\<rparr>))"
        by (rule chains_new [OF less.prems(2)]) (use e in auto)
      moreover have no: "(Pool e, r) \<notin> (links (upd_pbuf (Pool e) (\<lambda>_. ?h) (s\<lparr>pb_pools := m\<rparr>)))\<^sup>*"
        using links_last [of "upd_pbuf (Pool e) (\<lambda>_. ?h) (s\<lparr>pb_pools := m\<rparr>)" "Pool e" r] re by auto
      ultimately have ce: "chains_end (insert (Pool e) us) ?s"
        by (rule chains_link [of _ _ "Pool e" r]) (use re in simp_all)
      have step: "alloc_tail p r n s = alloc_tail p (Pool e) (n - uint ?len) ?s"
      proof -
        have "upd_pbuf (Pool e) (\<lambda>h. h\<lparr>pb_tot_len := word_of_int n, pb_len := ?len, pb_payload := Data (Pool e) (uint SIZEOF_STRUCT_PBUF), pb_ref := 1\<rparr>)
          (upd_pbuf r (\<lambda>h. h\<lparr>pb_next := Some (Pool e)\<rparr>) (upd_pbuf (Pool e) (\<lambda>h. h\<lparr>pb_type := PBUF_POOL, pb_flags := 0, pb_next := None\<rparr>) (s\<lparr>pb_pools := m\<rparr>))) = ?s"
          using re by (auto simp: upd_pbuf_def fun_eq_iff)
        then show ?thesis using True mm Some less.prems(6) by (subst alloc_tail.simps) (simp add: Let_def)
      qed
      have lt: "nat (n - uint ?len) < nat n" "n - uint ?len < 65535" using ul True less.prems(6) by auto
      have nx: "pb_next (pb_hdr ?s (Pool e)) = None" using re by simp
      from less.hyps [OF lt(1) ok ce less.prems(3) insertI1 nx lt(2)] obtain b s' us' L' out' where
        "alloc_tail p (Pool e) (n - uint ?len) ?s = Some (b, s')" "chains_end us' s'" "pbufs_ok {} us' (if b then R else R(p := R p - 1)) L' out' s'"
        "b \<longrightarrow> (\<forall>x \<in> insert (Pool e) us. pb_ref (pb_hdr s' x) = pb_ref (pb_hdr ?s x))" by blast
      moreover have "pb_ref (pb_hdr ?s x) = pb_ref (pb_hdr s x)" if "x \<in> us" for x using e re that by auto
      ultimately show ?thesis unfolding step by (metis insertI2)
    qed
  qed
qed

lemma alloc_pool_ok:
  assumes "pbufs_ok {} us R L out s" "chains_end us s"
  shows "\<exists>r s' us' L' out'. pbuf_alloc_pool (header_room layer) len s = Some (r, s') \<and> chains_end us' s' \<and>
    (case r of None \<Rightarrow> pbufs_ok {} us' R L' out' s' | Some p \<Rightarrow> R p = 0 \<and> pbufs_ok {} us' (R(p := R p + 1)) L' out' s')"
proof -
  obtain e m where mm: "memp_malloc MEMP_PBUF_POOL (pb_pools s) = (e, m)" by fastforce
  show ?thesis
  proof (cases e)
    case None
    then have "pbuf_alloc_pool (header_room layer) len s = Some (None, s\<lparr>pb_pools := m\<rparr>)" using mm by (simp add: pbuf_alloc_pool_def)
    moreover have "chains_end us (s\<lparr>pb_pools := m\<rparr>)" by (rule chains_shorter [OF assms(2) order_refl]) (simp add: shorter_def)
    ultimately show ?thesis using pool_refused [OF assms(1) mm [unfolded None]] by auto
  next
    case (Some e)
    let ?p = "Pool e" and ?off = "header_room layer" and ?out = "out(MEMP_PBUF_POOL := insert e (out MEMP_PBUF_POOL))"
    let ?first = "min len (PBUF_POOL_BUFSIZE_ALIGNED - LWIP_MEM_ALIGN_SIZE ?off)"
    let ?h = "(pb_hdr s ?p)\<lparr>pb_type := PBUF_POOL, pb_next := None, pb_payload := Data ?p (uint (LWIP_MEM_ALIGN_SIZE (SIZEOF_STRUCT_PBUF + ?off))),
      pb_tot_len := len, pb_len := ?first, pb_ref := 1\<rparr>"
    let ?s = "upd_pbuf ?p (\<lambda>_. ?h) (s\<lparr>pb_pools := m\<rparr>)"
    have mem: "memory_ok L ?out (s\<lparr>pb_pools := m\<rparr>)" "e \<notin> out MEMP_PBUF_POOL"
      using pool_taken [OF _ mm [unfolded Some]] assms(1) by (auto simp: pbufs_ok_def)
    then have e: "?p \<notin> us" using assms(1) by (auto simp: pbufs_ok_def buffer_ok_def)
    have ur: "uint (1516 - LWIP_MEM_ALIGN_SIZE ?off) = 1516 - uint (LWIP_MEM_ALIGN_SIZE ?off)"
      by (cases layer; simp add: header_room_def LWIP_MEM_ALIGN_SIZE_def)
    have uf: "uint ?first = min (uint len) (1516 - uint (LWIP_MEM_ALIGN_SIZE ?off))"
      using ur by (auto simp: min_def word_le_def)
    have ok: "pbufs_ok {} (insert ?p us) (R(?p := R ?p + 1)) L ?out ?s"
      by (rule pbufs_new [OF mem(1) buffer_ok_grow assms(1) _ e _ _ _ lost_new(1) [OF assms(1)]])
        (use uf room_bounds(2) [of layer] in \<open>simp_all add: buffer_ok_def min_def\<close>)
    have ce: "chains_end (insert ?p us) ?s" by (rule chains_new [OF assms(2)]) (use e in auto)
    have R: "R ?p = 0" using in_use [OF assms(1), of ?p] e by auto
    have lt: "uint len - uint ?first < 65535" using uf uint_lt2p [of len] room_bounds(1) [of layer] by (auto simp: min_def)
    have nx: "pb_next (pb_hdr ?s ?p) = None" by simp
    let ?R = "R(?p := R ?p + 1)"
    have pos: "0 < ?R ?p" by simp
    from alloc_tail_ok [OF ok ce pos insertI1 nx lt] obtain b s' us' L' out' where
      t: "alloc_tail ?p ?p (uint len - uint ?first) ?s = Some (b, s')" "chains_end us' s'" and
      t': "pbufs_ok {} us' (if b then ?R else ?R(?p := ?R ?p - 1)) L' out' s'"
        "b \<longrightarrow> (\<forall>x \<in> insert ?p us. pb_ref (pb_hdr s' x) = pb_ref (pb_hdr ?s x))" by blast
    have "?R(?p := ?R ?p - 1) = R" by simp
    then have t3: "pbufs_ok {} us' (if b then ?R else R) L' out' s'" using t'(1) by (simp only:)
    have t4: "b \<longrightarrow> pb_ref (pb_hdr s' ?p) = 1" using t'(2) by simp
    have eq: "upd_pbuf ?p (\<lambda>h. h\<lparr>pb_type := PBUF_POOL, pb_next := None,
        pb_payload := Data ?p (uint (LWIP_MEM_ALIGN_SIZE (SIZEOF_STRUCT_PBUF + ?off))), pb_tot_len := len, pb_len := ?first, pb_ref := 1\<rparr>)
        (s\<lparr>pb_pools := m\<rparr>) = ?s" by (simp add: upd_pbuf_def)
    have al: "pbuf_alloc_pool ?off len s =
        Some (if b then (Some ?p, upd_pbuf ?p (\<lambda>h. h\<lparr>pb_ref := 1, pb_flags := 0\<rparr>) s') else (None, s'))"
      unfolding pbuf_alloc_pool_def mm Some prod.case option.case Let_def eq using t(1) by simp
    show ?thesis
    proof (cases b)
      case False
      then show ?thesis using al t(2) t3 by auto
    next
      case True
      let ?s' = "upd_pbuf ?p (\<lambda>h. h\<lparr>pb_ref := 1, pb_flags := 0\<rparr>) s'"
      have "?s' = upd_pbuf ?p (\<lambda>h. h\<lparr>pb_flags := 0\<rparr>) s'" using True t4 by (cases "pb_hdr s' ?p") (simp add: upd_pbuf_def)
      moreover have "pbufs_ok {} us' (R(?p := R ?p + 1)) L' out' (upd_pbuf ?p (\<lambda>h. h\<lparr>pb_flags := 0\<rparr>) s')"
        by (rule pbufs_upd) (use t3 True buffer_ok_fields [of "(pb_hdr s' ?p)\<lparr>pb_flags := 0\<rparr>" "pb_hdr s' ?p"] in \<open>auto simp: pbufs_ok_def\<close>)
      moreover have "chains_end us' ?s'" by (rule chains_shorter [OF t(2) order_refl]) (simp add: shorter_def)
      ultimately show ?thesis using al True R by auto
    qed
  qed
qed

text \<open>
  A request for more than 65460 octets would wrap around in the 16 bits of the heap's sizes; below that, the
  block has room for the structure, the headers and the data.
\<close>

lemma ram_size:
  assumes "len \<le> 65460"
  shows "uint (LWIP_MEM_ALIGN_SIZE (SIZEOF_STRUCT_PBUF + header_room layer) + LWIP_MEM_ALIGN_SIZE len) \<le> 65532"
    "uint (LWIP_MEM_ALIGN_SIZE (SIZEOF_STRUCT_PBUF + header_room layer)) + uint len
      \<le> uint (LWIP_MEM_ALIGN_SIZE (SIZEOF_STRUCT_PBUF + header_room layer) + LWIP_MEM_ALIGN_SIZE len)"
proof -
  have l: "uint len \<le> 65460" using assms by (simp add: word_le_def)
  then have "(uint len + 3) mod 65536 = uint len + 3" by simp
  then have a: "uint len \<le> uint (LWIP_MEM_ALIGN_SIZE len)" "uint (LWIP_MEM_ALIGN_SIZE len) \<le> 65460"
    using l by (auto simp: align_value)
  have o: "uint (LWIP_MEM_ALIGN_SIZE (SIZEOF_STRUCT_PBUF + header_room layer)) \<le> 72" using room_bounds [of layer] by simp
  have "uint (LWIP_MEM_ALIGN_SIZE (SIZEOF_STRUCT_PBUF + header_room layer) + LWIP_MEM_ALIGN_SIZE len) =
      uint (LWIP_MEM_ALIGN_SIZE (SIZEOF_STRUCT_PBUF + header_room layer)) + uint (LWIP_MEM_ALIGN_SIZE len)"
    by (rule uint_plus16) (use a o in linarith)
  with a o show "uint (LWIP_MEM_ALIGN_SIZE (SIZEOF_STRUCT_PBUF + header_room layer) + LWIP_MEM_ALIGN_SIZE len) \<le> 65532"
    "uint (LWIP_MEM_ALIGN_SIZE (SIZEOF_STRUCT_PBUF + header_room layer)) + uint len
      \<le> uint (LWIP_MEM_ALIGN_SIZE (SIZEOF_STRUCT_PBUF + header_room layer) + LWIP_MEM_ALIGN_SIZE len)" by linarith+
qed

lemma mem_malloc_total:
  assumes "heap_owned bs h L"
  shows "\<exists>r h'. mem_malloc sz h = Some (r, h') \<and> (r = None \<longrightarrow> heap_owned bs h' L)"
proof (cases "sz = 0 \<or> 32404 < want sz")
  case True
  then show ?thesis using mem_malloc_refuses(1) [of sz h] assms by auto
next
  case False
  have ok: "heap_ok bs h" using assms by (simp add: heap_owned_def)
  show ?thesis
  proof (cases "fit (want sz) 0 bs")
    case None
    then show ?thesis using mem_malloc_refuses(2) [OF ok _ _ None] False assms by (auto simp: heap_owned_def heap_ok_def)
  next
    case (Some p)
    then show ?thesis using mem_malloc_takes [OF ok _ _ Some] False by auto
  qed
qed

lemma new_ram:
  "16 \<le> off \<Longrightarrow> off + uint len \<le> int (length c) \<Longrightarrow> buffer_ok (L(a \<mapsto> c)) out (Ram a)
     (h\<lparr>pb_payload := Data (Ram a) off, pb_tot_len := len, pb_len := len, pb_next := None, pb_type := PBUF_RAM, pb_ref := 1, pb_flags := 0\<rparr>)"
  by (simp add: buffer_ok_def)

lemma alloc_ram_ok:
  assumes "pbufs_ok {} us R L out s" "chains_end us s" "len \<le> 65460"
  shows "\<exists>r s' us' L' out'. pbuf_alloc_ram (header_room layer) len s = Some (r, s') \<and> chains_end us' s' \<and>
    (case r of None \<Rightarrow> pbufs_ok {} us' R L' out' s' | Some p \<Rightarrow> R p = 0 \<and> pbufs_ok {} us' (R(p := R p + 1)) L' out' s')"
proof -
  let ?off = "LWIP_MEM_ALIGN_SIZE (SIZEOF_STRUCT_PBUF + header_room layer)"
  let ?sz = "?off + LWIP_MEM_ALIGN_SIZE len"
  from assms(1) obtain bs where bs: "heap_owned bs (pb_heap s) L" by (auto simp: pbufs_ok_def memory_ok_def)
  from mem_malloc_total [OF bs] obtain a h' where m: "mem_malloc ?sz (pb_heap s) = Some (a, h')" "a = None \<longrightarrow> heap_owned bs h' L" by blast
  have ce: "chains_end us (s\<lparr>pb_heap := h'\<rparr>)" by (rule chains_shorter [OF assms(2) order_refl]) (simp add: shorter_def)
  show ?thesis
  proof (cases a)
    case None
    have "counts_ok {} us R (s\<lparr>pb_heap := h'\<rparr>)" by (rule counts_same [of "{}" us R s]) (use assms(1) in \<open>simp_all add: pbufs_ok_def\<close>)
    then have "pbufs_ok {} us R L out (s\<lparr>pb_heap := h'\<rparr>)" using assms(1) m(2) None by (auto simp: pbufs_ok_def memory_ok_def)
    moreover have "pbuf_alloc_ram (header_room layer) len s = Some (None, s\<lparr>pb_heap := h'\<rparr>)"
      unfolding pbuf_alloc_ram_def m(1) None by simp
    ultimately show ?thesis using ce by auto
  next
    case (Some a)
    let ?L = "L(a \<mapsto> octets_at (ram h') a (unat ?sz))"
    let ?h = "(pb_hdr s (Ram a))\<lparr>pb_payload := Data (Ram a) (uint ?off), pb_tot_len := len, pb_len := len, pb_next := None,
      pb_type := PBUF_RAM, pb_ref := 1, pb_flags := 0\<rparr>"
    have "?sz \<le> 65532" using ram_size(1) [OF assms(3)] by (simp add: word_le_def)
    from malloc_owned_fresh [OF bs this m(1) [unfolded Some]] obtain bs' where bs': "heap_owned bs' h' ?L" and fresh: "L a = None" by blast
    have p: "Ram a \<notin> us" using assms(1) fresh by (auto simp: pbufs_ok_def buffer_ok_def)
    have mem: "memory_ok ?L out (s\<lparr>pb_heap := h'\<rparr>)" using bs' assms(1) by (auto simp: pbufs_ok_def memory_ok_def)
    have grow: "buffer_ok ?L out x h" if "buffer_ok L out x h" for x h using that fresh by (cases x) (auto simp: buffer_ok_def)
    have "16 \<le> uint ?off" using room_bounds(2) [of layer] uint_ge_0 [of "LWIP_MEM_ALIGN_SIZE (header_room layer)"] by linarith
    moreover have "uint ?off + uint len \<le> int (length (octets_at (ram h') a (unat ?sz)))"
      using ram_size(2) [OF assms(3), of layer] unfolding octets_at_nth(1) uint_nat [of ?sz] .
    ultimately have "buffer_ok ?L out (Ram a) ?h" by (rule new_ram)
    then have ok: "pbufs_ok {} (insert (Ram a) us) (R(Ram a := R (Ram a) + 1)) ?L out (upd_pbuf (Ram a) (\<lambda>_. ?h) (s\<lparr>pb_heap := h'\<rparr>))"
      by (intro pbufs_new [OF mem grow assms(1) _ p _ _ _ lost_new(3) [OF assms(1)]]) simp_all
    have "chains_end (insert (Ram a) us) (upd_pbuf (Ram a) (\<lambda>_. ?h) (s\<lparr>pb_heap := h'\<rparr>))"
      by (rule chains_new [OF assms(2)]) (use p in auto)
    moreover have "pbuf_alloc_ram (header_room layer) len s = Some (Some (Ram a), upd_pbuf (Ram a) (\<lambda>_. ?h) (s\<lparr>pb_heap := h'\<rparr>))"
      unfolding pbuf_alloc_ram_def m(1) Some by (simp add: upd_pbuf_def)
    moreover have "R (Ram a) = 0" using in_use [OF assms(1), of "Ram a"] p by auto
    ultimately show ?thesis using ok by (intro exI conjI) (auto simp only: option.case)
  qed
qed

lemma alloc_ref_ok:
  assumes "pbufs_ok {} us R L out s" "chains_end us s" "type = PBUF_ROM \<or> type = PBUF_REF"
  shows "\<exists>r s' us' L' out'. pbuf_alloc_ref type len s = Some (r, s') \<and> chains_end us' s' \<and>
    (case r of None \<Rightarrow> pbufs_ok {} us' R L' out' s' | Some p \<Rightarrow> R p = 0 \<and> pbufs_ok {} us' (R(p := R p + 1)) L' out' s')"
proof -
  obtain e m where mm: "memp_malloc MEMP_PBUF (pb_pools s) = (e, m)" by fastforce
  show ?thesis
  proof (cases e)
    case None
    then have "pbuf_alloc_ref type len s = Some (None, s\<lparr>pb_pools := m\<rparr>)" using mm by (simp add: pbuf_alloc_ref_def)
    moreover have "chains_end us (s\<lparr>pb_pools := m\<rparr>)" by (rule chains_shorter [OF assms(2) order_refl]) (simp add: shorter_def)
    ultimately show ?thesis using pool_refused [OF assms(1) mm [unfolded None]] by auto
  next
    case (Some e)
    let ?p = "Ref e" and ?out = "out(MEMP_PBUF := insert e (out MEMP_PBUF))"
    let ?h = "(pb_hdr s ?p)\<lparr>pb_payload := Null, pb_tot_len := len, pb_len := len, pb_next := None, pb_type := type, pb_ref := 1, pb_flags := 0\<rparr>"
    let ?s = "upd_pbuf ?p (\<lambda>_. ?h) (s\<lparr>pb_pools := m\<rparr>)"
    have mem: "memory_ok L ?out (s\<lparr>pb_pools := m\<rparr>)" "e \<notin> out MEMP_PBUF"
      using pool_taken [OF _ mm [unfolded Some]] assms(1) by (auto simp: pbufs_ok_def)
    then have e: "?p \<notin> us" using assms(1) by (auto simp: pbufs_ok_def buffer_ok_def)
    have ok: "pbufs_ok {} (insert ?p us) (R(?p := R ?p + 1)) L ?out ?s"
      by (rule pbufs_new [OF mem(1) buffer_ok_grow assms(1) _ e _ _ _ lost_new(2) [OF assms(1)]]) (use assms(3) in \<open>simp_all add: buffer_ok_def\<close>)
    have "chains_end (insert ?p us) ?s" by (rule chains_new [OF assms(2)]) (use e in auto)
    moreover have "pbuf_alloc_ref type len s = Some (Some ?p, ?s)" unfolding pbuf_alloc_ref_def mm Some by (simp add: upd_pbuf_def)
    moreover have "R ?p = 0" using in_use [OF assms(1), of ?p] e by auto
    ultimately show ?thesis using ok by (intro exI conjI) (auto simp only: option.case)
  qed
qed

lemma pbuf_alloc_ok:
  assumes "pbufs_ok {} us R L out s" "chains_end us s" "len \<le> 65460"
  shows "\<exists>r s' us' L' out'. pbuf_alloc layer len type s = Some (r, s') \<and> chains_end us' s' \<and>
    (case r of None \<Rightarrow> pbufs_ok {} us' R L' out' s' | Some p \<Rightarrow> R p = 0 \<and> pbufs_ok {} us' (R(p := R p + 1)) L' out' s')"
  unfolding pbuf_alloc_def
  using alloc_pool_ok [OF assms(1,2)] alloc_ram_ok [OF assms] alloc_ref_ok [OF assms(1,2)] by (cases type) simp_all

section \<open>Headers, data and chains\<close>

lemma uint_plus_sint:
  fixes a inc :: u16
  assumes "sint inc < 0 \<Longrightarrow> - inc \<le> a" "uint a + sint inc < 65536"
  shows "uint (a + inc) = uint a + sint inc"
proof -
  have "0 \<le> uint a + sint inc"
  proof (cases "sint inc < 0")
    case True
    have "- 32768 \<le> sint inc" using sint_greater_eq [of inc] by simp
    then have "uint (word_of_int (- sint inc) :: u16) = - sint inc" using True by (intro uint_of_int16) auto
    moreover have "word_of_int (- sint inc) = - inc" by simp
    moreover have "uint (- inc) \<le> uint a" using assms(1) True by (simp add: word_le_def)
    ultimately show ?thesis by simp
  qed (use uint_ge_0 [of a] in linarith)
  then have "uint (word_of_int (uint a + sint inc) :: u16) = uint a + sint inc" using assms(2) by (rule uint_of_int16)
  moreover have "word_of_int (uint a + sint inc) = a + inc" by simp
  ultimately show ?thesis by simp
qed

lemma buffer_header:
  assumes "buffer_ok L out p h" "heap_owned bs hp L" "pb_payload h = Data p off" "16 \<le> off - sint inc"
    and "sint inc < 0 \<Longrightarrow> - inc \<le> pb_len h"
  shows "buffer_ok L out p (h\<lparr>pb_payload := Data p (off - sint inc), pb_len := pb_len h + inc, pb_tot_len := n\<rparr>)"
proof (cases p)
  case (Ref e)
  then show ?thesis using assms(1,3) by (simp add: buffer_ok_def)
next
  case (Ram a)
  with assms(1,3) obtain c where c: "L a = Some c" "off + uint (pb_len h) \<le> int (length c)" "pb_type h = PBUF_RAM" by (auto simp: buffer_ok_def)
  have "uint (pb_len h + inc) = uint (pb_len h) + sint inc"
    by (rule uint_plus_sint) (use assms(4,5) c(2) owned_length [OF assms(2) c(1)] in linarith)+
  then show ?thesis using Ram c assms(4) by (simp add: buffer_ok_def)
next
  case (Pool e)
  with assms(1,3) have c: "e \<in> out MEMP_PBUF_POOL" "off + uint (pb_len h) \<le> 1532" "pb_type h = PBUF_POOL" by (auto simp: buffer_ok_def)
  have "uint (pb_len h + inc) = uint (pb_len h) + sint inc"
    by (rule uint_plus_sint) (use assms(4,5) c(2) in linarith)+
  then show ?thesis using Pool c assms(4) by (simp add: buffer_ok_def)
qed

lemma pbuf_header_ok:
  assumes "pbufs_ok {} us R L out s" "0 < R p" "pbuf_header (Some p) inc s = Some (r, s')"
  shows "pbufs_ok {} us R L out s' \<and> links s' = links s"
proof -
  let ?h = "pb_hdr s p"
  have p: "p \<in> us" and b: "buffer_ok L out p ?h" using assms(1) in_use [OF assms(1,2)] by (auto simp: pbufs_ok_def)
  from assms(1) obtain bs where bs: "heap_owned bs (pb_heap s) L" by (auto simp: pbufs_ok_def memory_ok_def)
  have upd: "pbufs_ok {} us R L out (upd_pbuf p (\<lambda>h. h\<lparr>pb_payload := d, pb_len := pb_len h + inc, pb_tot_len := pb_tot_len h + inc\<rparr>) s)"
    if "buffer_ok L out p (?h\<lparr>pb_payload := d, pb_len := pb_len ?h + inc, pb_tot_len := pb_tot_len ?h + inc\<rparr>)" for d
    by (rule pbufs_upd [OF assms(1)]) (use that in simp_all)
  have lk: "links (upd_pbuf p (\<lambda>h. h\<lparr>pb_payload := d, pb_len := pb_len h + inc, pb_tot_len := pb_tot_len h + inc\<rparr>) s) = links s" for d
    by (auto simp: links_def split: if_splits)
  show ?thesis
  proof (cases "s' = s")
    case True
    then show ?thesis using assms(1) by simp
  next
    case False
    then obtain d where s': "s' = upd_pbuf p (\<lambda>h. h\<lparr>pb_payload := d, pb_len := pb_len h + inc, pb_tot_len := pb_tot_len h + inc\<rparr>) s"
      and d: "(pb_type ?h = PBUF_ROM \<or> pb_type ?h = PBUF_REF) \<and> (\<exists>a. d = Extern a) \<or>
        (\<exists>off. pb_payload ?h = Data p off \<and> 16 \<le> off - sint inc \<and> d = Data p (off - sint inc))"
      and neg: "sint inc < 0 \<longrightarrow> - inc \<le> pb_len ?h"
      using assms(3) b by (auto simp: pbuf_header_def external_header_def Let_def buffer_ok_def
          split: if_splits pbuf_type.splits data_ptr.splits pb_ptr.splits)
    have "buffer_ok L out p (?h\<lparr>pb_payload := d, pb_len := pb_len ?h + inc, pb_tot_len := pb_tot_len ?h + inc\<rparr>)"
    proof (cases "(pb_type ?h = PBUF_ROM \<or> pb_type ?h = PBUF_REF) \<and> (\<exists>a. d = Extern a)")
      case True
      then show ?thesis using b by (cases p) (auto simp: buffer_ok_def)
    next
      case False
      then show ?thesis using buffer_header [OF b bs] d neg by blast
    qed
    then show ?thesis using upd lk s' by blast
  qed
qed

text \<open>An octet written inside the data of a buffer.\<close>

lemma store_data_ok:
  assumes "pbufs_ok {} us R L out s" "p \<in> us" "pb_payload (pb_hdr s p) = Data p off" "0 \<le> k" "k < uint (pb_len (pb_hdr s p))"
    and "store_data (Data p off) k v s = Some s'"
  shows "\<exists>L'. pbufs_ok {} us R L' out s' \<and> pb_hdr s' = pb_hdr s"
proof (cases p)
  case (Ram a)
  have b: "buffer_ok L out p (pb_hdr s p)" using assms(1,2) by (simp add: pbufs_ok_def)
  then obtain c where c: "L a = Some c" "16 \<le> off" "off + uint (pb_len (pb_hdr s p)) \<le> int (length c)"
    using Ram assms(3) by (auto simp: buffer_ok_def)
  from assms(1) obtain bs where bs: "heap_owned bs (pb_heap s) L" by (auto simp: pbufs_ok_def memory_ok_def)
  let ?i = "nat (off + k)" and ?L = "L(a \<mapsto> c[nat (off + k) := v])"
  have i: "?i < length c" "a + int ?i = a + off + k" using c(2,3) assms(4,5) by auto
  have s': "s' = s\<lparr>pb_heap := (pb_heap s)\<lparr>ram := (ram (pb_heap s))(a + off + k := v)\<rparr>\<rparr>" using assms(6) Ram by (simp add: store_data_def)
  have "heap_owned bs (pb_heap s') ?L" using put_owned [OF bs c(1) i(1), of v] unfolding i(2) s' by simp
  then have "memory_ok ?L out s'" using assms(1) s' by (auto simp: pbufs_ok_def memory_ok_def)
  moreover have "buffer_ok ?L out x h" if "buffer_ok L out x h" for x h using that c(1) by (cases x) (auto simp: buffer_ok_def)
  then have "\<forall>x \<in> us. buffer_ok ?L out x (pb_hdr s' x)" using assms(1) s' by (simp add: pbufs_ok_def)
  moreover have "counts_ok {} us R s'" by (rule counts_same [of "{}" us R s]) (use assms(1) s' in \<open>simp_all add: pbufs_ok_def\<close>)
  moreover have "none_lost us ?L out" using assms(1,2) Ram by (auto simp: pbufs_ok_def none_lost_def)
  ultimately show ?thesis using s' by (intro exI [of _ ?L] conjI) (simp_all only: pbufs_ok_def, simp)
next
  case (Pool e)
  then have s': "s' = s\<lparr>pool_data := (pool_data s)(e := (pool_data s e)(off + k := v))\<rparr>" using assms(6) by (simp add: store_data_def)
  have "counts_ok {} us R s'" by (rule counts_same [of "{}" us R s]) (use assms(1) s' in \<open>simp_all add: pbufs_ok_def\<close>)
  then have "pbufs_ok {} us R L out s'" using assms(1) s' by (simp add: pbufs_ok_def memory_ok_def)
  then show ?thesis using s' by auto
qed (use assms(6) in \<open>simp add: store_data_def\<close>)

lemma cat_loop_links:
  assumes "cat_loop t p s = Some s'"
  shows "\<exists>r. (p, r) \<in> (links s)\<^sup>* \<and> (\<forall>x. pb_next (pb_hdr s' x) = (if x = r then Some t else pb_next (pb_hdr s x)))"
  using assms
proof (rule cat_loop.raw_induct [where P = "\<lambda>t p s s'. \<exists>r. (p, r) \<in> (links s)\<^sup>* \<and>
    (\<forall>x. pb_next (pb_hdr s' x) = (if x = r then Some t else pb_next (pb_hdr s x)))", rotated])
  fix f t p s s'
  let ?s = "upd_pbuf p (\<lambda>h. h\<lparr>pb_tot_len := pb_tot_len h + pb_tot_len (pb_hdr s t)\<rparr>) s"
  assume IH: "\<And>t p s s'. f t p s = Some s' \<Longrightarrow> \<exists>r. (p, r) \<in> (links s)\<^sup>* \<and>
      (\<forall>x. pb_next (pb_hdr s' x) = (if x = r then Some t else pb_next (pb_hdr s x)))"
    and b: "(case pb_next (pb_hdr s p) of
        None \<Rightarrow>
          if pb_tot_len (pb_hdr s p) \<noteq> pb_len (pb_hdr s p) then None
          else let s = ?s in Some (upd_pbuf p (\<lambda>h. h\<lparr>pb_next := Some t\<rparr>) s)
      | Some n \<Rightarrow> f t n ?s) = Some s'"
  show "\<exists>r. (p, r) \<in> (links s)\<^sup>* \<and> (\<forall>x. pb_next (pb_hdr s' x) = (if x = r then Some t else pb_next (pb_hdr s x)))"
  proof (cases "pb_next (pb_hdr s p)")
    case None
    then show ?thesis using b by (intro exI [of _ p]) (auto simp: Let_def split: if_splits)
  next
    case (Some n)
    have lk: "links ?s = links s" by (auto simp: links_def split: if_splits)
    from IH [of t n ?s s'] b Some obtain r where "(n, r) \<in> (links s)\<^sup>*"
      "\<forall>x. pb_next (pb_hdr s' x) = (if x = r then Some t else pb_next (pb_hdr ?s x))" unfolding lk by auto
    moreover have "pb_next (pb_hdr ?s x) = pb_next (pb_hdr s x)" for x by (rule links_next [OF lk])
    moreover have "(p, n) \<in> links s" using Some by (simp add: links_def)
    ultimately show ?thesis by (intro exI [of _ r]) (auto intro: converse_rtrancl_into_rtrancl)
  qed
qed

lemma cat_chains:
  assumes "cat_loop t h s = Some s'" "chains_end us s" "\<And>x. (h, x) \<in> (links s)\<^sup>* \<Longrightarrow> (t, x) \<notin> (links s)\<^sup>*"
  shows "chains_end us s'"
proof -
  from cat_loop_links [OF assms(1)] obtain r where r: "(h, r) \<in> (links s)\<^sup>*"
    "\<forall>x. pb_next (pb_hdr s' x) = (if x = r then Some t else pb_next (pb_hdr s x))" by blast
  show ?thesis by (rule chains_link [OF assms(2) assms(3) [OF r(1)]]) (use r(2) in simp_all)
qed

section \<open>Users\<close>

text \<open>
  \<open>pbuf_users s R\<close>: a state the users of the buffers reach from the initialised heap and pools, with the
  number \<open>R p\<close> of references they hold to the buffer \<open>p\<close>. They may refer to any buffer of a chain they hold,
  join chains that share no buffer, and write the data of their buffers.
\<close>

inductive pbuf_users :: "pbufst \<Rightarrow> (pb_ptr \<Rightarrow> nat) \<Rightarrow> bool" where
  start: "st_used (mem_stats h) = 0 \<Longrightarrow> pb_heap s = mem_init h \<Longrightarrow> pb_pools s = memp_init m \<Longrightarrow> pbuf_users s (\<lambda>_. 0)"
| alloc: "pbuf_users s R \<Longrightarrow> len \<le> 65460 \<Longrightarrow> pbuf_alloc layer len type s = Some (Some p, s') \<Longrightarrow> pbuf_users s' (R(p := R p + 1))"
| alloc_null: "pbuf_users s R \<Longrightarrow> len \<le> 65460 \<Longrightarrow> pbuf_alloc layer len type s = Some (None, s') \<Longrightarrow> pbuf_users s' R"
| ref: "pbuf_users s R \<Longrightarrow> 0 < R p \<Longrightarrow> (p, q) \<in> (links s)\<^sup>* \<Longrightarrow> pb_ref (pb_hdr s q) \<noteq> 65535 \<Longrightarrow> pbuf_users (pbuf_ref (Some q) s) (R(q := R q + 1))"
| free: "pbuf_users s R \<Longrightarrow> 0 < R p \<Longrightarrow> pbuf_free (Some p) s = Some (n, s') \<Longrightarrow> pbuf_users s' (R(p := R p - 1))"
| cat: "pbuf_users s R \<Longrightarrow> 0 < R h \<Longrightarrow> 0 < R t \<Longrightarrow> (\<And>x. (h, x) \<in> (links s)\<^sup>* \<Longrightarrow> (t, x) \<notin> (links s)\<^sup>*) \<Longrightarrow>
    pbuf_cat (Some h) (Some t) s = Some s' \<Longrightarrow> pbuf_users s' (R(t := R t - 1))"
| chain: "pbuf_users s R \<Longrightarrow> 0 < R h \<Longrightarrow> 0 < R t \<Longrightarrow> (\<And>x. (h, x) \<in> (links s)\<^sup>* \<Longrightarrow> (t, x) \<notin> (links s)\<^sup>*) \<Longrightarrow>
    pb_ref (pb_hdr s t) \<noteq> 65535 \<Longrightarrow> pbuf_chain (Some h) (Some t) s = Some s' \<Longrightarrow> pbuf_users s' R"
| dechain: "pbuf_users s R \<Longrightarrow> 0 < R p \<Longrightarrow> pbuf_dechain p s = Some (q, s') \<Longrightarrow> pbuf_users s' R"
| realloc: "pbuf_users s R \<Longrightarrow> 0 < R p \<Longrightarrow> pbuf_realloc (Some p) len s = Some s' \<Longrightarrow> pbuf_users s' R"
| header: "pbuf_users s R \<Longrightarrow> 0 < R p \<Longrightarrow> pbuf_header (Some p) inc s = Some (r, s') \<Longrightarrow> pbuf_users s' R"
| point: "pbuf_users s R \<Longrightarrow> 0 < R (Ref e) \<Longrightarrow> pbuf_users (upd_pbuf (Ref e) (\<lambda>h. h\<lparr>pb_payload := Extern a\<rparr>) s) R"
| put: "pbuf_users s R \<Longrightarrow> 0 < R p \<Longrightarrow> (p, q) \<in> (links s)\<^sup>* \<Longrightarrow> pb_payload (pb_hdr s q) = Data q off \<Longrightarrow> 0 \<le> k \<Longrightarrow>
    k < uint (pb_len (pb_hdr s q)) \<Longrightarrow> store_data (Data q off) k v s = Some s' \<Longrightarrow> pbuf_users s' R"

lemma reach_in_use: "pbufs_ok {} us R L out s \<Longrightarrow> 0 < R p \<Longrightarrow> (p, q) \<in> (links s)\<^sup>* \<Longrightarrow> q \<in> us"
  by (erule rtrancl_induct) (auto simp: links_def intro: in_use next_in_use)

definition users_ok :: "pbufst \<Rightarrow> (pb_ptr \<Rightarrow> nat) \<Rightarrow> bool" where
  "users_ok s R \<longleftrightarrow> (\<exists>us L out. pbufs_ok {} us R L out s \<and> chains_end us s)"

lemma chains_cong: "chains_end us s \<Longrightarrow> (\<And>x. pb_next (pb_hdr s' x) = pb_next (pb_hdr s x)) \<Longrightarrow> chains_end us s'"
  using chains_shorter [of us s us s'] by (simp add: shorter_def)

lemma users_start: "st_used (mem_stats h) = 0 \<Longrightarrow> pb_heap s = mem_init h \<Longrightarrow> pb_pools s = memp_init m \<Longrightarrow> users_ok s (\<lambda>_. 0)"
  unfolding users_ok_def
  by (rule exI [of _ "{}"], rule exI [of _ Map.empty], rule exI [of _ "\<lambda>_. {}"])
    (auto simp: pbufs_ok_def memory_ok_def counts_ok_def none_lost_def chains_end_def acyclic_def memp_init_ok dest: mem_init_ok)

lemma users_alloc:
  assumes "users_ok s R" "len \<le> 65460"
  shows "\<exists>r s'. pbuf_alloc layer len type s = Some (r, s') \<and>
    (case r of None \<Rightarrow> users_ok s' R | Some p \<Rightarrow> R p = 0 \<and> users_ok s' (R(p := R p + 1)))"
proof -
  from assms(1) obtain us L out where "pbufs_ok {} us R L out s" "chains_end us s" by (auto simp: users_ok_def)
  from pbuf_alloc_ok [OF this assms(2), of layer type] obtain r s' us' L' out' where a: "pbuf_alloc layer len type s = Some (r, s')" "chains_end us' s'"
    "case r of None \<Rightarrow> pbufs_ok {} us' R L' out' s' | Some p \<Rightarrow> R p = 0 \<and> pbufs_ok {} us' (R(p := R p + 1)) L' out' s'" by blast
  show ?thesis
  proof (cases r)
    case None
    then have "users_ok s' R" using a(2) a(3) [unfolded None option.case] unfolding users_ok_def by blast
    then show ?thesis using a(1) None by auto
  next
    case (Some p)
    then have "R p = 0" "users_ok s' (R(p := R p + 1))" using a(2) a(3) [unfolded Some option.case] unfolding users_ok_def by blast+
    then show ?thesis using a(1) Some by auto
  qed
qed

lemma users_free:
  assumes "users_ok s R" "0 < R p"
  shows "\<exists>n s'. pbuf_free (Some p) s = Some (n, s') \<and> users_ok s' (R(p := R p - 1))"
proof -
  from assms(1) obtain us L out where ok: "pbufs_ok {} us R L out s" "chains_end us s" by (auto simp: users_ok_def)
  from pbuf_free_ok [OF ok(1) assms(2)] obtain n s' us' L' out' where
    f: "pbuf_free (Some p) s = Some (n, s')" "pbufs_ok {} us' (R(p := R p - 1)) L' out' s'" "us' \<subseteq> us" "left_same us' L L' s s'" by blast
  have "chains_end us' s'" by (rule chains_shorter [OF ok(2) f(3) left_same_shorter [OF f(4)]])
  then have "users_ok s' (R(p := R p - 1))" using f(2) unfolding users_ok_def by blast
  then show ?thesis using f(1) by blast
qed

lemma users_invariant: "pbuf_users s R \<Longrightarrow> users_ok s R"
proof (induction rule: pbuf_users.induct)
  case (start h s m)
  then show ?case by (rule users_start)
next
  case (alloc s R len layer type p s')
  from users_alloc [OF alloc.IH alloc.hyps(2), of layer type] obtain r t where
    a: "pbuf_alloc layer len type s = Some (r, t)" "case r of None \<Rightarrow> users_ok t R | Some p \<Rightarrow> R p = 0 \<and> users_ok t (R(p := R p + 1))" by blast
  then have e: "r = Some p" "t = s'" using alloc.hyps(3) by simp_all
  have "R p = 0 \<and> users_ok s' (R(p := R p + 1))" using a(2) unfolding e option.case .
  then show ?case by (rule conjunct2)
next
  case (alloc_null s R len layer type s')
  then show ?case using users_alloc [OF alloc_null.IH alloc_null.hyps(2), of layer type] by auto
next
  case (ref s R p q)
  from ref.IH obtain us L out where ok: "pbufs_ok {} us R L out s" "chains_end us s" by (auto simp: users_ok_def)
  have "pbufs_ok {} us (R(q := R q + 1)) L out (pbuf_ref (Some q) s)"
    by (rule pbuf_ref_ok [OF ok(1) reach_in_use [OF ok(1) ref.hyps(2,3)] ref.hyps(4)])
  moreover have "chains_end us (pbuf_ref (Some q) s)" by (rule chains_cong [OF ok(2)]) (simp add: pbuf_ref_def)
  ultimately show ?case unfolding users_ok_def by blast
next
  case (free s R p n s')
  then show ?case using users_free [OF free.IH free.hyps(2)] by (metis option.inject prod.inject)
next
  case (cat s R h t s')
  from cat.IH obtain us L out where ok: "pbufs_ok {} us R L out s" "chains_end us s" by (auto simp: users_ok_def)
  have "cat_loop t h s = Some s'" using cat.hyps(5) by (simp add: pbuf_cat_def)
  from cat_chains [OF this ok(2) cat.hyps(4)] pbuf_cat_ok [OF ok(1) cat.hyps(2,3,5)] show ?case unfolding users_ok_def by blast
next
  case (chain s R h t s')
  from chain.IH obtain us L out where ok: "pbufs_ok {} us R L out s" "chains_end us s" by (auto simp: users_ok_def)
  from chain.hyps(6) obtain s1 where s1: "cat_loop t h s = Some s1" "s' = pbuf_ref (Some t) s1"
    by (auto simp: pbuf_chain_def pbuf_cat_def bind_eq_Some_conv)
  have "chains_end us s'" using chains_cong [OF cat_chains [OF s1(1) ok(2) chain.hyps(4)], of s'] s1(2) by (simp add: pbuf_ref_def)
  with pbuf_chain_ok [OF ok(1) chain.hyps(2,3,5,6)] show ?case unfolding users_ok_def by blast
next
  case (dechain s R p q s')
  from dechain.IH obtain us L out where ok: "pbufs_ok {} us R L out s" "chains_end us s" by (auto simp: users_ok_def)
  from pbuf_dechain_ok [OF ok(1) dechain.hyps(2,3)] chains_shorter [OF ok(2)] show ?case unfolding users_ok_def by blast
next
  case (realloc s R p len s')
  from realloc.IH obtain us L out where ok: "pbufs_ok {} us R L out s" "chains_end us s" by (auto simp: users_ok_def)
  from pbuf_realloc_ok [OF ok(1) realloc.hyps(2,3)] chains_shorter [OF ok(2)] show ?case unfolding users_ok_def by blast
next
  case (header s R p inc r s')
  from header.IH obtain us L out where ok: "pbufs_ok {} us R L out s" "chains_end us s" by (auto simp: users_ok_def)
  from pbuf_header_ok [OF ok(1) header.hyps(2,3)] have h: "pbufs_ok {} us R L out s'" "links s' = links s" by auto
  have "chains_end us s'" by (rule chains_cong [OF ok(2) links_next [OF h(2)]])
  with h(1) show ?case unfolding users_ok_def by blast
next
  case (point s R e a)
  let ?s = "upd_pbuf (Ref e) (\<lambda>h. h\<lparr>pb_payload := Extern a\<rparr>) s"
  from point.IH obtain us L out where ok: "pbufs_ok {} us R L out s" "chains_end us s" by (auto simp: users_ok_def)
  then have "buffer_ok L out (Ref e) (pb_hdr s (Ref e))" using in_use [OF ok(1) point.hyps(2)] by (simp add: pbufs_ok_def)
  then have "pbufs_ok {} us R L out ?s" by (intro pbufs_upd [OF ok(1)]) (simp_all add: buffer_ok_def)
  moreover have "chains_end us ?s" by (rule chains_cong [OF ok(2)]) simp
  ultimately show ?case unfolding users_ok_def by blast
next
  case (put s R p q off k v s')
  from put.IH obtain us L out where ok: "pbufs_ok {} us R L out s" "chains_end us s" by (auto simp: users_ok_def)
  from store_data_ok [OF ok(1) reach_in_use [OF ok(1) put.hyps(2,3)] put.hyps(4-7)] obtain L' where
    p: "pbufs_ok {} us R L' out s'" "pb_hdr s' = pb_hdr s" by blast
  have "chains_end us s'" by (rule chains_cong [OF ok(2)]) (simp add: p(2))
  with p(1) show ?case unfolding users_ok_def by blast
qed

text \<open>Without references there are no buffers in use: the first of a chain has none before it.\<close>

lemma none_in_use:
  assumes "pbufs_ok {} us (\<lambda>_. 0) L out s" "chains_end us s"
  shows "us = {}"
proof (rule ccontr)
  assume "us \<noteq> {}"
  then obtain x where x: "x \<in> us" by blast
  let ?r = "links s \<inter> us \<times> UNIV"
  have c: "counts_ok {} us (\<lambda>_. 0) s" using assms(1) by (simp add: pbufs_ok_def)
  have "?r \<subseteq> (\<lambda>a. (a, the (pb_next (pb_hdr s a)))) ` us" by (auto simp: links_def image_iff)
  moreover have "finite us" using c by (simp add: counts_ok_def)
  ultimately have "finite ?r" using finite_subset by blast
  then have "wf ?r" using assms(2) by (simp add: chains_end_def finite_acyclic_wf)
  then obtain z where z: "z \<in> us" "\<And>y. (y, z) \<in> ?r \<Longrightarrow> y \<notin> us" using x by (meson wfE_min)
  have "0 < card (preds {} us s z)" using c z(1) by (auto simp: counts_ok_def)
  then obtain y where "y \<in> us" "pb_next (pb_hdr s y) = Some z" by (auto simp: preds_def card_gt_0_iff)
  then show False using z(2) by (auto simp: links_def)
qed

section \<open>What the users rely on\<close>

lemma kept_data:
  assumes "buffer_ok L out x h" "heap_owned bs (pb_heap s) L" "heap_owned bs' (pb_heap s') L'"
    and "\<And>a. x = Ram a \<Longrightarrow> L' a = L a" "pool_data s' = pool_data s" "ext_data s' = ext_data s" "0 \<le> k" "k < uint (pb_len h)"
  shows "load_data s' (pb_payload h) k = load_data s (pb_payload h) k"
proof (cases x)
  case (Ram a)
  with assms(1) obtain c off where c: "L a = Some c" "pb_payload h = Data x off" "16 \<le> off" "off + uint (pb_len h) \<le> int (length c)"
    by (auto simp: buffer_ok_def)
  have i: "nat (off + k) < length c" "a + off + k = a + int (nat (off + k))" using c(3,4) assms(7,8) by auto
  have "ram (pb_heap s) (a + int (nat (off + k))) = c ! nat (off + k)"
    using owned_inside [OF assms(2) c(1)] octets_at_nth(2) [OF i(1)] by metis
  moreover have "ram (pb_heap s') (a + int (nat (off + k))) = c ! nat (off + k)"
    using owned_inside [OF assms(3)] c(1) assms(4) [OF Ram] octets_at_nth(2) [OF i(1)] by metis
  ultimately have "ram (pb_heap s') (a + off + k) = ram (pb_heap s) (a + off + k)" unfolding i(2) by (simp only:)
  then show ?thesis using Ram c(2) by (simp add: load_data_def)
next
  case (Pool e)
  then show ?thesis using assms(1,5) by (auto simp: buffer_ok_def load_data_def)
next
  case (Ref e)
  then show ?thesis using assms(1,6) by (auto simp: buffer_ok_def load_data_def)
qed

lemma load_octets_cong:
  "(\<And>j. k \<le> j \<Longrightarrow> j < k + int n \<Longrightarrow> load_data s' d j = load_data s d j) \<Longrightarrow> load_octets s' d k n = load_octets s d k n"
proof (induction n arbitrary: k)
  case (Suc n)
  have "load_octets s' d (k + 1) n = load_octets s d (k + 1) n" by (rule Suc.IH) (use Suc.prems in auto)
  moreover have "load_data s' d k = load_data s d k" using Suc.prems by simp
  ultimately show ?case by simp
qed simp

definition pbuf_octets :: "pbufst \<Rightarrow> pb_ptr \<Rightarrow> u8 list option" where
  "pbuf_octets s p = load_octets s (pb_payload (pb_hdr s p)) 0 (unat (pb_len (pb_hdr s p)))"

text \<open>
  Dropping a reference to a packet buffer always succeeds, and every buffer on a chain that is still held keeps its
  structure, apart from its count, and its data (C8).
\<close>

theorem pbuf_free_keeps:
  assumes "pbuf_users s R" "0 < R p"
  shows "\<exists>n s'. pbuf_free (Some p) s = Some (n, s') \<and>
    (\<forall>q x. 0 < (R(p := R p - 1)) q \<longrightarrow> (q, x) \<in> (links s)\<^sup>* \<longrightarrow>
      (pb_hdr s' x)\<lparr>pb_ref := 0\<rparr> = (pb_hdr s x)\<lparr>pb_ref := 0\<rparr> \<and> pbuf_octets s' x = pbuf_octets s x)"
proof -
  from users_invariant [OF assms(1)] obtain us L out where ok: "pbufs_ok {} us R L out s" by (auto simp: users_ok_def)
  from pbuf_free_ok [OF ok assms(2)] obtain n s' us' L' out' where
    f: "pbuf_free (Some p) s = Some (n, s')" "pbufs_ok {} us' (R(p := R p - 1)) L' out' s'" "us' \<subseteq> us" "left_same us' L L' s s'" by blast
  have reach: "x \<in> us'" if "0 < (R(p := R p - 1)) q" "(q, x) \<in> (links s)\<^sup>*" for q x
    using that(2)
  proof (induction rule: rtrancl_induct)
    case base
    show ?case by (rule in_use [OF f(2) that(1)])
  next
    case (step y z)
    have "pb_next (pb_hdr s' y) = Some z" using left_same_fields(1) [OF f(4) step.IH] step.hyps(2) by (simp add: links_def)
    then show ?case by (rule next_in_use [OF f(2) step.IH])
  qed
  from ok obtain bs where bs: "heap_owned bs (pb_heap s) L" by (auto simp: pbufs_ok_def memory_ok_def)
  from f(2) obtain bs' where bs': "heap_owned bs' (pb_heap s') L'" by (auto simp: pbufs_ok_def memory_ok_def)
  have "pbuf_octets s' x = pbuf_octets s x" if x: "x \<in> us'" for x
    unfolding pbuf_octets_def left_same_fields(2,4) [OF f(4) x]
  proof (rule load_octets_cong)
    fix j assume "0 \<le> j" "j < 0 + int (unat (pb_len (pb_hdr s x)))"
    then show "load_data s' (pb_payload (pb_hdr s x)) j = load_data s (pb_payload (pb_hdr s x)) j"
      by (intro kept_data [of L out x _ bs _ bs' _ L']) (use ok f(3,4) x bs bs' in \<open>auto simp: pbufs_ok_def left_same_def\<close>)
  qed
  moreover have "(pb_hdr s' x)\<lparr>pb_ref := 0\<rparr> = (pb_hdr s x)\<lparr>pb_ref := 0\<rparr>" if "x \<in> us'" for x using f(4) that by (simp add: left_same_def)
  ultimately show ?thesis using f(1) reach by blast
qed

text \<open>
  Allocation always returns, and never a buffer that is held; the buffers held in the heap lie apart from each
  other, structure and data, and inside the heap (C9).
\<close>

theorem pbuf_buffers_apart:
  assumes "pbuf_users s R"
  shows "(\<forall>layer len type. len \<le> 65460 \<longrightarrow> (\<exists>r s'. pbuf_alloc layer len type s = Some (r, s') \<and> (\<forall>p. r = Some p \<longrightarrow> R p = 0))) \<and>
    (\<forall>a. 0 < R (Ram a) \<longrightarrow> (\<exists>off. pb_payload (pb_hdr s (Ram a)) = Data (Ram a) off \<and> 16 \<le> off \<and> 8 \<le> a \<and>
      a + off + uint (pb_len (pb_hdr s (Ram a))) \<le> 32404 \<and>
      (\<forall>b. 0 < R (Ram b) \<and> a < b \<longrightarrow> a + off + uint (pb_len (pb_hdr s (Ram a))) \<le> b)))"
proof -
  have inv: "users_ok s R" by (rule users_invariant [OF assms])
  then obtain us L out where ok: "pbufs_ok {} us R L out s" by (auto simp: users_ok_def)
  then obtain bs where bs: "heap_owned bs (pb_heap s) L" by (auto simp: pbufs_ok_def memory_ok_def)
  have b: "\<exists>c off. L a = Some c \<and> pb_payload (pb_hdr s (Ram a)) = Data (Ram a) off \<and> 16 \<le> off \<and> off + uint (pb_len (pb_hdr s (Ram a))) \<le> int (length c)"
    if "0 < R (Ram a)" for a
    using ok in_use [OF ok that] by (auto simp: pbufs_ok_def buffer_ok_def dest: bspec [of us _ "Ram a"])
  have "\<exists>off. pb_payload (pb_hdr s (Ram a)) = Data (Ram a) off \<and> 16 \<le> off \<and> 8 \<le> a \<and>
      a + off + uint (pb_len (pb_hdr s (Ram a))) \<le> 32404 \<and>
      (\<forall>b. 0 < R (Ram b) \<and> a < b \<longrightarrow> a + off + uint (pb_len (pb_hdr s (Ram a))) \<le> b)" if a: "0 < R (Ram a)" for a
  proof -
    from b [OF a] obtain c off where c: "L a = Some c" "pb_payload (pb_hdr s (Ram a)) = Data (Ram a) off" "16 \<le> off"
      "off + uint (pb_len (pb_hdr s (Ram a))) \<le> int (length c)" by blast
    have "a + off + uint (pb_len (pb_hdr s (Ram a))) \<le> d" if "0 < R (Ram d)" "a < d" for d
      using b [OF that(1)] owned_apart [OF bs c(1) _ that(2)] c(4) by fastforce
    then show ?thesis using c owned_inside [OF bs c(1)] by (intro exI [of _ off]) auto
  qed
  moreover have "\<exists>r s'. pbuf_alloc layer len type s = Some (r, s') \<and> (\<forall>p. r = Some p \<longrightarrow> R p = 0)" if "len \<le> 65460" for layer len type
    using users_alloc [OF inv that, of layer type] by (force split: option.splits)
  ultimately show ?thesis by blast
qed

text \<open>
  When the users have given up all references, no buffer is lost: every element of both pools is on its free
  list, and the whole heap can be allocated again (C10).
\<close>

theorem pbufs_all_returned:
  assumes "pbuf_users s (\<lambda>_. 0)" "0 < sz" "sz \<le> 32396"
  shows "pool_ok MEMP_PBUF_POOL {} (pb_pools s) \<and> pool_ok MEMP_PBUF {} (pb_pools s) \<and>
    (\<exists>h'. mem_malloc sz (pb_heap s) = Some (Some 8, h'))"
proof -
  from users_invariant [OF assms(1)] obtain us L out where ok: "pbufs_ok {} us (\<lambda>_. 0) L out s" "chains_end us s" by (auto simp: users_ok_def)
  have "none_lost {} L out" using ok none_in_use [OF ok] by (simp add: pbufs_ok_def)
  then have "L = Map.empty" "out MEMP_PBUF_POOL = {}" "out MEMP_PBUF = {}" by (auto simp: none_lost_def)
  moreover obtain bs where "heap_owned bs (pb_heap s) L" using ok(1) by (auto simp: pbufs_ok_def memory_ok_def)
  moreover have "pool_ok i (out i) (pb_pools s)" for i using ok(1) by (simp add: pbufs_ok_def memory_ok_def)
  ultimately show ?thesis using unowned_malloc [of bs "pb_heap s" sz] assms(2,3) by metis
qed

text \<open>
  A request of more than 65519 octets wraps around: the caller gets a buffer of 65535 octets whose block in the heap has
  room for the structure only.
\<close>

definition first_pbufs :: pbufst where
  "first_pbufs = \<lparr>pb_heap = mem_init zero_heap, pb_pools = memp_init blank_pools,
     pb_hdr = (\<lambda>_. \<lparr>pb_next = None, pb_payload = Null, pb_tot_len = 0, pb_len = 0, pb_type = PBUF_RAM, pb_flags = 0, pb_ref = 0\<rparr>),
     pool_data = (\<lambda>_ _. 0), ext_data = (\<lambda>_. 0)\<rparr>"

lemma first_users: "pbuf_users first_pbufs (\<lambda>_. 0)"
  by (rule pbuf_users.start [of zero_heap _ blank_pools]) (simp_all add: first_pbufs_def zero_heap_def)

lemma first_heap: "heap_ok [(32404, False)] (pb_heap first_pbufs)"
  using mem_init_ok [of zero_heap] by (simp add: heap_owned_def first_pbufs_def zero_heap_def)

lemma pbuf_alloc_wraps:
  "\<exists>s'. pbuf_alloc PBUF_RAW 65535 PBUF_RAM first_pbufs = Some (Some (Ram 8), s') \<and> pb_len (pb_hdr s' (Ram 8)) = 65535 \<and>
    heap_ok [(24, True), (32380, False)] (pb_heap s')"
proof -
  have w: "want 16 = 16" by (simp add: want_def align_value)
  from mem_malloc_takes [OF first_heap, of 16 0] obtain h1 where
    "mem_malloc 16 (pb_heap first_pbufs) = Some (Some 8, h1)" "heap_ok [(24, True), (32380, False)] h1" by (auto simp: w carve_def)
  moreover have "LWIP_MEM_ALIGN_SIZE (SIZEOF_STRUCT_PBUF + header_room PBUF_RAW) + LWIP_MEM_ALIGN_SIZE 65535 = 16" by code_simp
  ultimately show ?thesis unfolding pbuf_alloc_def pbuf_type.case pbuf_alloc_ram_def by simp
qed

lemma two_buffers:
  "\<exists>s1 s2. pbuf_alloc PBUF_RAW 4 PBUF_RAM first_pbufs = Some (Some (Ram 8), s1) \<and>
    pbuf_alloc PBUF_RAW 84 PBUF_RAM s1 = Some (Some (Ram 36), s2) \<and> pb_len (pb_hdr s2 (Ram 8)) = 4"
proof -
  have w: "want 20 = 20" "want 100 = 100" by (simp_all add: want_def align_value)
  from mem_malloc_takes [OF first_heap, of 20 0] obtain h1 where
    h1: "mem_malloc 20 (pb_heap first_pbufs) = Some (Some 8, h1)" "heap_ok [(28, True), (32376, False)] h1" by (auto simp: w carve_def)
  from mem_malloc_takes [OF h1(2), of 100 28] obtain h2 where h2: "mem_malloc 100 h1 = Some (Some 36, h2)" by (auto simp: w)
  show ?thesis using h1(1) h2 by (simp add: pbuf_alloc_def pbuf_alloc_ram_def header_room_def LWIP_MEM_ALIGN_SIZE_def)
qed

lemma two_users:
  "\<exists>s1 s2. pbuf_alloc PBUF_RAW 4 PBUF_RAM first_pbufs = Some (Some (Ram 8), s1) \<and> pbuf_users s2 ((\<lambda>_. 0)(Ram 8 := 1, Ram 36 := 1)) \<and>
    pb_len (pb_hdr s2 (Ram 8)) = 4"
proof -
  from two_buffers obtain s1 s2 where s: "pbuf_alloc PBUF_RAW 4 PBUF_RAM first_pbufs = Some (Some (Ram 8), s1)"
    "pbuf_alloc PBUF_RAW 84 PBUF_RAM s1 = Some (Some (Ram 36), s2)" "pb_len (pb_hdr s2 (Ram 8)) = 4" by blast
  have "pbuf_users s2 ((\<lambda>_. 0)(Ram 8 := 1, Ram 36 := 1))"
    using pbuf_users.alloc [OF pbuf_users.alloc [OF first_users _ s(1)] _ s(2)] by simp
  with s show ?thesis by blast
qed

theorem pbuf_free_keeps_witness:
  "\<exists>s n s'. pbuf_free (Some (Ram 8)) s = Some (n, s') \<and> pbuf_octets s' (Ram 36) = pbuf_octets s (Ram 36)"
proof -
  from two_users obtain s where s: "pbuf_users s ((\<lambda>_. 0)(Ram 8 := 1, Ram 36 := 1))" by blast
  from pbuf_free_keeps [OF s, of "Ram 8"] obtain n s' where "pbuf_free (Some (Ram 8)) s = Some (n, s')"
    "\<forall>q x. 0 < ((\<lambda>_. 0)(Ram 8 := 1, Ram 36 := 1, Ram 8 := 0 :: nat)) q \<longrightarrow> (q, x) \<in> (links s)\<^sup>* \<longrightarrow> pbuf_octets s' x = pbuf_octets s x"
    by auto
  moreover from this(2) have "pbuf_octets s' (Ram 36) = pbuf_octets s (Ram 36)" by (elim allE [of _ "Ram 36"]) auto
  ultimately show ?thesis by blast
qed

theorem pbuf_buffers_apart_witness:
  "\<exists>s off. pb_payload (pb_hdr s (Ram 8)) = Data (Ram 8) off \<and> 16 \<le> off \<and> 8 + off + uint (pb_len (pb_hdr s (Ram 8))) \<le> 36 \<and>
    (\<exists>r s'. pbuf_alloc PBUF_TRANSPORT 1000 PBUF_POOL s = Some (r, s') \<and> r \<noteq> Some (Ram 8))"
proof -
  from two_users obtain s where s: "pbuf_users s ((\<lambda>_. 0)(Ram 8 := 1, Ram 36 := 1))" by blast
  note a = pbuf_buffers_apart [OF s]
  from a [THEN conjunct2, rule_format, of 8] obtain off where "pb_payload (pb_hdr s (Ram 8)) = Data (Ram 8) off" "16 \<le> off"
    "8 + off + uint (pb_len (pb_hdr s (Ram 8))) \<le> 36" by auto
  moreover from a [THEN conjunct1, rule_format, of 1000 PBUF_TRANSPORT PBUF_POOL] obtain r s' where
    r: "pbuf_alloc PBUF_TRANSPORT 1000 PBUF_POOL s = Some (r, s')" "\<forall>p. r = Some p \<longrightarrow> ((\<lambda>_. 0)(Ram 8 := 1, Ram 36 := 1 :: nat)) p = 0" by auto
  moreover have "r \<noteq> Some (Ram 8)" using r(2) by (auto dest: spec [of _ "Ram 8"])
  ultimately show ?thesis by blast
qed

theorem pbufs_all_returned_witness:
  "\<exists>s1 n s2 h'. pbuf_alloc PBUF_RAW 4 PBUF_RAM first_pbufs = Some (Some (Ram 8), s1) \<and> pbuf_free (Some (Ram 8)) s1 = Some (n, s2) \<and>
    mem_malloc 32396 (pb_heap s2) = Some (Some 8, h')"
proof -
  from two_users obtain s1 where s1: "pbuf_alloc PBUF_RAW 4 PBUF_RAM first_pbufs = Some (Some (Ram 8), s1)" by blast
  then have u: "pbuf_users s1 ((\<lambda>_. 0)(Ram 8 := 1))" using pbuf_users.alloc [OF first_users _ s1] by simp
  from users_free [OF users_invariant [OF u], of "Ram 8"] obtain n s2 where f: "pbuf_free (Some (Ram 8)) s1 = Some (n, s2)" by auto
  from pbuf_users.free [OF u _ f] have "pbuf_users s2 ((\<lambda>_. 0)(Ram 8 := 1, Ram 8 := 1 - 1))" by simp
  then have "pbuf_users s2 (\<lambda>_. 0)" by (simp add: fun_upd_idem)
  from pbufs_all_returned [OF this, of 32396] s1 f show ?thesis by auto
qed

end
