(* ===== verification/Sntp.thy ===== *)
theory Sntp
  imports Lwip_Api
begin

text \<open>
  The SNTP client, \<open>src/src/sntp/sntp.c\<close>, as configured there: one server found by DNS, responses
  checked for address, port and originate timestamp, retry times doubled up to thirty
  seconds. Messages are lists of octets in the order of the network.
\<close>

section \<open>Globals and constants\<close>

record ('d, 'n) sntpst = "('d, 'n) lwipst" +
  sntp_pcb :: "nat option"
  sntp_retry_timeout :: u32
  sntp_last_server_address :: u32
  sntp_last_timestamp_sent :: "u32 \<times> u32"

definition SNTP_PORT :: u16 where "SNTP_PORT = 123"
definition SNTP_SERVER_ADDRESS :: string where "SNTP_SERVER_ADDRESS = ''pool.ntp.org''"
definition SNTP_RECV_TIMEOUT :: u32 where "SNTP_RECV_TIMEOUT = 3000"
definition SNTP_UPDATE_DELAY :: u32 where "SNTP_UPDATE_DELAY = 3600000"
definition SNTP_RETRY_TIMEOUT :: u32 where "SNTP_RETRY_TIMEOUT = SNTP_RECV_TIMEOUT"
definition SNTP_RETRY_TIMEOUT_MAX :: u32 where "SNTP_RETRY_TIMEOUT_MAX = SNTP_RETRY_TIMEOUT * 10"
definition SNTP_ERR_KOD :: err_t where "SNTP_ERR_KOD = 1"
definition SNTP_MSG_LEN :: nat where [simp]: "SNTP_MSG_LEN = 48"
definition SNTP_OFFSET_LI_VN_MODE :: nat where [simp]: "SNTP_OFFSET_LI_VN_MODE = 0"
definition SNTP_LI_NO_WARNING :: u8 where "SNTP_LI_NO_WARNING = 0"
definition SNTP_VERSION :: u8 where "SNTP_VERSION = push_bit 3 4"
definition SNTP_MODE_MASK :: u8 where "SNTP_MODE_MASK = 7"
definition SNTP_MODE_CLIENT :: u8 where "SNTP_MODE_CLIENT = 3"
definition SNTP_MODE_SERVER :: u8 where "SNTP_MODE_SERVER = 4"
definition SNTP_MODE_BROADCAST :: u8 where "SNTP_MODE_BROADCAST = 5"
definition SNTP_OFFSET_STRATUM :: nat where [simp]: "SNTP_OFFSET_STRATUM = 1"
definition SNTP_STRATUM_KOD :: u8 where "SNTP_STRATUM_KOD = 0"
definition SNTP_OFFSET_ORIGINATE_TIME :: nat where [simp]: "SNTP_OFFSET_ORIGINATE_TIME = 24"
definition SNTP_OFFSET_RECEIVE_TIME :: nat where [simp]: "SNTP_OFFSET_RECEIVE_TIME = 32"
definition DIFF_SEC_1900_1970 :: u32 where "DIFF_SEC_1900_1970 = 2208988800"

section \<open>Messages\<close>

text \<open>The time taken for \<open>SNTP_GET_SYSTEM_TIME\<close> is always zero.\<close>

definition SNTP_GET_SYSTEM_TIME :: "u32 \<times> u32" where "SNTP_GET_SYSTEM_TIME = (0, 0)"

definition sntp_initialize_request ::
  "('d, 'n, 'z) sntpst_scheme \<Rightarrow> u8 list \<times> ('d, 'n, 'z) sntpst_scheme" where
  "sntp_initialize_request s =
     (let req = replicate SNTP_MSG_LEN 0;
          req = req[0 := SNTP_LI_NO_WARNING OR SNTP_VERSION OR SNTP_MODE_CLIENT];
          (sntp_time_sec, sntp_time_us) = SNTP_GET_SYSTEM_TIME;
          ts0 = lwip_htonl (sntp_time_sec + DIFF_SEC_1900_1970);
          ts1 = lwip_htonl sntp_time_us;
          s = s\<lparr>sntp_last_timestamp_sent := (ts0, ts1)\<rparr>;
          req = take 40 req @ le32_bytes ts0 @ le32_bytes ts1
      in (req, s))"

text \<open>The receive timestamp, seconds and fraction in network order, sets the clock.\<close>

definition sntp_process ::
  "'d mmio \<Rightarrow> u32 \<times> u32 \<Rightarrow> ('d, 'n, 'z) sntpst_scheme \<Rightarrow> ('d, 'n, 'z) sntpst_scheme" where
  "sntp_process m receive_timestamp s =
     (let t = lwip_ntohl (fst receive_timestamp) - DIFF_SEC_1900_1970;
          us = lwip_ntohl (snd receive_timestamp) div 4295
      in ntp_set_current_time m t us s)"

section \<open>Requests and retries\<close>

definition sntp_retry :: "('d, 'n, 'z) sntpst_scheme \<Rightarrow> ('d, 'n, 'z) sntpst_scheme option" where
  "sntp_retry s =
     do { s \<leftarrow> sys_timeout (sntp_retry_timeout s) Sntp_request 0 s;
          let new_retry_timeout = push_bit 1 (sntp_retry_timeout s);
          if new_retry_timeout \<le> SNTP_RETRY_TIMEOUT_MAX \<and> new_retry_timeout > sntp_retry_timeout s
          then Some (s\<lparr>sntp_retry_timeout := new_retry_timeout\<rparr>)
          else Some s }"

definition sntp_send_request ::
  "'n lwip \<Rightarrow> u32 \<Rightarrow> ('d, 'n, 'z) sntpst_scheme \<Rightarrow> ('d, 'n, 'z) sntpst_scheme option" where
  "sntp_send_request L server_addr s =
     (case pbuf_alloc L (of_nat SNTP_MSG_LEN) (net s) of
        (Some p, n) \<Rightarrow>
          do { let s = s\<lparr>net := n\<rparr>;
               let (req, s) = sntp_initialize_request s;
               let p = p\<lparr>pbuf_payloads := [req]\<rparr>;
               let (_, n) = udp_sendto L (case sntp_pcb s of Some pcb \<Rightarrow> pcb | None \<Rightarrow> 0) p server_addr SNTP_PORT (net s);
               let s = s\<lparr>net := pbuf_free L p n\<rparr>;
               s \<leftarrow> sys_timeout SNTP_RECV_TIMEOUT Sntp_retry 0 s;
               Some (s\<lparr>sntp_last_server_address := server_addr\<rparr>) }
      | (None, n) \<Rightarrow> sys_timeout SNTP_RETRY_TIMEOUT Sntp_request 0 (s\<lparr>net := n\<rparr>))"

definition sntp_dns_found ::
  "'n lwip \<Rightarrow> u32 option \<Rightarrow> ('d, 'n, 'z) sntpst_scheme \<Rightarrow> ('d, 'n, 'z) sntpst_scheme option" where
  "sntp_dns_found L ipaddr s =
     (case ipaddr of Some a \<Rightarrow> sntp_send_request L a s | None \<Rightarrow> sntp_retry s)"

definition sntp_request ::
  "'n lwip \<Rightarrow> ('d, 'n, 'z) sntpst_scheme \<Rightarrow> ('d, 'n, 'z) sntpst_scheme option" where
  "sntp_request L s =
     (case dns_gethostbyname L SNTP_SERVER_ADDRESS (net s) of (err, sntp_server_address, n) \<Rightarrow>
        (let s = s\<lparr>net := n\<rparr>
         in if err = ERR_INPROGRESS then Some s
            else if err = ERR_OK then sntp_send_request L sntp_server_address s
            else sys_timeout SNTP_RETRY_TIMEOUT Sntp_retry 0 s))"

section \<open>Responses\<close>

text \<open>The checks of \<open>sntp_recv\<close>: the error code and the receive timestamp, if the response is correct.\<close>

definition octets_word :: "u8 list \<Rightarrow> u32" where
  "octets_word bs = le32_word (bs ! 0) (bs ! 1) (bs ! 2) (bs ! 3)"

definition sntp_check ::
  "pbuf \<Rightarrow> u32 \<Rightarrow> u16 \<Rightarrow> ('d, 'n, 'z) sntpst_scheme \<Rightarrow> err_t \<times> (u32 \<times> u32)" where
  "sntp_check p addr port s =
     (if addr = sntp_last_server_address s \<and> port = SNTP_PORT then
        if tot_len p = of_nat SNTP_MSG_LEN then
          (let mode = pbuf_copy_partial p 1 SNTP_OFFSET_LI_VN_MODE ! 0 AND SNTP_MODE_MASK
           in if mode = SNTP_MODE_SERVER \<or> mode = SNTP_MODE_BROADCAST then
                (let stratum = pbuf_copy_partial p 1 SNTP_OFFSET_STRATUM ! 0
                 in if stratum = SNTP_STRATUM_KOD then (SNTP_ERR_KOD, (0, 0))
                    else
                      (let o8 = pbuf_copy_partial p 8 SNTP_OFFSET_ORIGINATE_TIME
                       in if octets_word o8 \<noteq> fst (sntp_last_timestamp_sent s) \<or>
                             octets_word (drop 4 o8) \<noteq> snd (sntp_last_timestamp_sent s)
                          then (ERR_ARG, (0, 0))
                          else
                            (let r8 = pbuf_copy_partial p 8 SNTP_OFFSET_RECEIVE_TIME
                             in (ERR_OK, (octets_word r8, octets_word (drop 4 r8))))))
              else (ERR_ARG, (0, 0)))
        else (ERR_ARG, (0, 0))
      else (ERR_ARG, (0, 0)))"

definition sntp_recv ::
  "'d mmio \<Rightarrow> 'n lwip \<Rightarrow> pbuf \<Rightarrow> u32 \<Rightarrow> u16 \<Rightarrow> ('d, 'n, 'z) sntpst_scheme \<Rightarrow> ('d, 'n, 'z) sntpst_scheme option" where
  "sntp_recv m L p addr port s =
     (let s = sys_untimeout Sntp_retry 0 s;
          s = sys_untimeout Sntp_request 0 s;
          (err, receive_timestamp) = sntp_check p addr port s;
          s = s\<lparr>net := pbuf_free L p (net s)\<rparr>
      in if err = ERR_OK then
           (let s = s\<lparr>sntp_retry_timeout := SNTP_RETRY_TIMEOUT\<rparr>;
                s = sntp_process m receive_timestamp s
            in sys_timeout SNTP_UPDATE_DELAY Sntp_request 0 s)
         else if err = SNTP_ERR_KOD then sntp_retry s
         else sntp_retry s)"

definition sntp_cleanup :: "'n lwip \<Rightarrow> ('d, 'n, 'z) sntpst_scheme \<Rightarrow> ('d, 'n, 'z) sntpst_scheme" where
  "sntp_cleanup L s =
     (case sntp_pcb s of Some pcb \<Rightarrow> s\<lparr>net := udp_remove L pcb (net s)\<rparr> | None \<Rightarrow> s)"

text \<open>An assertion holds the program when no control block can be allocated.\<close>

definition sntp_init :: "'n lwip \<Rightarrow> ('d, 'n, 'z) sntpst_scheme \<Rightarrow> ('d, 'n, 'z) sntpst_scheme option" where
  "sntp_init L s =
     (let s = s\<lparr>sntp_retry_timeout := SNTP_RETRY_TIMEOUT\<rparr>
      in case udp_new L (net s) of (pcb, n) \<Rightarrow>
           (let s = s\<lparr>sntp_pcb := pcb, net := n\<rparr>
            in case pcb of
                 None \<Rightarrow> None
               | Some pcb \<Rightarrow> sntp_request L (s\<lparr>net := udp_recv L pcb (net s)\<rparr>)))"

section \<open>The checks\<close>

text \<open>A correct response to the last request, read from its octets.\<close>

definition valid_response :: "u8 list \<Rightarrow> u32 \<Rightarrow> u16 \<Rightarrow> ('d, 'n, 'z) sntpst_scheme \<Rightarrow> bool" where
  "valid_response bs addr port s \<longleftrightarrow>
     addr = sntp_last_server_address s \<and> port = 123 \<and> length bs = 48 \<and>
     unat (bs ! 0) mod 8 \<in> {4, 5} \<and> bs ! 1 \<noteq> 0 \<and>
     take 8 (drop 24 bs) =
       le32_bytes (fst (sntp_last_timestamp_sent s)) @ le32_bytes (snd (sntp_last_timestamp_sent s))"

definition be32 :: "u8 list \<Rightarrow> u32" where
  "be32 bs = le32_word (bs ! 3) (bs ! 2) (bs ! 1) (bs ! 0)"

lemma htonl_octets_word: "lwip_ntohl (octets_word bs) = be32 bs"
  by (simp add: lwip_ntohl_def octets_word_def be32_def htonl_word)

lemma octets_word_iff: "length bs = 4 \<Longrightarrow> octets_word bs = w \<longleftrightarrow> bs = le32_bytes w"
proof
  assume "length bs = 4" and w: "octets_word bs = w"
  then have "le32_bytes w = [bs ! 0, bs ! 1, bs ! 2, bs ! 3]" by (simp add: octets_word_def flip: w)
  also have "\<dots> = bs" using \<open>length bs = 4\<close> by (intro nth_equalityI) (auto simp: less_Suc_eq numeral_eq_Suc)
  finally show "bs = le32_bytes w" by simp
qed (simp add: octets_word_def le32_bytes_def)

lemma octets_word_take: "octets_word (take 4 bs) = octets_word bs"
  by (simp add: octets_word_def)

lemma mode_bits: "(b AND 7 = 4 \<or> b AND 7 = 5) \<longleftrightarrow> unat (b :: u8) mod 8 \<in> {4, 5}"
proof -
  have "b AND 7 = take_bit 3 b" by (simp add: take_bit_eq_mask mask_eq_exp_minus_1)
  then have "unat (b AND 7) = unat b mod 8" by (simp add: take_bit_eq_mod unat_mod)
  moreover have "b AND 7 = 4 \<longleftrightarrow> unat (b AND 7) = 4" "b AND 7 = 5 \<longleftrightarrow> unat (b AND 7) = 5"
    by (simp_all add: word_unat_eq_iff)
  ultimately show ?thesis by simp
qed

lemma originate_iff:
  assumes "length bs = 48"
  shows "take 8 (drop 24 bs) = le32_bytes a @ le32_bytes b \<longleftrightarrow>
    octets_word (take 8 (drop 24 bs)) = a \<and> octets_word (drop 4 (take 8 (drop 24 bs))) = b"
proof -
  let ?o = "take 8 (drop 24 bs)"
  have "length (take 4 ?o) = 4" "length (drop 4 ?o) = 4" using assms by simp_all
  note o = octets_word_iff [OF this(1), of a] octets_word_iff [OF this(2), of b]
  have "?o = le32_bytes a @ le32_bytes b \<longleftrightarrow> take 4 ?o = le32_bytes a \<and> drop 4 ?o = le32_bytes b"
    using append_take_drop_id [of 4 ?o] append_eq_append_conv [of "take 4 ?o" "le32_bytes a" "drop 4 ?o" "le32_bytes b"] assms
    by simp
  then show ?thesis using o octets_word_take [of ?o] by simp
qed

lemma sntp_check_valid:
  assumes "length (concat (pbuf_payloads p)) < 65536"
  defines "bs \<equiv> concat (pbuf_payloads p)"
  shows "fst (sntp_check p addr port s) = ERR_OK \<longleftrightarrow> valid_response bs addr port s"
    and "valid_response bs addr port s \<Longrightarrow>
      sntp_check p addr port s = (ERR_OK, (octets_word (drop 32 bs), octets_word (drop 36 bs)))"
proof -
  have len: "tot_len p = of_nat SNTP_MSG_LEN \<longleftrightarrow> length bs = 48"
    using assms by (simp add: tot_len_def word_unat_eq_iff unat_of_nat_small)
  have c: "length bs = 48 \<Longrightarrow> pbuf_copy_partial p 1 0 ! 0 = bs ! 0"
    "length bs = 48 \<Longrightarrow> pbuf_copy_partial p 1 1 ! 0 = bs ! 1" "pbuf_copy_partial p 8 24 = take 8 (drop 24 bs)"
    "pbuf_copy_partial p 8 32 = take 8 (drop 32 bs)"
    by (simp_all add: pbuf_copy_partial_take bs_def)
  have e: "ERR_ARG \<noteq> ERR_OK" "SNTP_ERR_KOD \<noteq> ERR_OK" by (simp_all add: ERR_ARG_def ERR_OK_def SNTP_ERR_KOD_def)
  note defs = sntp_check_def valid_response_def len Let_def SNTP_PORT_def SNTP_MODE_MASK_def SNTP_MODE_SERVER_def
    SNTP_MODE_BROADCAST_def SNTP_STRATUM_KOD_def SNTP_OFFSET_LI_VN_MODE_def SNTP_OFFSET_STRATUM_def
    SNTP_OFFSET_ORIGINATE_TIME_def SNTP_OFFSET_RECEIVE_TIME_def
  show "fst (sntp_check p addr port s) = ERR_OK \<longleftrightarrow> valid_response bs addr port s"
    unfolding defs mode_bits c(3,4) using originate_iff [of bs] c(1,2) e by (auto simp: mode_bits [symmetric])
  assume v: "valid_response bs addr port s"
  have "octets_word (take 8 (drop 32 bs)) = octets_word (drop 32 bs)"
    "octets_word (drop 4 (take 8 (drop 32 bs))) = octets_word (drop 36 bs)"
    by (simp_all add: octets_word_def drop_take)
  then show "sntp_check p addr port s = (ERR_OK, (octets_word (drop 32 bs), octets_word (drop 36 bs)))"
    using v unfolding defs mode_bits c(3,4) using originate_iff [of bs] c(1,2) by (auto simp: mode_bits [symmetric])
qed

section \<open>Timers\<close>

definition sntp_pending :: "('d, 'n, 'z) sntpst_scheme \<Rightarrow> bool" where
  "sntp_pending s \<longleftrightarrow> has_handler (\<lambda>h. h = Sntp_request \<or> h = Sntp_retry) (next_timeout s)"

lemma sys_timeout_pending:
  assumes "length (next_timeout s) < MEMP_NUM_SYS_TIMEOUT" "h = Sntp_request \<or> h = Sntp_retry"
  shows "\<exists>l. sys_timeout ms h 0 s = Some (s\<lparr>next_timeout := l\<rparr>) \<and>
    has_handler (\<lambda>h. h = Sntp_request \<or> h = Sntp_retry) l \<and> length l \<le> MEMP_NUM_SYS_TIMEOUT"
  using assms by (auto simp: sys_timeout_def has_handler_link)

lemma sntp_retry_pending:
  assumes "length (next_timeout s) < MEMP_NUM_SYS_TIMEOUT"
  shows "\<exists>l t. sntp_retry s = Some (s\<lparr>next_timeout := l, sntp_retry_timeout := t\<rparr>) \<and>
    has_handler (\<lambda>h. h = Sntp_request \<or> h = Sntp_retry) l \<and>
    (t = sntp_retry_timeout s \<or> t = push_bit 1 (sntp_retry_timeout s) \<and> t \<le> SNTP_RETRY_TIMEOUT_MAX)"
proof -
  from sys_timeout_pending [OF assms, of Sntp_request "sntp_retry_timeout s"] obtain l where
    1: "sys_timeout (sntp_retry_timeout s) Sntp_request 0 s = Some (s\<lparr>next_timeout := l\<rparr>)"
      "has_handler (\<lambda>h. h = Sntp_request \<or> h = Sntp_retry) l"
    by blast
  let ?n = "push_bit 1 (sntp_retry_timeout s)"
  show ?thesis
  proof (cases "?n \<le> SNTP_RETRY_TIMEOUT_MAX \<and> ?n > sntp_retry_timeout s")
    case True
    then show ?thesis using 1 by (intro exI [of _ l] exI [of _ ?n]) (simp add: sntp_retry_def)
  next
    case False
    then show ?thesis using 1 by (intro exI [of _ l] exI [of _ "sntp_retry_timeout s"]) (auto simp: sntp_retry_def)
  qed
qed

section \<open>Properties\<close>

lemma ntp_set_current_time_value:
  "ntp_set_current_time m secs us s =
     s\<lparr>current_time := ucast secs, hwst := wr m (TIM_TC 3) secs (wr m (TIM_PC 3) (25 * us) (hwst s)), time_valid := 1\<rparr>"
  by (simp add: ntp_set_current_time_def get_last_recorded_time_def set_last_recorded_time_def word_lo_def word_hi_def
      word_pair_def Let_def)

text \<open>
  The clock is set by correct responses only (C23). A response that comes from the server and
  port last asked, has 48 octets, a server or broadcast mode, a stratum other than zero and
  the timestamp of the last request sets the clock to its receive timestamp, counted from
  1970. Any other datagram leaves clock and timer as they are. In both cases a new request is
  scheduled.
\<close>

theorem sntp_recv_sets_clock:
  assumes "length (concat (pbuf_payloads p)) < 65536" and "length (next_timeout s) < MEMP_NUM_SYS_TIMEOUT"
  shows "\<exists>s'. sntp_recv m L p addr port s = Some s' \<and> sntp_pending s' \<and>
    (let bs = concat (pbuf_payloads p); secs = be32 (drop 32 bs) - 2208988800
     in if valid_response bs addr port s
        then current_time s' = ucast secs \<and> time_valid s' = 1 \<and>
          hwst s' = wr m (TIM_TC 3) secs (wr m (TIM_PC 3) (25 * (be32 (drop 36 bs) div 4295)) (hwst s))
        else current_time s' = current_time s \<and> time_valid s' = time_valid s \<and> hwst s' = hwst s)"
proof -
  let ?bs = "concat (pbuf_payloads p)"
  define u where "u = sys_untimeout Sntp_request 0 (sys_untimeout Sntp_retry 0 s)"
  have l: "length (next_timeout u) < MEMP_NUM_SYS_TIMEOUT"
    using assms(2) length_unlink [of Sntp_request 0 "unlink_timeout Sntp_retry 0 (next_timeout s)"]
      length_unlink [of Sntp_retry 0 "next_timeout s"]
    by (simp add: u_def sys_untimeout_def)
  have same: "valid_response ?bs addr port u = valid_response ?bs addr port s" "current_time u = current_time s"
    "time_valid u = time_valid s" "hwst u = hwst s"
    by (simp_all add: u_def sys_untimeout_def valid_response_def)
  let ?v = "u\<lparr>net := pbuf_free L p (net u)\<rparr>"
  show ?thesis
  proof (cases "valid_response ?bs addr port s")
    case True
    then have c: "sntp_check p addr port u = (ERR_OK, (octets_word (drop 32 ?bs), octets_word (drop 36 ?bs)))"
      using sntp_check_valid(2) [OF assms(1), of addr port u] same(1) by simp
    let ?w = "sntp_process m (octets_word (drop 32 ?bs), octets_word (drop 36 ?bs)) (?v\<lparr>sntp_retry_timeout := SNTP_RETRY_TIMEOUT\<rparr>)"
    have w: "?w = ?v\<lparr>sntp_retry_timeout := SNTP_RETRY_TIMEOUT, current_time := ucast (be32 (drop 32 ?bs) - 2208988800),
        hwst := wr m (TIM_TC 3) (be32 (drop 32 ?bs) - 2208988800) (wr m (TIM_PC 3) (25 * (be32 (drop 36 ?bs) div 4295)) (hwst s)),
        time_valid := 1\<rparr>"
      by (simp add: sntp_process_def htonl_octets_word ntp_set_current_time_value DIFF_SEC_1900_1970_def Let_def same)
    have "length (next_timeout ?w) < MEMP_NUM_SYS_TIMEOUT" unfolding w using l by simp
    from sys_timeout_pending [OF this, of Sntp_request SNTP_UPDATE_DELAY] obtain l' where
      1: "sys_timeout SNTP_UPDATE_DELAY Sntp_request 0 ?w = Some (?w\<lparr>next_timeout := l'\<rparr>)"
        "has_handler (\<lambda>h. h = Sntp_request \<or> h = Sntp_retry) l'"
      by blast
    have "sntp_recv m L p addr port s = Some (?w\<lparr>next_timeout := l'\<rparr>)"
      using c 1(1) by (simp add: sntp_recv_def u_def [symmetric])
    then show ?thesis using True 1(2) w by (auto simp: sntp_pending_def Let_def)
  next
    case False
    then have c: "fst (sntp_check p addr port u) \<noteq> ERR_OK"
      using sntp_check_valid(1) [OF assms(1), of addr port u] same(1) by simp
    have "length (next_timeout ?v) < MEMP_NUM_SYS_TIMEOUT" using l by simp
    from sntp_retry_pending [OF this] obtain l' t where
      1: "sntp_retry ?v = Some (?v\<lparr>next_timeout := l', sntp_retry_timeout := t\<rparr>)"
        "has_handler (\<lambda>h. h = Sntp_request \<or> h = Sntp_retry) l'"
      by blast
    have "sntp_recv m L p addr port s = sntp_retry ?v"
      using c by (simp add: sntp_recv_def u_def [symmetric] case_prod_beta)
    then show ?thesis using False 1 same(2-4) by (simp add: sntp_pending_def Let_def)
  qed
qed

definition sample_sntp :: "(rcard, string) sntpst" where
  "sample_sntp = lwipst.extend open_net \<lparr>sntp_pcb = Some 2, sntp_retry_timeout = 3000,
     sntp_last_server_address = 0x0100000A, sntp_last_timestamp_sent = (lwip_htonl 2208988800, 0)\<rparr>"

text \<open>A response in two buffers with the receive time 0xE0000000.80000000.\<close>

definition sample_response :: pbuf where
  "sample_response = \<lparr>pbuf_id = 7, pbuf_payloads = [[0x24, 1] @ replicate 19 0,
     replicate 3 0 @ [0x83, 0xAA, 0x7E, 0x80, 0, 0, 0, 0, 0xE0, 0, 0, 0, 0x80, 0, 0, 0] @ replicate 8 0]\<rparr>"

theorem sntp_recv_sets_clock_witness:
  "\<exists>s'. sntp_recv card_mmio open_stack sample_response 0x0100000A 123 sample_sntp = Some s' \<and>
     current_time s' = 0x5C558180 \<and> time_valid s' = 1 \<and> sntp_pending s'"
proof -
  let ?bs = "concat (pbuf_payloads sample_response)"
  have "length ?bs = 48 \<and> unat (?bs ! 0) mod 8 \<in> {4, 5} \<and> ?bs ! 1 \<noteq> 0 \<and>
      take 8 (drop 24 ?bs) = le32_bytes (lwip_htonl 2208988800) @ le32_bytes 0"
    by code_simp
  then have v: "valid_response ?bs 0x0100000A 123 sample_sntp"
    by (simp add: valid_response_def sample_sntp_def lwipst.defs)
  have b: "be32 (drop 32 ?bs) = 0xE0000000" by code_simp
  have "length ?bs < 65536" by (simp add: sample_response_def)
  moreover have "length (next_timeout sample_sntp) < MEMP_NUM_SYS_TIMEOUT"
    by (simp add: sample_sntp_def lwipst.defs open_net_def gwst.defs MEMP_NUM_SYS_TIMEOUT_def)
  ultimately show ?thesis
    using sntp_recv_sets_clock [of sample_response sample_sntp card_mmio open_stack "0x0100000A" 123] v b
    by (simp add: Let_def) blast
qed

text \<open>
  The microseconds fit the prescaler. The fraction of a second is written to timer 3's
  prescale counter, which counts to 24999999: the value written is always below that, its
  multiplication does not wrap, and it is at most nine microseconds short of the exact
  fraction and never beyond it.
\<close>

theorem sntp_fraction_bounds:
  "unat (25 * (frac div 4295 :: u32)) \<le> 24999800 \<and>
   sntp_process m (secs, lwip_htonl frac) s =
     s\<lparr>current_time := ucast (lwip_ntohl secs - 2208988800),
       hwst := wr m (TIM_TC 3) (lwip_ntohl secs - 2208988800) (wr m (TIM_PC 3) (25 * (frac div 4295)) (hwst s)), time_valid := 1\<rparr> \<and>
   unat (frac div 4295) * 2 ^ 32 \<le> unat frac * 1000000 \<and> unat frac * 1000000 < (unat (frac div 4295) + 9) * 2 ^ 32"
proof -
  let ?f = "unat frac" let ?q = "unat frac div 4295"
  have q: "unat (frac div 4295) = ?q" by (simp add: unat_div)
  have "?f \<le> 4294967295" using unat_u32_lt [of frac] by linarith
  then have "?q \<le> 4294967295 div 4295" by (rule div_le_mono)
  then have "?q < 999993" by simp
  then have "unat (25 * (frac div 4295)) = 25 * ?q" "25 * ?q \<le> 24999800"
    using q unat_mult_lem [of 25 "frac div 4295"] by simp_all
  moreover have "4295 * ?q \<le> ?f" "?f < 4295 * ?q + 4295"
    using div_mult_mod_eq [of ?f 4295] mod_less_divisor [of 4295 ?f] by linarith+
  then have "?q * 4294967296 \<le> ?f * 1000000" "?f * 1000000 < ?q * 4294967296 + 9 * 4294967296"
    using \<open>?q < 999993\<close> by linarith+
  then have "?q * 4294967296 \<le> ?f * 1000000" "?f * 1000000 < (?q + 9) * 4294967296" by (simp_all only: distrib_right)
  ultimately show ?thesis
    unfolding q
    by (simp add: sntp_process_def ntp_set_current_time_value lwip_ntohl_def lwip_htonl_twice DIFF_SEC_1900_1970_def Let_def)
qed

section \<open>Runs of the client\<close>

text \<open>
  The client starts with \<open>sntp_init\<close>; then its functions are called by the stack in any order and
  with any arguments, and other code changes what is not the client's.
\<close>

inductive sntp_reach :: "'d mmio \<Rightarrow> 'n lwip \<Rightarrow> ('d, 'n, 'z) sntpst_scheme \<Rightarrow> bool" for m L where
  init: "sntp_init L s = Some s' \<Longrightarrow> sntp_reach m L s'"
| recv: "sntp_reach m L s \<Longrightarrow> sntp_recv m L p addr port s = Some s' \<Longrightarrow> sntp_reach m L s'"
| found: "sntp_reach m L s \<Longrightarrow> sntp_dns_found L ipaddr s = Some s' \<Longrightarrow> sntp_reach m L s'"
| request: "sntp_reach m L s \<Longrightarrow> sntp_request L s = Some s' \<Longrightarrow> sntp_reach m L s'"
| retry: "sntp_reach m L s \<Longrightarrow> sntp_retry s = Some s' \<Longrightarrow> sntp_reach m L s'"
| cleanup: "sntp_reach m L s \<Longrightarrow> sntp_reach m L (sntp_cleanup L s)"
| other: "sntp_reach m L s \<Longrightarrow> sntp_pcb s' = sntp_pcb s \<Longrightarrow> sntp_retry_timeout s' = sntp_retry_timeout s \<Longrightarrow>
    sntp_last_server_address s' = sntp_last_server_address s \<Longrightarrow>
    sntp_last_timestamp_sent s' = sntp_last_timestamp_sent s \<Longrightarrow> sntp_reach m L s'"

definition retry_times :: "u32 set" where "retry_times = {3000, 6000, 12000, 24000}"

lemma sys_timeout_keeps: "sys_timeout ms h a s = Some s' \<Longrightarrow> \<exists>l. s' = s\<lparr>next_timeout := l\<rparr>"
  by (auto simp: sys_timeout_def split: if_splits)

lemma sntp_retry_times:
  assumes "sntp_retry s = Some s'" "sntp_retry_timeout s \<in> retry_times"
  shows "sntp_retry_timeout s' \<in> retry_times"
proof -
  from assms(1) have "length (next_timeout s) < MEMP_NUM_SYS_TIMEOUT" by (auto simp: sntp_retry_def sys_timeout_def split: if_splits)
  from sntp_retry_pending [OF this] assms(1) obtain t where
    "sntp_retry_timeout s' = t" "t = sntp_retry_timeout s \<or> t = push_bit 1 (sntp_retry_timeout s) \<and> t \<le> SNTP_RETRY_TIMEOUT_MAX"
    by auto
  then show ?thesis
    using assms(2) by (auto simp: retry_times_def SNTP_RETRY_TIMEOUT_MAX_def SNTP_RETRY_TIMEOUT_def SNTP_RECV_TIMEOUT_def)
qed

lemma sntp_send_request_times: "sntp_send_request L a s = Some s' \<Longrightarrow> sntp_retry_timeout s' = sntp_retry_timeout s"
  by (auto simp: sntp_send_request_def sntp_initialize_request_def Let_def SNTP_GET_SYSTEM_TIME_def
      split: prod.splits option.splits bind_splits dest!: sys_timeout_keeps)

lemma sntp_request_times: "sntp_request L s = Some s' \<Longrightarrow> sntp_retry_timeout s' = sntp_retry_timeout s"
  by (auto simp: sntp_request_def Let_def split: prod.splits if_splits dest!: sys_timeout_keeps dest: sntp_send_request_times)

lemma sntp_recv_times:
  assumes "sntp_recv m L p addr port s = Some s'" "sntp_retry_timeout s \<in> retry_times"
  shows "sntp_retry_timeout s' \<in> retry_times"
proof -
  let ?v = "(sys_untimeout Sntp_request 0 (sys_untimeout Sntp_retry 0 s))\<lparr>net := pbuf_free L p (net s)\<rparr>"
  from assms(1) consider
    (ok) r where "sys_timeout SNTP_UPDATE_DELAY Sntp_request 0 (sntp_process m r (?v\<lparr>sntp_retry_timeout := SNTP_RETRY_TIMEOUT\<rparr>)) = Some s'"
    | (err) "sntp_retry ?v = Some s'"
    by (auto simp: sntp_recv_def sys_untimeout_def Let_def split: prod.splits if_splits)
  then show ?thesis
  proof cases
    case ok
    then have "sntp_retry_timeout s' = SNTP_RETRY_TIMEOUT"
      by (auto simp: sntp_process_def ntp_set_current_time_value Let_def dest!: sys_timeout_keeps)
    then show ?thesis by (simp add: retry_times_def SNTP_RETRY_TIMEOUT_def SNTP_RECV_TIMEOUT_def)
  next
    case err
    then show ?thesis using assms(2) by (intro sntp_retry_times [OF err]) (simp add: sys_untimeout_def)
  qed
qed

lemma sntp_init_times: "sntp_init L s = Some s' \<Longrightarrow> sntp_retry_timeout s' = 3000"
  by (auto simp: sntp_init_def Let_def SNTP_RETRY_TIMEOUT_def SNTP_RECV_TIMEOUT_def split: prod.splits option.splits
      dest!: sntp_request_times)



text \<open>Every request carries the same timestamp, so that a response to an older one is not told apart.\<close>

lemma sntp_timestamp_constant:
  "snd (sntp_initialize_request s) = s\<lparr>sntp_last_timestamp_sent := (lwip_htonl 2208988800, lwip_htonl 0)\<rparr>"
  by (simp add: sntp_initialize_request_def SNTP_GET_SYSTEM_TIME_def DIFF_SEC_1900_1970_def Let_def)

text \<open>
  After \<open>sntp_cleanup\<close> the removed control block is still in \<open>sntp_pcb\<close> and the timeouts are still
  pending, so that the next request is sent through it.
\<close>

lemma sntp_cleanup_keeps:
  "sntp_pcb (sntp_cleanup L s) = sntp_pcb s" "next_timeout (sntp_cleanup L s) = next_timeout s"
  by (simp_all add: sntp_cleanup_def split: option.splits)

end
