(* ===== verification/Base64.thy ===== *)
theory Base64
  imports Gw_Prelude
begin

text \<open>
  The Base64 encoder of \<open>src/src/base64.c\<close>, which prints the HTTP basic authorization
  string. The output buffer is modelled by the text written so far; \<open>char_array_3\<close> is
  modelled by its filled prefix, whose length is the code's counter \<open>i\<close>.
\<close>

section \<open>The code\<close>

definition base64_chars :: string where
  "base64_chars = ''ABCDEFGHIJKLMNOPQRSTUVWXYZabcdefghijklmnopqrstuvwxyz0123456789+/''"

text \<open>The four assignments to \<open>char_array_4\<close> from a full \<open>char_array_3\<close>.\<close>

definition char_array_4 :: "u8 \<Rightarrow> u8 \<Rightarrow> u8 \<Rightarrow> u8 list" where
  "char_array_4 a b c =
     [drop_bit 2 (a AND 0xfc),
      push_bit 4 (a AND 0x03) + drop_bit 4 (b AND 0xf0),
      push_bit 2 (b AND 0x0f) + drop_bit 6 (c AND 0xc0),
      c AND 0x3f]"

definition base64_out :: "u8 list \<Rightarrow> string" where
  "base64_out vs = map (\<lambda>v. base64_chars ! unat v) vs"

text \<open>The \<open>while (length--)\<close> loop: remaining input, filled part of \<open>char_array_3\<close>, output.\<close>

fun base64_loop :: "u8 list \<Rightarrow> u8 list \<Rightarrow> string \<Rightarrow> u8 list \<times> string" where
  "base64_loop [] arr output = (arr, output)"
| "base64_loop (x # input) arr output =
     (case arr @ [x] of
        [a, b, c] \<Rightarrow> base64_loop input [] (output @ base64_out (char_array_4 a b c))
      | arr' \<Rightarrow> base64_loop input arr' output)"

text \<open>The one or two trailing characters, zero filled, and the padding.\<close>

definition base64_tail :: "u8 list \<Rightarrow> string \<Rightarrow> string" where
  "base64_tail arr output =
     (if arr \<noteq> [] then
        (let i = length arr;
             full = arr @ replicate (3 - i) 0
         in output @ base64_out (take (i + 1) (char_array_4 (full ! 0) (full ! 1) (full ! 2)))
              @ replicate (3 - i) CHR ''='')
      else output)"

definition base64_text :: "u8 list \<Rightarrow> string" where
  "base64_text input = (case base64_loop input [] [] of (arr, output) \<Rightarrow> base64_tail arr output)"

text \<open>The text written (a null terminator follows it) and the returned 16-bit count.\<close>

definition base64_encode :: "u8 list \<Rightarrow> string \<times> u16" where
  "base64_encode input = (base64_text input, of_nat (length (base64_text input)))"

section \<open>Decoding\<close>

definition b64_val :: "char \<Rightarrow> u8" where
  "b64_val ch = of_nat (length (takeWhile (\<lambda>d. d \<noteq> ch) base64_chars))"

definition sextets3 :: "u8 \<Rightarrow> u8 \<Rightarrow> u8 \<Rightarrow> u8 \<Rightarrow> u8 list" where
  "sextets3 w x y z =
     [push_bit 2 w OR drop_bit 4 x, push_bit 4 x OR drop_bit 2 y, push_bit 6 y OR z]"

fun base64_decode :: "string \<Rightarrow> u8 list" where
  "base64_decode (w # x # y # z # cs) =
     (if z = CHR ''='' then
        take (if y = CHR ''='' then 1 else 2)
          (sextets3 (b64_val w) (b64_val x) (if y = CHR ''='' then 0 else b64_val y) 0)
      else sextets3 (b64_val w) (b64_val x) (b64_val y) (b64_val z) @ base64_decode cs)"
| "base64_decode _ = []"

lemma less_8_cases: "n < 8 \<Longrightarrow> n = 0 \<or> n = 1 \<or> n = 2 \<or> n = 3 \<or> n = 4 \<or> n = 5 \<or> n = 6 \<or> n = (7::nat)"
  by auto

lemma char_array_4_or:
  "char_array_4 a b c =
     [drop_bit 2 (a AND 0xfc),
      push_bit 4 (a AND 0x03) OR drop_bit 4 (b AND 0xf0),
      push_bit 2 (b AND 0x0f) OR drop_bit 6 (c AND 0xc0),
      c AND 0x3f]"
proof -
  have "push_bit 4 (a AND 0x03) + drop_bit 4 (b AND 0xf0) = push_bit 4 (a AND 0x03) OR drop_bit 4 (b AND 0xf0)"
    by (rule disjunctive_add_eq_or, rule bit_word_eqI) (auto simp: bit_simps dest!: less_8_cases)
  moreover have "push_bit 2 (b AND 0x0f) + drop_bit 6 (c AND 0xc0) = push_bit 2 (b AND 0x0f) OR drop_bit 6 (c AND 0xc0)"
    by (rule disjunctive_add_eq_or, rule bit_word_eqI) (auto simp: bit_simps dest!: less_8_cases)
  ultimately show ?thesis by (simp add: char_array_4_def)
qed

lemma char_array_4_lt64: "v \<in> set (char_array_4 a b c) \<Longrightarrow> unat v < 64"
proof -
  assume "v \<in> set (char_array_4 a b c)"
  then have "take_bit 6 v = v"
    by (auto simp: char_array_4_or bit_simps intro!: bit_word_eqI dest!: less_8_cases)
  then show ?thesis
    using take_bit_nat_less_exp [of 6 "unat v"] unsigned_take_bit_eq [of 6 v, where 'a = nat] by simp
qed

lemma sextets3_char_array_4:
  "char_array_4 a b c = [w, x, y, z] \<Longrightarrow> sextets3 w x y z = [a, b, c]"
  by (auto simp: char_array_4_or sextets3_def bit_simps intro!: bit_word_eqI dest!: less_8_cases)
    (simp_all add: numeral_2_eq_2 numeral_3_eq_3)

lemma distinct_base64_chars: "distinct base64_chars"
  by (simp add: base64_chars_def)

lemma takeWhile_nth: "distinct xs \<Longrightarrow> n < length xs \<Longrightarrow> length (takeWhile (\<lambda>d. d \<noteq> xs ! n) xs) = n"
  by (induction xs arbitrary: n) (auto simp: nth_Cons split: nat.splits)

lemma length_base64_chars: "length base64_chars = 64"
  by (simp add: base64_chars_def)

lemma b64_val_nth: "unat v < 64 \<Longrightarrow> b64_val (base64_chars ! unat v) = v"
  by (simp add: b64_val_def takeWhile_nth distinct_base64_chars length_base64_chars)

lemma base64_chars_not_pad: "unat v < 64 \<Longrightarrow> base64_chars ! unat v \<noteq> CHR ''=''"
proof -
  have "CHR ''='' \<notin> set base64_chars" by (simp add: base64_chars_def)
  then show "unat v < 64 \<Longrightarrow> ?thesis" by (metis length_base64_chars nth_mem)
qed

fun base64_spec :: "u8 list \<Rightarrow> string" where
  "base64_spec (a # b # c # xs) = base64_out (char_array_4 a b c) @ base64_spec xs"
| "base64_spec [a, b] = base64_out (take 3 (char_array_4 a b 0)) @ ''=''"
| "base64_spec [a] = base64_out (take 2 (char_array_4 a 0 0)) @ ''==''"
| "base64_spec [] = []"

lemma base64_loop_out:
  "base64_loop xs arr out = (fst (base64_loop xs arr []), out @ snd (base64_loop xs arr []))"
proof (induction xs arbitrary: arr out)
  case (Cons x xs)
  show ?case
  proof (cases "\<exists>a b c. arr @ [x] = [a, b, c]")
    case True
    then obtain a b where arr: "arr = [a, b]" by (auto simp: append_eq_Cons_conv Cons_eq_append_conv)
    let ?g = "base64_out (char_array_4 a b x)"
    show ?thesis
      using Cons.IH [of "[]" "out @ ?g"] Cons.IH [of "[]" ?g] by (simp add: arr)
  next
    case False
    then have "base64_loop (x # xs) arr p = base64_loop xs (arr @ [x]) p" for p
      by (auto split: list.splits)
    then show ?thesis using Cons.IH [of "arr @ [x]" out] by simp
  qed
qed simp

lemma base64_text_spec: "base64_text xs = base64_spec xs"
proof (induction xs rule: base64_spec.induct)
  case (1 a b c xs)
  have "base64_tail arr (g @ out) = g @ base64_tail arr out" for arr g out
    by (simp add: base64_tail_def Let_def)
  with 1 base64_loop_out [of xs "[]" "base64_out (char_array_4 a b c)"] show ?case
    by (simp add: base64_text_def split: prod.splits)
qed (simp_all add: base64_text_def base64_tail_def base64_out_def char_array_4_def numeral_2_eq_2)

lemma base64_out_4:
  obtains w x y z where "char_array_4 a b c = [w, x, y, z]"
    "base64_out (char_array_4 a b c) = map (\<lambda>v. base64_chars ! unat v) [w, x, y, z]"
    "unat w < 64" "unat x < 64" "unat y < 64" "unat z < 64"
  using char_array_4_lt64 [of _ a b c] by (auto simp: char_array_4_def base64_out_def)

lemma base64_decode_spec: "base64_decode (base64_spec xs) = xs"
proof (induction xs rule: base64_spec.induct)
  case (1 a b c xs)
  obtain w x y z where g: "char_array_4 a b c = [w, x, y, z]"
    "base64_out (char_array_4 a b c) = map (\<lambda>v. base64_chars ! unat v) [w, x, y, z]"
    "unat w < 64" "unat x < 64" "unat y < 64" "unat z < 64"
    by (rule base64_out_4)
  with 1 show ?case
    by (simp add: b64_val_nth base64_chars_not_pad sextets3_char_array_4)
next
  case (2 a b)
  obtain w x y z where g: "char_array_4 a b 0 = [w, x, y, z]"
    "base64_out (char_array_4 a b 0) = map (\<lambda>v. base64_chars ! unat v) [w, x, y, z]"
    "unat w < 64" "unat x < 64" "unat y < 64" "unat z < 64"
    by (rule base64_out_4)
  then have "z = 0" by (simp add: char_array_4_def)
  with g show ?case
    using sextets3_char_array_4 [OF g(1)]
    by (simp add: base64_out_def b64_val_nth base64_chars_not_pad)
next
  case (3 a)
  obtain w x y z where g: "char_array_4 a 0 0 = [w, x, y, z]"
    "base64_out (char_array_4 a 0 0) = map (\<lambda>v. base64_chars ! unat v) [w, x, y, z]"
    "unat w < 64" "unat x < 64" "unat y < 64" "unat z < 64"
    by (rule base64_out_4)
  then have "z = 0" "y = 0" by (simp_all add: char_array_4_def)
  with g show ?case
    using sextets3_char_array_4 [OF g(1)]
    by (simp add: base64_out_def b64_val_nth base64_chars_not_pad)
qed simp

lemma length_base64_spec: "length (base64_spec xs) = 4 * ((length xs + 2) div 3)"
  by (induction xs rule: base64_spec.induct)
    (simp_all add: base64_out_def char_array_4_def, presburger)


end
