(* ===== verification/Http_Tx.thy ===== *)
theory Http_Tx
  imports Stdio Base64
begin

text \<open>
  The HTTP request and JSON printers of \<open>src/src/http_tx.c\<close>. Every function returns the
  text it writes into the output buffer; the C return value is the length of that text. The
  lemmas show that every record is printed in exactly 180 characters, that the announced
  Content-Length is the length of the body that follows, and what the printed gain means.
\<close>

section \<open>The code\<close>

definition JSON_OVERHEAD_CHARS :: int where "JSON_OVERHEAD_CHARS = 11"
definition JSON_RECORD_CHARS :: int where "JSON_RECORD_CHARS = 180"

text \<open>The \<open>switch(mic_gain)\<close> on the two-bit microphone boost.\<close>

definition mic_gain_db :: "u16 \<Rightarrow> u16" where
  "mic_gain_db mic_gain =
     (if mic_gain = 0 then 33
      else if mic_gain = 1 then 28
      else if mic_gain = 2 then 18
      else if mic_gain = 3 then 13
      else mic_gain)"

text \<open>The text of the PGA gain; \<open>pga_gain_int\<close> is the 16-bit signed difference.\<close>

definition pga_gain_text :: "u16 \<Rightarrow> string" where
  "pga_gain_text pga_gain =
     (let pga_gain_lsb = pga_gain AND 1 in
      if pga_gain = 0 then ''null''
      else
        let pga_gain_int = sint (drop_bit 1 pga_gain - 97) in
        fmt_d pga_gain_int @ (if pga_gain_lsb = 0 then ''.5'' else []))"

definition sprintf_em_channel :: "u16 \<Rightarrow> u32 \<Rightarrow> string" where
  "sprintf_em_channel flags val =
     (let target_freq = drop_bit 10 flags AND 0x3F;
          mic_gain = mic_gain_db (drop_bit 8 flags AND 0x3);
          pga_gain = flags AND 0xFF
      in ''{\"target_freq\":'' @ fmt_u (unat target_freq) @ '',\"mic_gain\":'' @
         fmt_u (unat mic_gain) @ '',\"pga_gain\":'' @
         pga_gain_text pga_gain @
         '',\"value\":'' @ fmt_u (unat val) @ ''}'')"

definition sprintf_em :: "u32 \<Rightarrow> u32 \<Rightarrow> u32 \<Rightarrow> string" where
  "sprintf_em flags left right =
     ''\"left\":'' @ sprintf_em_channel (ucast (drop_bit 16 flags)) left @
     '',\"right\":'' @ sprintf_em_channel (ucast flags) right"

definition sprintf_battery :: "u32 \<Rightarrow> string" where
  "sprintf_battery val = ''\"battery\":{\"value\":'' @ fmt_u (unat val) @ ''}''"

definition sprintf_rssi :: "u32 \<Rightarrow> string" where
  "sprintf_rssi val = ''\"rssi\":{\"value\":'' @ fmt_u (unat val) @ ''}''"

definition sprintf_envelope :: "u32 \<Rightarrow> u32 \<Rightarrow> string" where
  "sprintf_envelope left right =
     ''\"left_envelope\":{\"value\":'' @ fmt_u (unat left) @ ''}'' @
     '',\"right_envelope\":{\"value\":'' @ fmt_u (unat right) @ ''}''"

text \<open>The 32-bit \<open>content_len\<close> of \<open>http_header\<close>; the sum is formed in \<open>int\<close>.\<close>

definition content_len :: "u16 \<Rightarrow> u32" where
  "content_len records_count =
     of_int (JSON_OVERHEAD_CHARS + uint records_count * JSON_RECORD_CHARS + (uint records_count - 1))"

text \<open>
  \<open>server_tcp_print_hostname\<close> prints the host of the connection, passed here as an argument;
  \<open>auth\<close> is \<open>None\<close> for the null pointer.
\<close>

definition http_header :: "string \<Rightarrow> string option \<Rightarrow> u16 \<Rightarrow> string" where
  "http_header host auth records_count =
     ''POST /vlf_fft/_bulk_docs HTTP/1.1'' @ [CHR 0x0D, CHR 0x0A] @ ''Host: '' @
     host @
     [CHR 0x0D, CHR 0x0A] @ ''Content-Length: '' @ fmt_d (sint (content_len records_count)) @
     [CHR 0x0D, CHR 0x0A] @
     (case auth of None \<Rightarrow> []
      | Some a \<Rightarrow> ''Authorization: Basic '' @ fst (base64_encode (map of_char a)) @ [CHR 0x0D, CHR 0x0A]) @
     ''Content-Type: application/json'' @ [CHR 0x0D, CHR 0x0A] @
     [CHR 0x0D, CHR 0x0A]"

definition json_header :: string where
  "json_header = ''{\"docs\":[''"

text \<open>The members printed between the braces; \<open>None\<close> is the null pointer.\<close>

definition json_members :: "u32 list option \<Rightarrow> string" where
  "json_members binary_data =
     (case binary_data of None \<Rightarrow> []
      | Some d \<Rightarrow>
          ''\"time\":\"'' @ fmt_x (unat (d ! 2)) @ fmt_08x (unat (d ! 1)) @ ''\",'' @
          (let record_type = drop_bit 26 (d ! 0) AND 0x3F in
           if record_type = 60 then sprintf_battery (d ! 3)
           else if record_type = 61 then sprintf_rssi (d ! 3)
           else if record_type = 63 then sprintf_envelope (d ! 3) (d ! 4)
           else sprintf_em (d ! 0) (d ! 3) (d ! 4)))"

text \<open>The padding loop fills with blanks up to \<open>JSON_RECORD_CHARS - 1\<close>.\<close>

function json_pad :: "string \<Rightarrow> string" where
  "json_pad s =
     (if int (length s) < JSON_RECORD_CHARS - 1 then json_pad (s @ '' '') else s)"
  by pat_completeness auto
termination
  by (relation "measure (\<lambda>s. 179 - length s)") (auto simp: JSON_RECORD_CHARS_def)

definition json_element :: "u32 list option \<Rightarrow> bool \<Rightarrow> string" where
  "json_element binary_data comma =
     json_pad (''{'' @ json_members binary_data) @ ''}'' @ (if comma then '','' else [])"

definition json_footer :: string where
  "json_footer = '']}''"

lemma sint_minus_97:
  assumes "uint (w :: u16) \<le> 127"
  shows "sint (w - 97) = uint w - 97"
proof -
  have "w - 97 = of_int (uint w - 97)" by simp
  then have "sint (w - 97) = signed_take_bit 15 (uint w - 97)"
    by (simp only: signed_of_int) simp
  also have "\<dots> = uint w - 97"
    using assms uint_ge_0 [of w] by (intro signed_take_bit_int_eq_self) simp_all
  finally show ?thesis .
qed

lemma and_255_lt: "uint (f AND 0xFF :: u16) < 256"
  using word_and_le1 [of f 255] by (simp add: word_le_def)

lemma uint_drop_1: "uint (drop_bit 1 (w :: u16)) = uint w div 2"
  by (simp add: drop_bit_eq_div uint_div)

lemma pga_gain_int:
  assumes "uint pga < 256"
  shows "sint (drop_bit 1 pga - 97 :: u16) = uint pga div 2 - 97"
proof -
  from assms have "uint (drop_bit 1 pga) \<le> 127" by (simp only: uint_drop_1)
  then show ?thesis by (simp only: sint_minus_97 uint_drop_1)
qed

lemma length_fmt_u2: "n < 100 \<Longrightarrow> length (fmt_u n) \<le> 2"
  using length_fmt_u [of n 1] by simp

lemma length_fmt_d:
  assumes "-100 < i" and "i < 100"
  shows "length (fmt_d i) \<le> 3"
proof -
  have "length (fmt_u (nat \<bar>i\<bar>)) \<le> 2"
    using assms by (intro length_fmt_u2) simp
  then show ?thesis by (auto simp: fmt_d_def)
qed

lemma length_pga_gain_text:
  assumes "uint pga < 256" shows "length (pga_gain_text pga) \<le> 5"
proof -
  have "length (fmt_d (sint (drop_bit 1 pga - 97))) \<le> 3"
    unfolding pga_gain_int [OF assms] using assms uint_ge_0 [of pga] by (intro length_fmt_d) linarith+
  then show ?thesis by (simp add: pga_gain_text_def Let_def)
qed

lemma and_63_lt: "unat (f AND 0x3F :: u16) < 64"
  by (rule le_less_trans [OF word_and_le1 [THEN word_le_nat_alt [THEN iffD1]]]) simp

lemma length_mic_gain: "length (fmt_u (unat (mic_gain_db (f AND 0x3)))) \<le> 2"
proof -
  have "unat (f AND 0x3 :: u16) \<le> 3"
    using word_and_le1 [of f 3] by (simp add: word_le_nat_alt)
  then have "unat (mic_gain_db (f AND 0x3)) < 100"
    by (auto simp: mic_gain_db_def)
  then show ?thesis by (intro length_fmt_u2) simp
qed

lemma length_sprintf_em_channel: "length (sprintf_em_channel flags v) \<le> 68"
proof -
  have "length (fmt_u (unat (drop_bit 10 flags AND 0x3F))) \<le> 2"
    using and_63_lt [of "drop_bit 10 flags"] by (intro length_fmt_u2) simp
  then show ?thesis
    using length_mic_gain [of "drop_bit 8 flags"] length_fmt_u32 [of v]
      length_pga_gain_text [OF and_255_lt [of flags]]
    unfolding sprintf_em_channel_def Let_def by simp
qed

lemma length_json_members: "length (json_members d) \<le> 178"
proof (cases d)
  case (Some ws)
  have em: "length (sprintf_em f l r) \<le> 152" for f l r
    using length_sprintf_em_channel [of "ucast (drop_bit 16 f)" l] length_sprintf_em_channel [of "ucast f" r]
    by (simp add: sprintf_em_def)
  have "length (sprintf_battery v) \<le> 152" "length (sprintf_rssi v) \<le> 152" for v
    using length_fmt_u32 [of v] by (simp_all add: sprintf_battery_def sprintf_rssi_def)
  moreover have "length (sprintf_envelope l r) \<le> 152" for l r
    using length_fmt_u32 [of l] length_fmt_u32 [of r] by (simp add: sprintf_envelope_def)
  moreover have "length (fmt_x (unat (ws ! 2))) \<le> 8" by (rule length_fmt_x32)
  moreover have "length (json_members d) = 26 - 8 + length (fmt_x (unat (ws ! 2))) +
      length (let record_type = drop_bit 26 (ws ! 0) AND 0x3F in
           if record_type = 60 then sprintf_battery (ws ! 3)
           else if record_type = 61 then sprintf_rssi (ws ! 3)
           else if record_type = 63 then sprintf_envelope (ws ! 3) (ws ! 4)
           else sprintf_em (ws ! 0) (ws ! 3) (ws ! 4))" (is "_ = _ + _ + length ?body")
    by (simp add: Some json_members_def length_fmt_08x)
  moreover have "length ?body \<le> 152"
    using calculation em by (simp add: Let_def)
  ultimately show ?thesis by linarith
qed (simp add: json_members_def)

declare json_pad.simps [simp del]

lemma length_json_pad: "length (json_pad s) = max 179 (length s)"
  by (induction s rule: json_pad.induct) (subst json_pad.simps, simp add: JSON_RECORD_CHARS_def)

lemma length_json_element: "length (json_element d comma) = (if comma then 181 else 180)"
  using length_json_members [of d] by (simp add: json_element_def length_json_pad)

text \<open>
  Whatever the record holds, and also when reading it failed, its JSON element takes
  exactly JSON_RECORD_CHARS characters, plus one for the separating comma; it starts with an
  opening brace and the brace that closes it is in the last of the 180 columns.
\<close>
theorem json_element_length:
  "length (json_element binary_data comma) = nat JSON_RECORD_CHARS + (if comma then 1 else 0) \<and>
   json_element binary_data comma ! 0 = CHR ''{'' \<and>
   json_element binary_data comma ! (nat JSON_RECORD_CHARS - 1) = CHR ''}''"
proof -
  have "json_pad s ! 0 = s ! 0" if "s \<noteq> []" for s
    using that by (induction s rule: json_pad.induct) (subst json_pad.simps, simp add: nth_append)
  moreover have "length (json_pad (''{'' @ json_members binary_data)) = 179"
    using length_json_members [of binary_data] by (simp add: length_json_pad)
  ultimately show ?thesis
    by (simp add: length_json_element JSON_RECORD_CHARS_def) (simp add: json_element_def nth_append)
qed

section \<open>The request as a whole\<close>

text \<open>The body the connection sends for a sequence of records: the specification of the output.\<close>

fun json_elements :: "u32 list option list \<Rightarrow> string" where
  "json_elements [] = []"
| "json_elements [d] = json_element d False"
| "json_elements (d # ds) = json_element d True @ json_elements ds"

definition request_body :: "u32 list option list \<Rightarrow> string" where
  "request_body ds = json_header @ json_elements ds @ json_footer"

lemma length_json_elements:
  "ds \<noteq> [] \<Longrightarrow> length (json_elements ds) = 181 * length ds - 1"
  by (induction ds rule: json_elements.induct) (simp_all add: length_json_element)

lemma length_request_body:
  "ds \<noteq> [] \<Longrightarrow> length (request_body ds) = 181 * length ds + 10"
  by (cases ds) (simp_all add: request_body_def length_json_elements json_header_def json_footer_def)

lemma content_len_value: "sint (content_len n) = 181 * uint n + 10"
proof -
  have "uint n < 65536" using uint_lt2p [of n] by simp
  then have "signed_take_bit 31 (181 * uint n + 10) = 181 * uint n + 10"
    using uint_ge_0 [of n] by (intro signed_take_bit_int_eq_self) simp_all
  moreover have "content_len n = of_int (181 * uint n + 10)"
    unfolding content_len_def JSON_OVERHEAD_CHARS_def JSON_RECORD_CHARS_def
    by (rule arg_cong [where f = of_int]) simp
  ultimately show ?thesis by (simp only: signed_of_int) simp
qed

text \<open>
  (C27) The Content-Length the header announces is the number of characters of the body the
  connection then sends for that many records.
\<close>
theorem http_header_content_length:
  assumes "ds \<noteq> []" and "length ds < 65536"
  shows "\<exists>pre post. http_header host auth (of_nat (length ds)) =
    pre @ ''Content-Length: '' @ fmt_u (length (request_body ds)) @ [CHR 0x0D, CHR 0x0A] @ post"
proof -
  have "uint (of_nat (length ds) :: u16) = int (length ds)"
    using assms(2) by (simp add: uint_word_of_int_eq unsigned_of_nat take_bit_eq_mod)
  then have "fmt_d (sint (content_len (of_nat (length ds)))) = fmt_u (length (request_body ds))"
    using assms(1) by (simp add: content_len_value fmt_d_def length_request_body nat_add_distrib nat_mult_distrib)
  then show ?thesis
    unfolding http_header_def by (metis append_assoc)
qed

theorem http_header_content_length_witness:
  "\<exists>pre post. http_header ''192.168.1.8'' None 2 =
    pre @ ''Content-Length: '' @ fmt_u (length (request_body [None, None])) @ [CHR 0x0D, CHR 0x0A] @ post"
  using http_header_content_length [of "[None, None]" "''192.168.1.8''" None] by simp

definition auth_chars :: "string option \<Rightarrow> nat" where
  "auth_chars auth = (case auth of None \<Rightarrow> 0 | Some a \<Rightarrow> 23 + 4 * ((length a + 2) div 3))"

lemma block_lengths:
  assumes "length host + auth_chars auth \<le> 296"
  shows "length (http_header host auth n) < 400 \<and> length json_header < 400 \<and>
    length (json_element d comma) < 400 \<and> length json_footer < 400"
proof -
  have "uint n < 65536" "\<not> 181 * uint n + 10 < 0"
    using uint_lt2p [of n] uint_ge_0 [of n] by (simp, linarith)
  then have "length (fmt_u (nat (181 * uint n + 10))) \<le> 8"
    by (intro length_fmt_u [of _ 7, simplified]) linarith
  with \<open>\<not> 181 * uint n + 10 < 0\<close> have "length (fmt_d (sint (content_len n))) \<le> 8"
    by (simp add: content_len_value fmt_d_def)
  moreover have "length (fst (base64_encode bs)) = 4 * ((length bs + 2) div 3)" for bs
    by (simp add: base64_encode_def base64_text_spec length_base64_spec)
  ultimately show ?thesis
    using assms
    by (auto simp: http_header_def auth_chars_def json_header_def json_footer_def length_json_element
        split: option.splits)
qed

text \<open>
  Every block printed into the 400-character output buffer fits it together with its
  null terminator: record elements, the JSON frame, and the HTTP header as long as host name
  and credentials leave room for it.
\<close>
theorem output_buffer_bounds:
  assumes "length host + auth_chars auth \<le> 296"
  shows "length (http_header host auth n) < 400 \<and> length json_header < 400 \<and>
    length (json_element d comma) < 400 \<and> length json_footer < 400"
  using block_lengths [OF assms] .

theorem output_buffer_bounds_witness:
  "length (http_header ''192.168.1.8'' None 1000) < 400 \<and> length json_header < 400 \<and>
    length (json_element None True) < 400 \<and> length json_footer < 400"
  by (rule output_buffer_bounds) (simp add: auth_chars_def)

section \<open>The printed gain\<close>

text \<open>
  The number a reader of the JSON text sees, in half decibels: an optional sign, decimal
  digits and an optional \<open>.5\<close>.
\<close>

definition read_half_db :: "string \<Rightarrow> int" where
  "read_half_db s =
     (let neg = (s \<noteq> [] \<and> hd s = CHR ''-'');
          t = (if neg then tl s else s);
          m = 2 * int (read_u (takeWhile is_digit t)) + (if dropWhile is_digit t = ''.5'' then 1 else 0)
      in if neg then - m else m)"

lemma fmt_u_split:
  assumes "rest = [] \<or> rest = ''.5''"
  shows "takeWhile is_digit (fmt_u n @ rest) = fmt_u n" "dropWhile is_digit (fmt_u n @ rest) = rest"
    "fmt_u n @ rest \<noteq> []" "hd (fmt_u n @ rest) \<noteq> CHR ''-''"
proof -
  have all: "\<forall>c \<in> set (fmt_u n). is_digit c" by (simp add: fmt_u_digits)
  have stop: "takeWhile is_digit rest = []" "dropWhile is_digit rest = rest"
    using assms by (auto simp: is_digit_def)
  from all stop show "takeWhile is_digit (fmt_u n @ rest) = fmt_u n"
    by (subst takeWhile_append2) auto
  from all stop show "dropWhile is_digit (fmt_u n @ rest) = rest"
    by (subst dropWhile_append2) auto
  obtain c cs where "fmt_u n = c # cs"
    using length_fmt_base_pos [of 10 n] by (cases "fmt_u n") (simp_all add: fmt_u_def)
  moreover from this all have "is_digit c" by simp
  ultimately show "fmt_u n @ rest \<noteq> []" "hd (fmt_u n @ rest) \<noteq> CHR ''-''"
    by (auto simp: is_digit_def)
qed

lemma read_half_db_fmt_d:
  assumes "rest = [] \<or> rest = ''.5''"
  shows "read_half_db (fmt_d i @ rest) =
    (let h = (if rest = [] then 0 else 1) in if i < 0 then 2 * i - h else 2 * i + h)"
proof (cases "i < 0")
  case True
  then have "fmt_d i @ rest = CHR ''-'' # (fmt_u (nat (- i)) @ rest)" by (simp add: fmt_d_def)
  with True assms fmt_u_split [OF assms, of "nat (- i)"] show ?thesis
    by (simp only: read_half_db_def Let_def list.sel) auto
next
  case False
  then have "fmt_d i @ rest = fmt_u (nat i) @ rest" by (simp add: fmt_d_def)
  with False assms fmt_u_split [OF assms, of "nat i"] show ?thesis
    by (simp only: read_half_db_def Let_def) auto
qed

text \<open>
  A non-zero PGA setting below 194, and every odd one, is printed as the documented gain
  of -97.5 + PGA/2 dB. For the even settings from 194 on (gains from -0.5 dB upwards) the
  appended fraction has the wrong sign: the printed number is one decibel too high.
\<close>
theorem pga_gain_text_value:
  assumes "0 < uint pga" and "uint pga < 256"
  shows "read_half_db (pga_gain_text pga) =
    (if even (uint pga) \<and> 194 \<le> uint pga then uint pga - 195 + 2 else uint pga - 195)"
proof -
  have "pga \<noteq> 0" using assms by auto
  have lsb: "pga AND 1 = 0 \<longleftrightarrow> even (uint pga)"
    by (simp only: and_one_eq word_uint_eq_iff uint_mod even_iff_mod_2_eq_zero) simp
  have "read_half_db (pga_gain_text pga) =
      read_half_db (fmt_d (uint pga div 2 - 97) @ (if even (uint pga) then ''.5'' else []))"
    using \<open>pga \<noteq> 0\<close> lsb by (simp only: pga_gain_text_def pga_gain_int [OF assms(2)] Let_def if_False)
  also have "\<dots> = (if even (uint pga) \<and> 194 \<le> uint pga then uint pga - 195 + 2 else uint pga - 195)"
    by (subst read_half_db_fmt_d) (auto simp: Let_def elim!: evenE oddE)
  finally show ?thesis .
qed

theorem pga_gain_text_value_witness:
  "read_half_db (pga_gain_text 2) = -193 \<and> read_half_db (pga_gain_text 194) = 1"
  using pga_gain_text_value [of 2] pga_gain_text_value [of 194] by simp

end
