(* ===== verification/Server_Tcp.thy ===== *)
theory Server_Tcp
  imports Sntp Http_Tx
begin

text \<open>
  The connection to the server, \<open>src/src/server_tcp.c\<close>, with the globals of \<open>src/src/upload.c\<close> that
  its closing callback changes. \<open>None\<close> stands for a null pointer that is followed, for text that
  does not fit the output buffer, and for code that never returns.
\<close>

section \<open>State\<close>

datatype tcp_close_func = Upload_end

record server_tcp_state =
  ss_pcb :: "nat option"
  ss_connected :: u8
  ss_host :: string
  ss_auth :: "string option"
  ss_remote_ip :: u32
  ss_remote_port :: u16
  ss_output_phase :: u8
  ss_mem_output_index :: u32
  ss_records_index :: u16
  ss_records_count :: u16
  ss_output_buffer :: string
  ss_current_pos :: u16
  ss_current_len :: u16
  ss_wait_before_close_counter :: u16
  ss_tcp_close_callback :: "tcp_close_func option"
  ss_write_err :: u32

record ('d, 'n) serverst = "('d, 'n) sntpst" +
  server_tcp :: server_tcp_state
  ephemeral_seq :: u32
  upload_active :: u8
  upload_countdown :: u32
  couchdb_ip :: u32

definition CONNECTED :: u8 where [simp]: "CONNECTED = 1"
definition DISCONNECTED :: u8 where [simp]: "DISCONNECTED = 0"
definition OP_HTTP_HEADER :: u8 where [simp]: "OP_HTTP_HEADER = 0"
definition OP_JSON_HEADER :: u8 where [simp]: "OP_JSON_HEADER = 1"
definition OP_JSON_DATA :: u8 where [simp]: "OP_JSON_DATA = 2"
definition OP_JSON_FOOTER :: u8 where [simp]: "OP_JSON_FOOTER = 3"
definition OP_WAIT_BEFORE_CLOSE :: u8 where [simp]: "OP_WAIT_BEFORE_CLOSE = 4"
definition OP_CLOSE :: u8 where [simp]: "OP_CLOSE = 5"
definition WAIT_BEFORE_CLOSE :: int where "WAIT_BEFORE_CLOSE = 2000 * 15"
definition MAX_WRITE_ERR_BEFORE_CLOSE :: u32 where "MAX_WRITE_ERR_BEFORE_CLOSE = 20 * 1000"
definition TCP_WRITE_FLAG_COPY :: u8 where "TCP_WRITE_FLAG_COPY = 1"
definition TCP_PRIO_NORMAL :: u8 where "TCP_PRIO_NORMAL = 64"
definition TCP_SND_QUEUELEN :: u16 where "TCP_SND_QUEUELEN = (4 * (4 * 1460) + (1460 - 1)) div 1460"
definition OUTPUT_BUFFER :: nat where [simp]: "OUTPUT_BUFFER = 400"
definition UPLOAD_WAIT :: u32 where "UPLOAD_WAIT = 2000 * 60 * 5"

definition upload_end :: "('d, 'n, 'z) serverst_scheme \<Rightarrow> ('d, 'n, 'z) serverst_scheme" where
  "upload_end s = s\<lparr>upload_active := 0, upload_countdown := UPLOAD_WAIT\<rparr>"

definition call_close :: "tcp_close_func \<Rightarrow> ('d, 'n, 'z) serverst_scheme \<Rightarrow> ('d, 'n, 'z) serverst_scheme" where
  "call_close f s = (case f of Upload_end \<Rightarrow> upload_end s)"

section \<open>Connection callbacks\<close>

text \<open>The argument \<open>arg\<close> of a callback tells whether it is the server's state or null.\<close>

definition server_tcp_connected ::
  "bool \<Rightarrow> nat \<Rightarrow> err_t \<Rightarrow> ('d, 'n, 'z) serverst_scheme \<Rightarrow> err_t \<times> ('d, 'n, 'z) serverst_scheme" where
  "server_tcp_connected arg pcb err s =
     (if arg then (ERR_OK, reset_http_response_parser (s\<lparr>server_tcp := (server_tcp s)\<lparr>ss_connected := CONNECTED\<rparr>\<rparr>))
      else (ERR_OK, s))"

definition server_tcp_close_conn ::
  "'n lwip \<Rightarrow> nat \<Rightarrow> bool \<Rightarrow> ('d, 'n, 'z) serverst_scheme \<Rightarrow> (err_t \<times> ('d, 'n, 'z) serverst_scheme) option" where
  "server_tcp_close_conn L pcb ss s =
     (let n = tcp_arg L pcb False (net s);
          n = tcp_err L pcb None n;
          n = tcp_recv L pcb None n;
          n = tcp_sent L pcb None n;
          (err, n) = tcp_close L pcb n;
          s = s\<lparr>net := n\<rparr>
      in if err \<noteq> ERR_OK then Some (err, s)
         else if \<not> ss then None
         else case ss_tcp_close_callback (server_tcp s) of
                Some f \<Rightarrow> Some (err, call_close f s)
              | None \<Rightarrow> Some (err, s))"

definition server_tcp_err ::
  "'n lwip \<Rightarrow> bool \<Rightarrow> err_t \<Rightarrow> ('d, 'n, 'z) serverst_scheme \<Rightarrow> ('d, 'n, 'z) serverst_scheme option" where
  "server_tcp_err L arg err s =
     (if \<not> arg then None
      else let s = s\<lparr>server_tcp := (server_tcp s)\<lparr>ss_connected := DISCONNECTED\<rparr>\<rparr>
        in case ss_pcb (server_tcp s) of
             Some pcb \<Rightarrow> map_option snd (server_tcp_close_conn L pcb True s)
           | None \<Rightarrow> Some s)"

section \<open>Output\<close>

function server_tcp_write ::
  "'n lwip \<Rightarrow> nat \<Rightarrow> string \<Rightarrow> u16 \<Rightarrow> u8 \<Rightarrow> 'n \<Rightarrow> err_t \<times> u16 \<times> 'n" where
  "server_tcp_write L pcb ptr len apiflags n =
     (let (err, n) = tcp_write L pcb (take (unat len) ptr) apiflags n;
          len = (if err = ERR_MEM then
                   (if tcp_sndbuf L pcb n = 0 \<or> tcp_sndqueuelen L pcb n \<ge> TCP_SND_QUEUELEN then 1 else len div 2)
                 else len)
      in if err = ERR_MEM \<and> len > 1 then server_tcp_write L pcb ptr len apiflags n
         else (err, len, n))"
  by pat_completeness auto
termination
proof (relation "measure (\<lambda>(_, _, _, len, _, _). unat len)")
  fix L :: "'n lwip" and pcb ptr and len len' :: u16 and apiflags n err n'
  assume "len' = (if err = ERR_MEM then
      (if tcp_sndbuf L pcb n' = 0 \<or> tcp_sndqueuelen L pcb n' \<ge> TCP_SND_QUEUELEN then 1 else len div 2) else len)"
    and "err = ERR_MEM \<and> len' > 1"
  then have "len' = len div 2" "len' > 1" by (auto split: if_splits)
  then have "unat len' = unat len div 2" "1 < unat len'" by (simp_all add: unat_div word_less_nat_alt)
  then show "((L, pcb, ptr, len', apiflags, n'), (L, pcb, ptr, len, apiflags, n)) \<in> measure (\<lambda>(_, _, _, len, _, _). unat len)"
    by simp
qed simp

declare server_tcp_write.simps [simp del]

definition server_current_tcp_out ::
  "'n lwip \<Rightarrow> nat \<Rightarrow> ('d, 'n, 'z) serverst_scheme \<Rightarrow> (u8 \<times> ('d, 'n, 'z) serverst_scheme) option" where
  "server_current_tcp_out L pcb s =
     (let ss = server_tcp s;
          len_val = ss_current_len ss - ss_current_pos ss
      in if len_val > 0 then
           (case server_tcp_write L pcb (drop (unat (ss_current_pos ss)) (ss_output_buffer ss)) len_val
                   TCP_WRITE_FLAG_COPY (net s) of (err, len_val, n) \<Rightarrow>
              (let s = s\<lparr>net := n\<rparr>
               in if err = ERR_OK then
                    (let ss = ss\<lparr>ss_current_pos := ss_current_pos ss + len_val\<rparr>
                     in if ss_current_pos ss \<ge> ss_current_len ss then Some (1, s\<lparr>server_tcp := ss\<rparr>)
                        else Some (0, s\<lparr>server_tcp := ss\<lparr>ss_write_err := 0\<rparr>\<rparr>))
                  else
                    (let ss = ss\<lparr>ss_write_err := ss_write_err ss + 1\<rparr>;
                         s = s\<lparr>server_tcp := ss\<rparr>
                     in if ss_write_err ss > MAX_WRITE_ERR_BEFORE_CLOSE
                        then do { (_, s) \<leftarrow> server_tcp_close_conn L pcb True s; Some (0, s) }
                        else Some (0, s))))
         else Some (1, s))"

text \<open>Text printed at the start of the output buffer, with its terminating zero.\<close>

definition put_text :: "string \<Rightarrow> server_tcp_state \<Rightarrow> server_tcp_state option" where
  "put_text text ss =
     (if length text < OUTPUT_BUFFER then
        Some (ss\<lparr>ss_output_buffer := text @ [CHR 0x00] @ drop (Suc (length text)) (ss_output_buffer ss),
                 ss_current_len := of_nat (length text)\<rparr>)
      else None)"

text \<open>The \<open>switch\<close> over the output phases.\<close>

definition next_phase :: "server_tcp_state \<Rightarrow> server_tcp_state" where
  "next_phase ss = ss\<lparr>ss_output_phase := ss_output_phase ss + 1\<rparr>"

definition select_block ::
  "'d mmio \<Rightarrow> 'n lwip \<Rightarrow> ('d, 'n, 'z) serverst_scheme \<Rightarrow> ('d, 'n, 'z) serverst_scheme option" where
  "select_block m L s =
     (let ss = server_tcp s
      in if ss_output_phase ss = OP_HTTP_HEADER then
           do { ss \<leftarrow> put_text (http_header (ss_host ss) (ss_auth ss) (ss_records_count ss)) ss;
                Some (s\<lparr>server_tcp := next_phase ss\<rparr>) }
         else if ss_output_phase ss = OP_JSON_HEADER then
           do { ss \<leftarrow> put_text json_header ss;
                Some (s\<lparr>server_tcp := next_phase ss\<rparr>) }
         else if ss_output_phase ss = OP_JSON_DATA then
           (let index = ss_records_index ss;
                ss = ss\<lparr>ss_records_index := index + 1\<rparr>
            in if index < ss_records_count ss then
                 do { let mem_index = ss_mem_output_index ss;
                      let ss = ss\<lparr>ss_mem_output_index := mem_index + 1\<rparr>;
                      (data, s) \<leftarrow> get_sample m mem_index s;
                      ss \<leftarrow> put_text (json_element data (ss_records_index ss < ss_records_count ss)) ss;
                      Some (s\<lparr>server_tcp := ss\<rparr>) }
               else Some (s\<lparr>server_tcp := next_phase ss\<rparr>))
         else if ss_output_phase ss = OP_JSON_FOOTER then
           do { ss \<leftarrow> put_text json_footer ss;
                Some (s\<lparr>server_tcp := next_phase ss\<rparr>) }
         else if ss_output_phase ss = OP_WAIT_BEFORE_CLOSE then
           (let counter = ss_wait_before_close_counter ss;
                ss = ss\<lparr>ss_wait_before_close_counter := counter + 1\<rparr>
            in if uint counter > WAIT_BEFORE_CLOSE then Some (s\<lparr>server_tcp := next_phase ss\<rparr>)
               else Some (s\<lparr>server_tcp := ss\<rparr>))
         else if ss_output_phase ss = OP_CLOSE then
           (case ss_pcb ss of
              None \<Rightarrow> None
            | Some pcb \<Rightarrow> (case tcp_close L pcb (net s) of (_, n) \<Rightarrow> Some (s\<lparr>net := n, server_tcp := next_phase ss\<rparr>)))
         else Some s)"

definition server_tcp_out ::
  "'d mmio \<Rightarrow> 'n lwip \<Rightarrow> nat \<Rightarrow> ('d, 'n, 'z) serverst_scheme \<Rightarrow> ('d, 'n, 'z) serverst_scheme option" where
  "server_tcp_out m L pcb s =
     (if ss_connected (server_tcp s) \<noteq> 0 then
        do { (empty, s) \<leftarrow> server_current_tcp_out L pcb s;
             if empty \<noteq> 0 then
               do { let s = s\<lparr>server_tcp := (server_tcp s)\<lparr>ss_current_pos := 0, ss_current_len := 0\<rparr>\<rparr>;
                    s \<leftarrow> select_block m L s;
                    (_, s) \<leftarrow> server_current_tcp_out L pcb s;
                    Some s }
             else Some s }
      else Some s)"

section \<open>Sent, poll and receive callbacks\<close>

definition server_tcp_sent ::
  "'d mmio \<Rightarrow> 'n lwip \<Rightarrow> bool \<Rightarrow> nat \<Rightarrow> u16 \<Rightarrow> ('d, 'n, 'z) serverst_scheme \<Rightarrow> (err_t \<times> ('d, 'n, 'z) serverst_scheme) option" where
  "server_tcp_sent m L arg pcb len s =
     (if arg then do { s \<leftarrow> server_tcp_out m L pcb s; Some (ERR_OK, s) } else Some (ERR_OK, s))"

definition server_tcp_poll :: "bool \<Rightarrow> nat \<Rightarrow> ('d, 'n, 'z) serverst_scheme \<Rightarrow> err_t \<times> ('d, 'n, 'z) serverst_scheme" where
  "server_tcp_poll arg pcb s = (ERR_OK, s)"

text \<open>The walk over the chain of received buffers.\<close>

fun parse_chain :: "'d mmio \<Rightarrow> u8 list list \<Rightarrow> ('d, 'z) rxst_scheme \<Rightarrow> ('d, 'z) rxst_scheme option" where
  "parse_chain m [] s = Some s"
| "parse_chain m (pp # pps) s = do { s \<leftarrow> parse_http_response_buffer m pp s; parse_chain m pps s }"

definition server_tcp_recv ::
  "'d mmio \<Rightarrow> 'n lwip \<Rightarrow> bool \<Rightarrow> nat \<Rightarrow> pbuf option \<Rightarrow> err_t \<Rightarrow> ('d, 'n, 'z) serverst_scheme \<Rightarrow>
   (err_t \<times> ('d, 'n, 'z) serverst_scheme) option" where
  "server_tcp_recv m L arg pcb p err s =
     (case p of
        None \<Rightarrow> do { (_, s) \<leftarrow> server_tcp_close_conn L pcb arg s; Some (ERR_OK, s) }
      | Some p \<Rightarrow>
          if err \<noteq> ERR_OK \<or> \<not> arg then
            do { let s = s\<lparr>net := pbuf_free L p (tcp_recved L pcb (tot_len p) (net s))\<rparr>;
                 (_, s) \<leftarrow> server_tcp_close_conn L pcb arg s;
                 Some (ERR_OK, s) }
          else
            do { s \<leftarrow> parse_chain m (pbuf_payloads p) s;
                 Some (ERR_OK, s\<lparr>net := pbuf_free L p (tcp_recved L pcb (tot_len p) (net s))\<rparr>) })"

section \<open>Service and initialisation\<close>

definition server_tcp_print_hostname :: "('d, 'n, 'z) serverst_scheme \<Rightarrow> string" where
  "server_tcp_print_hostname s = ss_host (server_tcp s)"

definition server_tcp_service ::
  "'d mmio \<Rightarrow> 'n lwip \<Rightarrow> ('d, 'n, 'z) serverst_scheme \<Rightarrow> ('d, 'n, 'z) serverst_scheme option" where
  "server_tcp_service m L s =
     (if ss_connected (server_tcp s) = CONNECTED then
        (case ss_pcb (server_tcp s) of None \<Rightarrow> None | Some pcb \<Rightarrow> server_tcp_out m L pcb s)
      else Some s)"

definition START_PORT :: u32 where "START_PORT = 49152"
definition END_PORT :: u32 where "END_PORT = 65535"

definition EPHEMERAL_PORT :: "('d, 'n, 'z) serverst_scheme \<Rightarrow> u16 \<times> ('d, 'n, 'z) serverst_scheme" where
  "EPHEMERAL_PORT s =
     (ucast (START_PORT + ephemeral_seq s mod (END_PORT - START_PORT)), s\<lparr>ephemeral_seq := ephemeral_seq s + 1\<rparr>)"

text \<open>The attempts to bind; the argument is the counter \<open>i\<close>.\<close>

fun bind_loop :: "'n lwip \<Rightarrow> nat \<Rightarrow> nat \<Rightarrow> ('d, 'n, 'z) serverst_scheme \<Rightarrow> err_t \<times> ('d, 'n, 'z) serverst_scheme" where
  "bind_loop L pcb 0 s = (ERR_OK, s)"
| "bind_loop L pcb (Suc i) s =
     (let (port, s) = EPHEMERAL_PORT s;
          (err, n) = tcp_bind L pcb IPADDR_ANY port (net s);
          s = s\<lparr>net := n\<rparr>
      in if err = ERR_OK then (ERR_OK, s) else if i = 0 then (err, s) else bind_loop L pcb i s)"

text \<open>\<open>tcp_connect\<close> registers the control block, which starts the stack's TCP timer if it is off.\<close>

definition start_connect ::
  "'n lwip \<Rightarrow> nat \<Rightarrow> u32 \<Rightarrow> u16 \<Rightarrow> ('d, 'n, 'z) serverst_scheme \<Rightarrow> (err_t \<times> ('d, 'n, 'z) serverst_scheme) option" where
  "start_connect L pcb ip port s =
     (case tcp_connect L pcb ip port Server_tcp_connected (net s) of (err, n) \<Rightarrow>
        do { s \<leftarrow> tcp_timer_needed (tcp_pcbs L) (s\<lparr>net := n\<rparr>); Some (err, s) })"

definition cleared_server :: server_tcp_state where
  "cleared_server = \<lparr>ss_pcb = None, ss_connected = 0, ss_host = [], ss_auth = None, ss_remote_ip = 0, ss_remote_port = 0,
     ss_output_phase = 0, ss_mem_output_index = 0, ss_records_index = 0, ss_records_count = 0,
     ss_output_buffer = replicate OUTPUT_BUFFER (CHR 0x00), ss_current_pos = 0, ss_current_len = 0,
     ss_wait_before_close_counter = 0, ss_tcp_close_callback = None, ss_write_err = 0\<rparr>"

definition server_tcp_init ::
  "'n lwip \<Rightarrow> string \<Rightarrow> u32 \<Rightarrow> u16 \<Rightarrow> string option \<Rightarrow> u32 \<Rightarrow> u16 \<Rightarrow> tcp_close_func option \<Rightarrow>
   ('d, 'n, 'z) serverst_scheme \<Rightarrow> (err_t \<times> ('d, 'n, 'z) serverst_scheme) option" where
  "server_tcp_init L host remote_ip remote_port auth start_index records_count callback s =
     (if records_count > 0 then
        (let ss = cleared_server\<lparr>ss_host := host, ss_auth := auth, ss_remote_ip := remote_ip, ss_remote_port := remote_port,
                ss_mem_output_index := start_index, ss_records_count := records_count, ss_tcp_close_callback := callback\<rparr>;
             (pcb, n) = tcp_new L (net s);
             s = s\<lparr>net := n, server_tcp := ss\<lparr>ss_pcb := pcb\<rparr>\<rparr>
         in case pcb of
              None \<Rightarrow> Some (ERR_MEM, s)
            | Some pcb \<Rightarrow>
                (let s = s\<lparr>net := tcp_setprio L pcb TCP_PRIO_NORMAL (net s)\<rparr>;
                     (err, s) = bind_loop L pcb 100 s
                 in if err \<noteq> ERR_OK then Some (err, s)
                    else
                      (let n = tcp_arg L pcb True (net s);
                           n = tcp_err L pcb (Some Server_tcp_err) n;
                           n = tcp_poll L pcb (Some Server_tcp_poll) 1 n;
                           n = tcp_sent L pcb (Some Server_tcp_sent) n;
                           n = tcp_recv L pcb (Some Server_tcp_recv) n
                       in start_connect L pcb remote_ip remote_port (s\<lparr>net := n\<rparr>))))
      else Some (ERR_ARG, s))"

end
