(* ===== verification/Server_Stream.thy ===== *)
theory Server_Stream
  imports Server_Tcp "HOL-Library.Sublist"
begin

text \<open>
  What the server connection sends. The text handed to TCP by \<open>server_tcp_out\<close> is followed through
  partial writes, failed writes and the phases of the output: it is always a beginning of one
  HTTP request for the records on the card, and with a connection that takes data it becomes
  the whole request.
\<close>

section \<open>The contract of TCP\<close>

text \<open>
  \<open>stream n p\<close> is the text that TCP has accepted on the connection \<open>p\<close> and will deliver in order:
  a successful \<open>tcp_write\<close> adds its data, and nothing else changes it.
\<close>

definition tcp_stream :: "'n lwip \<Rightarrow> ('n \<Rightarrow> nat \<Rightarrow> string) \<Rightarrow> bool" where
  "tcp_stream L stream \<longleftrightarrow>
     (\<forall>p data fl n err n'. tcp_write L p data fl n = (err, n') \<longrightarrow>
        stream n' p = (if err = ERR_OK then stream n p @ data else stream n p)) \<and>
     (\<forall>p q b c n. stream (tcp_arg L q b n) p = stream n p \<and> stream (tcp_err L q c n) p = stream n p \<and>
        stream (tcp_recv L q c n) p = stream n p \<and> stream (tcp_sent L q c n) p = stream n p \<and>
        stream (snd (tcp_close L q n)) p = stream n p)"

lemma open_stack_stream: "tcp_stream open_stack (\<lambda>n _. n)"
  by (auto simp: tcp_stream_def open_stack_def ERR_OK_def)

lemma tcp_streamD:
  assumes "tcp_stream L stream"
  shows "tcp_write L p data fl n = (err, n') \<Longrightarrow> stream n' p = (if err = ERR_OK then stream n p @ data else stream n p)"
    and "stream (tcp_arg L q b n) p = stream n p" "stream (tcp_err L q c n) p = stream n p"
    and "stream (tcp_recv L q c n) p = stream n p" "stream (tcp_sent L q c n) p = stream n p"
    and "tcp_close L q n = (err, n') \<Longrightarrow> stream n' p = stream n p"
  using assms unfolding tcp_stream_def by (blast, blast, blast, blast, blast, metis snd_conv)

lemma server_tcp_write_stream:
  assumes "tcp_stream L stream"
  shows "server_tcp_write L pcb ptr len fl n = (err, len', n') \<Longrightarrow>
    stream n' pcb = (if err = ERR_OK then stream n pcb @ take (unat len') ptr else stream n pcb) \<and>
    (err = ERR_OK \<longrightarrow> unat len' \<le> unat len)"
proof (induction "unat len" arbitrary: len n rule: less_induct)
  case less
  obtain e n1 where w: "tcp_write L pcb (take (unat len) ptr) fl n = (e, n1)" by fastforce
  note w1 = tcp_streamD(1) [OF assms w]
  have mem: "ERR_MEM \<noteq> ERR_OK" by (simp add: ERR_MEM_def ERR_OK_def)
  let ?len = "if tcp_sndbuf L pcb n1 = 0 \<or> tcp_sndqueuelen L pcb n1 \<ge> TCP_SND_QUEUELEN then 1 else len div 2"
  have step: "(if e = ERR_MEM \<and> ?len > 1 then server_tcp_write L pcb ptr ?len fl n1
      else (e, if e = ERR_MEM then ?len else len, n1)) = (err, len', n')"
    using less.prems w server_tcp_write.simps [of L pcb ptr len fl n] by (auto simp: Let_def split: if_splits)
  show ?case
  proof (cases "e = ERR_MEM \<and> ?len > 1")
    case True
    then have l: "?len = len div 2" "1 < unat ?len" by (auto simp: word_less_nat_alt split: if_splits)
    then have d: "unat ?len = unat len div 2" "unat ?len < unat len" by (simp_all add: unat_div)
    from step have "server_tcp_write L pcb ptr ?len fl n1 = (err, len', n')" unfolding if_P [OF True] .
    from less.hyps [OF d(2) this] w1 True mem d(1) show ?thesis by auto
  next
    case False
    have "err = e" "n' = n1" "e = ERR_OK \<Longrightarrow> len' = len"
      using step mem unfolding if_not_P [OF False] by auto
    with w1 show ?thesis by auto
  qed
qed

section \<open>The unsent part of a block\<close>

definition sound :: "server_tcp_state \<Rightarrow> bool" where
  "sound ss \<longleftrightarrow> ss_current_pos ss \<le> ss_current_len ss \<and> unat (ss_current_len ss) < OUTPUT_BUFFER \<and>
     length (ss_output_buffer ss) = OUTPUT_BUFFER"

definition unsent :: "server_tcp_state \<Rightarrow> string" where
  "unsent ss = drop (unat (ss_current_pos ss)) (take (unat (ss_current_len ss)) (ss_output_buffer ss))"

lemma drop_take_split: "i + k \<le> j \<Longrightarrow> drop i (take j xs) = take k (drop i xs) @ drop (i + k) (take j xs)"
  using append_take_drop_id [of k "drop i (take j xs)"] by (simp add: take_drop add.commute min_def)

lemma unsent_Nil: "sound ss \<Longrightarrow> unsent ss = [] \<longleftrightarrow> ss_current_pos ss = ss_current_len ss"
  by (auto simp: sound_def unsent_def word_le_nat_alt word_unat_eq_iff)

text \<open>The parts of the state that sending may change.\<close>

inductive touched :: "('d, 'n, 'z) serverst_scheme \<Rightarrow> ('d, 'n, 'z) serverst_scheme \<Rightarrow> bool" where
  touched_refl: "touched s s"
| touched_net: "touched s t \<Longrightarrow> touched s (t\<lparr>net := n\<rparr>)"
| touched_pos: "touched s t \<Longrightarrow> touched s (t\<lparr>server_tcp := (server_tcp t)\<lparr>ss_current_pos := p\<rparr>\<rparr>)"
| touched_err: "touched s t \<Longrightarrow> touched s (t\<lparr>server_tcp := (server_tcp t)\<lparr>ss_write_err := w\<rparr>\<rparr>)"
| touched_end: "touched s t \<Longrightarrow> touched s (upload_end t)"

lemma touched_trans: "touched s t \<Longrightarrow> touched t u \<Longrightarrow> touched s u"
  by (rotate_tac 1, induction rule: touched.induct) (auto intro: touched.intros)

lemmas touched_intros = touched_refl touched_net touched_pos touched_err touched_end

lemma callback_cases: "ss_tcp_close_callback (server_tcp s) = None \<or> ss_tcp_close_callback (server_tcp s) = Some Upload_end"
  by (metis tcp_close_func.exhaust not_None_eq)

lemma upload_end_keeps [simp]: "server_tcp (upload_end s) = server_tcp s" "net (upload_end s) = net s"
  by (simp_all add: upload_end_def)

lemma close_conn_effect:
  assumes "tcp_stream L stream"
  shows "\<exists>e t. server_tcp_close_conn L pcb True s = Some (e, t) \<and> touched s t \<and>
    server_tcp t = server_tcp s \<and> stream (net t) q = stream (net s) q"
proof -
  let ?n = "tcp_sent L pcb None (tcp_recv L pcb None (tcp_err L pcb None (tcp_arg L pcb False (net s))))"
  obtain e n where c: "tcp_close L pcb ?n = (e, n)" by fastforce
  have st: "stream n q = stream (net s) q" using tcp_streamD(6) [OF assms c] tcp_streamD(2-5) [OF assms] by simp
  have "server_tcp_close_conn L pcb True s = Some (e, s\<lparr>net := n\<rparr>) \<or>
      server_tcp_close_conn L pcb True s = Some (e, upload_end (s\<lparr>net := n\<rparr>))"
    using c callback_cases [of s] by (auto simp: server_tcp_close_conn_def call_close_def Let_def)
  with st show ?thesis by (auto intro!: touched_intros)
qed

text \<open>
  Sending from the current block moves text from the unsent part to the stream; it ends with
  the block empty, or with some of it left.
\<close>

lemma sent_part:
  assumes "sound ss" "unat len \<le> unat (ss_current_len ss - ss_current_pos ss)"
  shows "sound (ss\<lparr>ss_current_pos := ss_current_pos ss + len\<rparr>)"
    and "unsent ss = take (unat len) (drop (unat (ss_current_pos ss)) (ss_output_buffer ss)) @
      unsent (ss\<lparr>ss_current_pos := ss_current_pos ss + len\<rparr>)"
proof -
  have pl: "ss_current_pos ss \<le> ss_current_len ss" using assms(1) by (simp add: sound_def)
  then have fits: "unat (ss_current_pos ss) + unat len \<le> unat (ss_current_len ss)"
    using assms(2) by (simp add: unat_sub word_le_nat_alt)
  then have up: "unat (ss_current_pos ss + len) = unat (ss_current_pos ss) + unat len"
    using le_less_trans [OF _ unat_u16_lt] by (subst unat_add_lem [THEN iffD1]) simp_all
  with fits show "sound (ss\<lparr>ss_current_pos := ss_current_pos ss + len\<rparr>)"
    using assms(1) by (simp add: sound_def word_le_nat_alt)
  show "unsent ss = take (unat len) (drop (unat (ss_current_pos ss)) (ss_output_buffer ss)) @
      unsent (ss\<lparr>ss_current_pos := ss_current_pos ss + len\<rparr>)"
    using drop_take_split [OF fits] up by (simp add: unsent_def)
qed

lemma unsent_write_err [simp]:
  "unsent (ss\<lparr>ss_write_err := w\<rparr>) = unsent ss" "sound (ss\<lparr>ss_write_err := w\<rparr>) = sound ss"
  by (simp_all add: unsent_def sound_def)

lemma current_out_effect:
  assumes "tcp_stream L stream" "sound (server_tcp s)"
  shows "\<exists>r t. server_current_tcp_out L pcb s = Some (r, t) \<and> touched s t \<and> sound (server_tcp t) \<and>
    stream (net t) pcb @ unsent (server_tcp t) = stream (net s) pcb @ unsent (server_tcp s) \<and>
    (r \<noteq> 0 \<longleftrightarrow> unsent (server_tcp t) = []) \<and> (unsent (server_tcp s) = [] \<longrightarrow> unsent (server_tcp t) = [])"
proof (cases "ss_current_len (server_tcp s) - ss_current_pos (server_tcp s) > 0")
  case False
  then show ?thesis using assms(2) unsent_Nil [OF assms(2)]
    by (auto simp: server_current_tcp_out_def Let_def word_gt_0 intro: touched_refl)
next
  case True
  let ?ss = "server_tcp s"
  let ?len = "ss_current_len ?ss - ss_current_pos ?ss"
  obtain err len n where w: "server_tcp_write L pcb (drop (unat (ss_current_pos ?ss)) (ss_output_buffer ?ss)) ?len
      TCP_WRITE_FLAG_COPY (net s) = (err, len, n)"
    by (metis prod_cases3)
  note st = server_tcp_write_stream [OF assms(1) w]
  show ?thesis
  proof (cases "err = ERR_OK")
    case ok: True
    let ?t = "s\<lparr>net := n, server_tcp := ?ss\<lparr>ss_current_pos := ss_current_pos ?ss + len\<rparr>\<rparr>"
    have sp: "unat len \<le> unat ?len" using st ok by simp
    have t: "touched s ?t" "sound (server_tcp ?t)"
        "stream (net ?t) pcb @ unsent (server_tcp ?t) = stream (net s) pcb @ unsent ?ss"
      using touched_pos [OF touched_net [OF touched_refl]] sent_part [OF assms(2) sp] st ok by auto
    let ?e = "?t\<lparr>server_tcp := (server_tcp ?t)\<lparr>ss_write_err := 0\<rparr>\<rparr>"
    have "unsent (server_tcp ?t) = [] \<longleftrightarrow> ss_current_len ?ss \<le> ss_current_pos (server_tcp ?t)"
      using unsent_Nil [OF t(2)] t(2) by (auto simp: sound_def)
    moreover have "server_current_tcp_out L pcb s =
        (if ss_current_len ?ss \<le> ss_current_pos (server_tcp ?t) then Some (1, ?t) else Some (0, ?e))"
      using w ok True by (simp add: server_current_tcp_out_def Let_def)
    moreover have "touched s ?e" using t(1) by (rule touched_err)
    moreover have "unsent ?ss \<noteq> []" using unsent_Nil [OF assms(2)] True by auto
    ultimately show ?thesis using t by (cases "ss_current_len ?ss \<le> ss_current_pos (server_tcp ?t)") auto
  next
    case err: False
    have ne: "unsent ?ss \<noteq> []" using unsent_Nil [OF assms(2)] True by auto
    let ?t = "s\<lparr>net := n, server_tcp := ?ss\<lparr>ss_write_err := ss_write_err ?ss + 1\<rparr>\<rparr>"
    have t: "touched s ?t" using touched_err [OF touched_net [OF touched_refl]] by auto
    obtain e u where u: "server_tcp_close_conn L pcb True ?t = Some (e, u)" "touched ?t u"
        "server_tcp u = server_tcp ?t" "stream (net u) pcb = stream n pcb"
      using close_conn_effect [OF assms(1), of pcb ?t pcb] by auto
    have "server_current_tcp_out L pcb s = Some (0, ?t) \<or> server_current_tcp_out L pcb s = Some (0, u)"
      using w err True u(1) by (auto simp: server_current_tcp_out_def Let_def)
    moreover have "touched s u" using u(2) t by (rule touched_trans [rotated])
    ultimately show ?thesis using t u(3,4) ne st err assms(2) by auto
  qed
qed

section \<open>The request in the making\<close>

definition element :: "u32 list option list \<Rightarrow> nat \<Rightarrow> string" where
  "element ds k = json_element (ds ! k) (Suc k < length ds)"

lemma json_elements_concat: "json_elements ds = concat (map (element ds) [0..<length ds])"
proof (induction ds rule: json_elements.induct)
  case (3 d d' ds)
  have "map (element (d # d' # ds)) [0..<length (d # d' # ds)] =
      element (d # d' # ds) 0 # map (element (d' # ds)) [0..<length (d' # ds)]"
    by (simp only: length_Cons [of d] upt_rec [of 0 "Suc _"] zero_less_Suc if_True list.map One_nat_def
        flip: map_Suc_upt map_map) (simp add: element_def comp_def)
  moreover have "element (d # d' # ds) 0 = json_element d True" by (simp add: element_def)
  ultimately show ?case by (simp only: json_elements.simps 3 concat.simps)
qed (simp_all add: element_def)

text \<open>What is printed before the phase \<open>ph\<close> with \<open>k\<close> records done.\<close>

definition progress :: "string \<Rightarrow> u32 list option list \<Rightarrow> u8 \<Rightarrow> nat \<Rightarrow> string" where
  "progress header ds ph k =
     (if ph = OP_HTTP_HEADER then []
      else if ph = OP_JSON_HEADER then header
      else if ph = OP_JSON_DATA then header @ json_header @ concat (map (element ds) [0..<k])
      else if ph = OP_JSON_FOOTER then header @ json_header @ json_elements ds
      else header @ request_body ds)"

lemma progress_prefix:
  assumes "k \<le> length ds"
  shows "prefix (progress header ds ph k) (header @ request_body ds)"
proof -
  have "[0..<length ds] = [0..<k] @ [k..<length ds]" using assms by (metis le0 le_add_diff_inverse upt_add_eq_append)
  then have "json_elements ds = concat (map (element ds) [0..<k]) @ concat (map (element ds) [k..<length ds])"
    by (simp add: json_elements_concat)
  then show ?thesis by (simp add: progress_def request_body_def)
qed

lemma put_text_effect:
  assumes "length text < 400" "ss_current_pos ss = 0" "sound ss"
  shows "\<exists>b l. put_text text ss = Some (ss\<lparr>ss_output_buffer := b, ss_current_len := l\<rparr>) \<and>
    sound (ss\<lparr>ss_output_buffer := b, ss_current_len := l\<rparr>) \<and> unsent (ss\<lparr>ss_output_buffer := b, ss_current_len := l\<rparr>) = text"
proof -
  have "unat (of_nat (length text) :: u16) = length text" using assms(1) by (simp add: unat_of_nat)
  with assms show ?thesis
    by (intro exI [of _ "text @ [CHR 0x00] @ drop (Suc (length text)) (ss_output_buffer ss)"] exI [of _ "of_nat (length text)"])
      (simp add: put_text_def sound_def unsent_def)
qed

lemma unsent_fields [simp]:
  "unsent (ss\<lparr>ss_output_phase := p\<rparr>) = unsent ss" "sound (ss\<lparr>ss_output_phase := p\<rparr>) = sound ss"
  "unsent (ss\<lparr>ss_records_index := i\<rparr>) = unsent ss" "sound (ss\<lparr>ss_records_index := i\<rparr>) = sound ss"
  "unsent (ss\<lparr>ss_mem_output_index := b\<rparr>) = unsent ss" "sound (ss\<lparr>ss_mem_output_index := b\<rparr>) = sound ss"
  "unsent (ss\<lparr>ss_wait_before_close_counter := w\<rparr>) = unsent ss" "sound (ss\<lparr>ss_wait_before_close_counter := w\<rparr>) = sound ss"
  by (simp_all add: unsent_def sound_def)

lemma mem_ok_server [simp]:
  "mem_ok ready capacity (s\<lparr>server_tcp := x\<rparr>) = mem_ok ready capacity (s :: ('d, 'n, 'z) serverst_scheme)"
  "mem_ok ready capacity (s\<lparr>net := n\<rparr>) = mem_ok ready capacity s"
  by (simp_all add: mem_ok_def is_block_valid_def card_size_ok_def disk_sectors_def)

lemma touched_ss:
  "touched s t \<Longrightarrow> \<exists>p w. server_tcp t = (server_tcp s)\<lparr>ss_current_pos := p, ss_write_err := w\<rparr>"
proof (induction rule: touched.induct)
  case (touched_refl s)
  have "server_tcp s = (server_tcp s)\<lparr>ss_current_pos := ss_current_pos (server_tcp s), ss_write_err := ss_write_err (server_tcp s)\<rparr>"
    by simp
  then show ?case by blast
next
  case (touched_pos s t p)
  then obtain p' w where "server_tcp t = (server_tcp s)\<lparr>ss_current_pos := p', ss_write_err := w\<rparr>" by blast
  then have "server_tcp (t\<lparr>server_tcp := (server_tcp t)\<lparr>ss_current_pos := p\<rparr>\<rparr>) = (server_tcp s)\<lparr>ss_current_pos := p, ss_write_err := w\<rparr>"
    by simp
  then show ?case by blast
next
  case (touched_err s t w)
  then obtain p w' where "server_tcp t = (server_tcp s)\<lparr>ss_current_pos := p, ss_write_err := w'\<rparr>" by blast
  then have "server_tcp (t\<lparr>server_tcp := (server_tcp t)\<lparr>ss_write_err := w\<rparr>\<rparr>) = (server_tcp s)\<lparr>ss_current_pos := p, ss_write_err := w\<rparr>"
    by simp
  then show ?case by blast
qed simp_all

lemma touched_mem: "touched s t \<Longrightarrow> mem_ok ready capacity t = mem_ok ready capacity s \<and> hwst t = hwst s"
  by (induction rule: touched.induct)
    (auto simp: upload_end_def mem_ok_def is_block_valid_def card_size_ok_def disk_sectors_def)

text \<open>
  The invariant of the connection: \<open>ds\<close> are the records from block \<open>start\<close> on, and what TCP has
  taken, followed by what is still unsent, is \<open>base\<close> followed by what the phases have printed.
\<close>

record upload_job =
  job_pcb :: nat
  job_host :: string
  job_auth :: "string option"
  job_start :: nat
  job_records :: "u32 list option list"
  job_base :: string

definition job_request :: "upload_job \<Rightarrow> string" where
  "job_request j = http_header (job_host j) (job_auth j) (of_nat (length (job_records j))) @ request_body (job_records j)"

definition job_ok :: "nat \<Rightarrow> upload_job \<Rightarrow> bool" where
  "job_ok capacity j \<longleftrightarrow> length (job_host j) + auth_chars (job_auth j) \<le> 296 \<and> length (job_records j) < 65536 \<and>
     job_start j + length (job_records j) \<le> capacity"

definition at_work :: "upload_job \<Rightarrow> server_tcp_state \<Rightarrow> bool" where
  "at_work j ss \<longleftrightarrow> sound ss \<and> ss_pcb ss = Some (job_pcb j) \<and> ss_connected ss = CONNECTED \<and>
     ss_host ss = job_host j \<and> ss_auth ss = job_auth j \<and> ss_records_count ss = of_nat (length (job_records j)) \<and>
     (ss_output_phase ss < OP_JSON_DATA \<longrightarrow> ss_records_index ss = 0) \<and>
     (ss_output_phase ss \<le> OP_JSON_DATA \<longrightarrow>
        unat (ss_records_index ss) \<le> length (job_records j) \<and>
        unat (ss_mem_output_index ss) = job_start j + unat (ss_records_index ss))"

definition done_so_far :: "upload_job \<Rightarrow> server_tcp_state \<Rightarrow> string" where
  "done_so_far j ss = progress (http_header (job_host j) (job_auth j) (of_nat (length (job_records j)))) (job_records j)
     (ss_output_phase ss) (min (length (job_records j)) (unat (ss_records_index ss)))"

definition on_card :: "(nat \<Rightarrow> u8 list) \<Rightarrow> upload_job \<Rightarrow> bool" where
  "on_card bl j \<longleftrightarrow> (\<forall>k < length (job_records j). record_at bl (job_start j + k) = job_records j ! k)"

definition sending ::
  "('d \<Rightarrow> bool) \<Rightarrow> ('d \<Rightarrow> nat \<Rightarrow> u8 list) \<Rightarrow> nat \<Rightarrow> ('n \<Rightarrow> nat \<Rightarrow> string) \<Rightarrow> upload_job \<Rightarrow> ('d, 'n, 'z) serverst_scheme \<Rightarrow> bool" where
  "sending ready blocks capacity stream j s \<longleftrightarrow> mem_ok ready capacity s \<and> on_card (blocks (hwst s)) j \<and>
     at_work j (server_tcp s) \<and>
     stream (net s) (job_pcb j) @ unsent (server_tcp s) = job_base j @ done_so_far j (server_tcp s)"

definition stage :: "upload_job \<Rightarrow> server_tcp_state \<Rightarrow> nat" where
  "stage j ss =
     (if ss_output_phase ss \<le> OP_JSON_HEADER then unat (ss_output_phase ss)
      else if ss_output_phase ss = OP_JSON_DATA then 2 + unat (ss_records_index ss)
      else if ss_output_phase ss = OP_JSON_FOOTER then 3 + length (job_records j)
      else 4 + length (job_records j))"

lemma stage_le: "sending ready blocks capacity stream j s \<Longrightarrow> stage j (server_tcp s) \<le> 4 + length (job_records j)"
  by (auto simp: sending_def at_work_def stage_def word_le_nat_alt)

lemma done_prefix: "prefix (done_so_far j ss) (job_request j)"
  by (simp add: done_so_far_def job_request_def progress_prefix)

lemma done_all:
  assumes "sending ready blocks capacity stream j s" "4 + length (job_records j) \<le> stage j (server_tcp s)"
  shows "done_so_far j (server_tcp s) = job_request j"
  using assms by (auto simp: sending_def at_work_def stage_def done_so_far_def progress_def job_request_def word_le_nat_alt split: if_splits)

lemma at_work_cong:
  assumes "ss' = ss\<lparr>ss_current_pos := p, ss_write_err := w\<rparr>"
  shows "sound ss' \<Longrightarrow> at_work j ss \<Longrightarrow> at_work j ss'" "done_so_far j ss' = done_so_far j ss"
    "stage j ss' = stage j ss"
  using assms by (simp_all add: at_work_def done_so_far_def stage_def)

lemma sending_sound: "sending ready blocks capacity stream j s \<Longrightarrow> sound (server_tcp s)"
  by (simp add: sending_def at_work_def)

lemma sending_current:
  assumes "tcp_stream L stream" "sending ready blocks capacity stream j s"
  shows "\<exists>r t. server_current_tcp_out L (job_pcb j) s = Some (r, t) \<and> sending ready blocks capacity stream j t \<and>
    stage j (server_tcp t) = stage j (server_tcp s) \<and>
    (r \<noteq> 0 \<longleftrightarrow> unsent (server_tcp t) = []) \<and> (unsent (server_tcp s) = [] \<longrightarrow> unsent (server_tcp t) = [])"
proof -
  from current_out_effect [OF assms(1) sending_sound [OF assms(2)], of "job_pcb j"] obtain r t where
    o: "server_current_tcp_out L (job_pcb j) s = Some (r, t)" and t: "touched s t" "sound (server_tcp t)"
      "stream (net t) (job_pcb j) @ unsent (server_tcp t) = stream (net s) (job_pcb j) @ unsent (server_tcp s)"
    and r: "r \<noteq> 0 \<longleftrightarrow> unsent (server_tcp t) = []" "unsent (server_tcp s) = [] \<longrightarrow> unsent (server_tcp t) = []" by auto
  obtain p w where "server_tcp t = (server_tcp s)\<lparr>ss_current_pos := p, ss_write_err := w\<rparr>"
    using touched_ss [OF t(1)] by blast
  from at_work_cong [OF this, of j] have "sending ready blocks capacity stream j t"
      "stage j (server_tcp t) = stage j (server_tcp s)"
    using assms(2) t(2,3) touched_mem [OF t(1), of ready capacity] by (simp_all add: sending_def)
  with o r show ?thesis by blast
qed

definition select_ok where
  "select_ok m L ready blocks capacity stream j s \<longleftrightarrow>
     (\<exists>t. select_block m L s = Some t \<and> sending ready blocks capacity stream j t \<and>
       stage j (server_tcp t) = min (Suc (stage j (server_tcp s))) (4 + length (job_records j)) \<and>
       (stage j (server_tcp s) = 4 + length (job_records j) \<longrightarrow> unsent (server_tcp t) = unsent (server_tcp s)) \<and>
       (net t = net s \<or> unsent (server_tcp t) = unsent (server_tcp s)))"

lemma select_header:
  assumes "job_ok capacity j" "sending ready blocks capacity stream j s" "ss_current_pos (server_tcp s) = 0"
    "unsent (server_tcp s) = []" "ss_output_phase (server_tcp s) = 0"
  shows "select_ok m L ready blocks capacity stream j s"
proof -
  let ?ss = "server_tcp s"
  have "length (http_header (ss_host ?ss) (ss_auth ?ss) (ss_records_count ?ss)) < 400"
    using assms(1,2) block_lengths by (simp add: job_ok_def sending_def at_work_def)
  from put_text_effect [OF this assms(3) sending_sound [OF assms(2)]] obtain b l where
    "put_text (http_header (ss_host ?ss) (ss_auth ?ss) (ss_records_count ?ss)) ?ss = Some (?ss\<lparr>ss_output_buffer := b, ss_current_len := l\<rparr>)"
    "sound (?ss\<lparr>ss_output_buffer := b, ss_current_len := l\<rparr>)"
    "unsent (?ss\<lparr>ss_output_buffer := b, ss_current_len := l\<rparr>) = http_header (ss_host ?ss) (ss_auth ?ss) (ss_records_count ?ss)"
    by blast
  then show ?thesis using assms
    by (simp add: select_ok_def select_block_def next_phase_def sending_def at_work_def done_so_far_def progress_def stage_def)
qed

lemma u8_small_cases: "w = 0 \<or> w = 1 \<or> w = 2 \<or> w = 3 \<or> 3 < (w :: u8)"
proof -
  have "unat w = unat (0 :: u8) \<or> unat w = unat (1 :: u8) \<or> unat w = unat (2 :: u8) \<or> unat w = unat (3 :: u8) \<or> unat (3 :: u8) < unat w"
    by (simp, arith)
  then show ?thesis by (simp only: word_less_nat_alt word_unat_eq_iff)
qed

lemma phase_order:
  "\<not> (3 :: u8) \<le> 1" "\<not> (4 :: u8) \<le> 1" "\<not> (5 :: u8) \<le> 1" "\<not> (6 :: u8) \<le> 1" "\<not> (2 :: u8) \<le> 1"
  "\<not> (3 :: u8) \<le> 2" "\<not> (4 :: u8) \<le> 2" "\<not> (5 :: u8) \<le> 2" "\<not> (6 :: u8) \<le> 2"
  "\<not> (3 :: u8) < 2" "\<not> (4 :: u8) < 2" "\<not> (5 :: u8) < 2" "\<not> (6 :: u8) < 2" "(1 :: u8) < 2" "(1 :: u8) \<le> 2"
  by (simp_all add: word_le_nat_alt word_less_nat_alt)

lemmas select_defs = phase_order select_ok_def select_block_def next_phase_def sending_def at_work_def done_so_far_def progress_def stage_def

lemma select_json_header:
  assumes "job_ok capacity j" "sending ready blocks capacity stream j s" "ss_current_pos (server_tcp s) = 0"
    "unsent (server_tcp s) = []" "ss_output_phase (server_tcp s) = 1"
  shows "select_ok m L ready blocks capacity stream j s"
proof -
  let ?ss = "server_tcp s"
  have "length json_header < 400" by (simp add: json_header_def)
  from put_text_effect [OF this assms(3) sending_sound [OF assms(2)]] obtain b l where
    "put_text json_header ?ss = Some (?ss\<lparr>ss_output_buffer := b, ss_current_len := l\<rparr>)"
    "sound (?ss\<lparr>ss_output_buffer := b, ss_current_len := l\<rparr>)"
    "unsent (?ss\<lparr>ss_output_buffer := b, ss_current_len := l\<rparr>) = json_header"
    by blast
  then show ?thesis using assms by (simp add: select_defs)
qed

lemma select_footer:
  assumes "job_ok capacity j" "sending ready blocks capacity stream j s" "ss_current_pos (server_tcp s) = 0"
    "unsent (server_tcp s) = []" "ss_output_phase (server_tcp s) = 3"
  shows "select_ok m L ready blocks capacity stream j s"
proof -
  let ?ss = "server_tcp s"
  have "length json_footer < 400" by (simp add: json_footer_def)
  from put_text_effect [OF this assms(3) sending_sound [OF assms(2)]] obtain b l where
    "put_text json_footer ?ss = Some (?ss\<lparr>ss_output_buffer := b, ss_current_len := l\<rparr>)"
    "sound (?ss\<lparr>ss_output_buffer := b, ss_current_len := l\<rparr>)"
    "unsent (?ss\<lparr>ss_output_buffer := b, ss_current_len := l\<rparr>) = json_footer"
    by blast
  then show ?thesis using assms by (simp add: select_defs request_body_def)
qed

lemma select_late:
  assumes "tcp_stream L stream" "sending ready blocks capacity stream j s" "3 < ss_output_phase (server_tcp s)"
  shows "select_ok m L ready blocks capacity stream j s"
proof -
  let ?ss = "server_tcp s"
  have ne: "ss_output_phase ?ss \<noteq> 0" "ss_output_phase ?ss \<noteq> 1" "ss_output_phase ?ss \<noteq> 2" "ss_output_phase ?ss \<noteq> 3"
    "\<not> ss_output_phase ?ss \<le> 1" "\<not> ss_output_phase ?ss \<le> 2" "\<not> ss_output_phase ?ss < 2"
    using assms(3) by (auto simp: word_le_nat_alt word_less_nat_alt)
  consider "ss_output_phase ?ss = 4" | "ss_output_phase ?ss = 5" | "ss_output_phase ?ss \<noteq> 4" "ss_output_phase ?ss \<noteq> 5" by blast
  then show ?thesis
  proof cases
    case 2
    obtain e n where "tcp_close L (job_pcb j) (net s) = (e, n)" by fastforce
    with tcp_streamD(6) [OF assms(1)] 2 assms(2) show ?thesis by (simp add: select_defs)
  qed (use assms(2) ne in \<open>simp add: select_defs Let_def\<close>)+
qed

lemma done_element:
  assumes "k < length ds"
  shows "concat (map (element ds) [0..<Suc k]) = concat (map (element ds) [0..<k]) @ json_element (ds ! k) (Suc k < length ds)"
  by (simp add: element_def)

section \<open>When TCP has room\<close>

text \<open>\<open>takes\<close>: TCP takes any one block; \<open>room\<close>: it takes any two blocks one after the other.\<close>

definition takes :: "'n lwip \<Rightarrow> nat \<Rightarrow> 'n \<Rightarrow> bool" where
  "takes L pcb n \<longleftrightarrow> (\<forall>data fl. length data < OUTPUT_BUFFER \<longrightarrow> fst (tcp_write L pcb data fl n) = ERR_OK)"

definition room :: "'n lwip \<Rightarrow> nat \<Rightarrow> 'n \<Rightarrow> bool" where
  "room L pcb n \<longleftrightarrow> takes L pcb n \<and>
     (\<forall>data fl. length data < OUTPUT_BUFFER \<longrightarrow> takes L pcb (snd (tcp_write L pcb data fl n)))"

lemma write_takes:
  assumes "takes L pcb n" "unat len < OUTPUT_BUFFER"
  shows "server_tcp_write L pcb ptr len fl n = (ERR_OK, len, snd (tcp_write L pcb (take (unat len) ptr) fl n))"
proof -
  have "fst (tcp_write L pcb (take (unat len) ptr) fl n) = ERR_OK" using assms by (simp add: takes_def)
  then obtain n' where "tcp_write L pcb (take (unat len) ptr) fl n = (ERR_OK, n')" by (metis prod.collapse)
  moreover have "ERR_OK \<noteq> ERR_MEM" by (simp add: ERR_MEM_def ERR_OK_def)
  ultimately show ?thesis by (subst server_tcp_write.simps) (simp add: Let_def)
qed

lemma current_out_takes:
  assumes "sound (server_tcp s)" "takes L pcb (net s)" "server_current_tcp_out L pcb s = Some (r, t)"
  shows "unsent (server_tcp t) = []"
    and "net t = net s \<or> (\<exists>data fl. length data < OUTPUT_BUFFER \<and> net t = snd (tcp_write L pcb data fl (net s)))"
proof -
  let ?ss = "server_tcp s"
  let ?len = "ss_current_len ?ss - ss_current_pos ?ss"
  have "ss_current_pos ?ss \<le> ss_current_len ?ss" using assms(1) by (simp add: sound_def)
  then have l: "unat ?len < OUTPUT_BUFFER"
    using assms(1) less_imp_diff_less by (simp add: sound_def unat_sub)
  note w = write_takes [OF assms(2) l]
  have "unsent (server_tcp t) = [] \<and>
      (net t = net s \<or> (\<exists>data fl. length data < OUTPUT_BUFFER \<and> net t = snd (tcp_write L pcb data fl (net s))))"
  proof (cases "?len > 0")
    case True
    let ?data = "take (unat ?len) (drop (unat (ss_current_pos ?ss)) (ss_output_buffer ?ss))"
    have "length ?data < OUTPUT_BUFFER" using l by simp
    moreover have "net t = snd (tcp_write L pcb ?data TCP_WRITE_FLAG_COPY (net s))" "server_tcp t = ?ss\<lparr>ss_current_pos := ss_current_len ?ss\<rparr>"
      using True assms(3) w by (auto simp: server_current_tcp_out_def Let_def)
    moreover from this have "unsent (server_tcp t) = []" by (simp add: unsent_def)
    ultimately show ?thesis by blast
  next
    case False
    then have "t = s" using assms(3) by (simp add: server_current_tcp_out_def Let_def)
    then show ?thesis using unsent_Nil [OF assms(1)] False by (simp add: word_gt_0)
  qed
  then show "unsent (server_tcp t) = []"
    and "net t = net s \<or> (\<exists>data fl. length data < OUTPUT_BUFFER \<and> net t = snd (tcp_write L pcb data fl (net s)))"
    by blast+
qed

section \<open>One call of the output routine\<close>

lemma sending_clear:
  assumes "sending ready blocks capacity stream j s" "unsent (server_tcp s) = []"
  defines "t \<equiv> s\<lparr>server_tcp := (server_tcp s)\<lparr>ss_current_pos := 0, ss_current_len := 0\<rparr>\<rparr>"
  shows "sending ready blocks capacity stream j t" "unsent (server_tcp t) = []" "stage j (server_tcp t) = stage j (server_tcp s)"
proof -
  show u: "unsent (server_tcp t) = []" by (simp add: t_def unsent_def)
  show "sending ready blocks capacity stream j t" using assms(1,2) u
    by (simp add: sending_def at_work_def sound_def done_so_far_def t_def)
  show "stage j (server_tcp t) = stage j (server_tcp s)" by (simp add: t_def stage_def)
qed

context sd_disk
begin

lemma select_record:
  assumes "job_ok capacity j" "sending ready blocks capacity stream j s" "ss_current_pos (server_tcp s) = 0"
    "unsent (server_tcp s) = []" "ss_output_phase (server_tcp s) = 2"
    "unat (ss_records_index (server_tcp s)) < length (job_records j)"
  shows "select_ok m L ready blocks capacity stream j s"
proof -
  let ?ss = "server_tcp s" and ?ds = "job_records j"
  let ?i = "ss_records_index ?ss" and ?b = "ss_mem_output_index ?ss"
  note inv = assms(2) [unfolded sending_def at_work_def] and job = assms(1) [unfolded job_ok_def]
  have b: "unat ?b = job_start j + unat ?i" "unat ?b < capacity" using inv job assms(5,6) by simp_all
  have "unat ?b + 1 < 2 ^ 32" using b(2) disk_capacity by simp
  then have b1: "unat (?b + 1) = unat ?b + 1" by (simp add: unat_add_lem [THEN iffD1])
  have i1: "unat (?i + 1) = unat ?i + 1" using assms(6) job by (simp add: unat_add_lem [THEN iffD1])
  have n: "unat (of_nat (length ?ds) :: u16) = length ?ds" using job by (simp add: unat_of_nat)
  obtain d buf where g: "get_sample m ?b s = Some (record_at (blocks (hwst s)) (unat ?b), s\<lparr>hwst := d, mem_buf := buf\<rparr>)"
    "ready d" "blocks d = blocks (hwst s)" "length buf = 6"
    using get_sample_effect [OF _ b(2), of s] inv by blast
  have r: "record_at (blocks (hwst s)) (unat ?b) = ?ds ! unat ?i" using inv assms(6) b(1) by (simp add: on_card_def)
  have lt: "?i < ss_records_count ?ss" "?i + 1 < ss_records_count ?ss \<longleftrightarrow> Suc (unat ?i) < length ?ds"
    using inv assms(6) n i1 by (simp_all add: word_less_nat_alt)
  let ?s1 = "?ss\<lparr>ss_records_index := ?i + 1, ss_mem_output_index := ?b + 1\<rparr>"
  have "length (json_element (?ds ! unat ?i) (Suc (unat ?i) < length ?ds)) < 400" by (simp add: length_json_element)
  from put_text_effect [OF this, of ?s1] assms(3) sending_sound [OF assms(2)] obtain buf' l where
    p: "put_text (json_element (?ds ! unat ?i) (Suc (unat ?i) < length ?ds)) ?s1 = Some (?s1\<lparr>ss_output_buffer := buf', ss_current_len := l\<rparr>)"
    "sound (?s1\<lparr>ss_output_buffer := buf', ss_current_len := l\<rparr>)"
    "unsent (?s1\<lparr>ss_output_buffer := buf', ss_current_len := l\<rparr>) = json_element (?ds ! unat ?i) (Suc (unat ?i) < length ?ds)"
    by auto
  have mins: "min (length ?ds) (unat ?i) = unat ?i" "min (length ?ds) (Suc (unat ?i)) = Suc (unat ?i)"
    using assms(6) by simp_all
  let ?t = "s\<lparr>hwst := d, mem_buf := buf, server_tcp := ?s1\<lparr>ss_output_buffer := buf', ss_current_len := l\<rparr>\<rparr>"
  have "select_block m L s = Some ?t" using assms(5) lt g(1) r p(1) by (simp add: select_block_def Let_def)
  moreover have "mem_ok ready capacity ?t"
    using inv g by (simp add: mem_ok_def is_block_valid_def card_size_ok_def disk_sectors_def)
  moreover have "at_work j (server_tcp ?t)" using inv p(2) assms(5,6) b(1) b1 i1 by (simp add: at_work_def phase_order)
  moreover have "stream (net ?t) (job_pcb j) @ unsent (server_tcp ?t) = job_base j @ done_so_far j (server_tcp ?t)"
    using inv p(3) assms(4,5) i1 mins by (simp add: done_so_far_def progress_def element_def)
  moreover have "stage j (server_tcp ?t) = Suc (stage j ?ss)" "stage j ?ss < 4 + length ?ds"
    using assms(5,6) i1 by (simp_all add: stage_def phase_order)
  ultimately show ?thesis using inv g(3) by (simp add: select_ok_def sending_def)
qed

lemma select_data_end:
  assumes "job_ok capacity j" "sending ready blocks capacity stream j s"
    "unsent (server_tcp s) = []" "ss_output_phase (server_tcp s) = 2"
    "\<not> unat (ss_records_index (server_tcp s)) < length (job_records j)"
  shows "select_ok m L ready blocks capacity stream j s"
proof -
  have "unat (of_nat (length (job_records j)) :: u16) = length (job_records j)"
    using assms(1) by (simp add: job_ok_def unat_of_nat)
  then have "\<not> ss_records_index (server_tcp s) < ss_records_count (server_tcp s)"
    using assms(2,5) by (simp add: sending_def at_work_def word_less_nat_alt)
  then show ?thesis using assms(2-5) by (simp add: select_defs Let_def json_elements_concat)
qed

lemma sending_select:
  assumes "tcp_stream L stream" "job_ok capacity j" "sending ready blocks capacity stream j s"
    "ss_current_pos (server_tcp s) = 0" "unsent (server_tcp s) = []"
  shows "select_ok m L ready blocks capacity stream j s"
proof -
  consider "ss_output_phase (server_tcp s) = 0" | "ss_output_phase (server_tcp s) = 1" | "ss_output_phase (server_tcp s) = 2" |
    "ss_output_phase (server_tcp s) = 3" | "3 < ss_output_phase (server_tcp s)"
    using u8_small_cases [of "ss_output_phase (server_tcp s)"] by blast
  then show ?thesis
  proof cases
    case 1
    then show ?thesis by (rule select_header [OF assms(2-5)])
  next
    case 2
    then show ?thesis by (rule select_json_header [OF assms(2-5)])
  next
    case 3
    then show ?thesis
      by (cases "unat (ss_records_index (server_tcp s)) < length (job_records j)")
        (rule select_record [OF assms(2-5)] select_data_end [OF assms(2,3,5)]; assumption)+
  next
    case 4
    then show ?thesis by (rule select_footer [OF assms(2-5)])
  next
    case 5
    then show ?thesis by (rule select_late [OF assms(1,3)])
  qed
qed

lemma sending_out:
  assumes "tcp_stream L stream" "job_ok capacity j" "sending ready blocks capacity stream j s"
  shows "\<exists>t. server_tcp_out m L (job_pcb j) s = Some t \<and> sending ready blocks capacity stream j t \<and>
    stage j (server_tcp s) \<le> stage j (server_tcp t) \<and>
    (stage j (server_tcp s) = 4 + length (job_records j) \<and> unsent (server_tcp s) = [] \<longrightarrow> unsent (server_tcp t) = []) \<and>
    (room L (job_pcb j) (net s) \<longrightarrow> unsent (server_tcp t) = [] \<and>
       stage j (server_tcp t) = min (Suc (stage j (server_tcp s))) (4 + length (job_records j)))"
proof -
  let ?n = "4 + length (job_records j)" and ?pcb = "job_pcb j"
  have con: "ss_connected (server_tcp s) \<noteq> 0" using assms(3) by (simp add: sending_def at_work_def)
  have top: "stage j (server_tcp s) \<le> ?n" using assms(3) by (rule stage_le)
  obtain r s1 where 1: "server_current_tcp_out L ?pcb s = Some (r, s1)" "sending ready blocks capacity stream j s1"
      "stage j (server_tcp s1) = stage j (server_tcp s)" "r \<noteq> 0 \<longleftrightarrow> unsent (server_tcp s1) = []"
      "unsent (server_tcp s) = [] \<longrightarrow> unsent (server_tcp s1) = []"
    using sending_current [OF assms(1,3)] by blast
  note room1 = current_out_takes [OF sending_sound [OF assms(3)] _ 1(1)]
  show ?thesis
  proof (cases "unsent (server_tcp s1) = []")
    case False
    then have "server_tcp_out m L ?pcb s = Some s1" using con 1(1,4) by (simp add: server_tcp_out_def)
    with 1 False room1 show ?thesis by (auto simp: room_def)
  next
    case True
    let ?s2 = "s1\<lparr>server_tcp := (server_tcp s1)\<lparr>ss_current_pos := 0, ss_current_len := 0\<rparr>\<rparr>"
    note 2 = sending_clear [OF 1(2) True]
    from sending_select [OF assms(1,2) 2(1) _ 2(2)] obtain s3 where
      3: "select_block m L ?s2 = Some s3" "sending ready blocks capacity stream j s3"
        "stage j (server_tcp s3) = min (Suc (stage j (server_tcp s))) ?n"
        "stage j (server_tcp s) = ?n \<longrightarrow> unsent (server_tcp s3) = []" "net s3 = net s1 \<or> unsent (server_tcp s3) = []"
      using 1(3) 2(2,3) by (auto simp: select_ok_def)
    obtain r' s4 where 4: "server_current_tcp_out L ?pcb s3 = Some (r', s4)" "sending ready blocks capacity stream j s4"
        "stage j (server_tcp s4) = stage j (server_tcp s3)" "unsent (server_tcp s3) = [] \<longrightarrow> unsent (server_tcp s4) = []"
      using sending_current [OF assms(1) 3(2)] by blast
    have "server_tcp_out m L ?pcb s = Some s4" using con True 1(1,4) 3(1) 4(1) by (simp add: server_tcp_out_def Let_def)
    moreover have "unsent (server_tcp s4) = []" if rm: "room L ?pcb (net s)"
    proof -
      have "takes L ?pcb (net s1)" using room1(2) rm by (auto simp: room_def)
      then show ?thesis using 3(5) 4(4) current_out_takes(1) [OF sending_sound [OF 3(2)] _ 4(1)] by auto
    qed
    ultimately show ?thesis using 3(3,4) 4 top by auto
  qed
qed

lemma service_out: "sending ready blocks capacity stream j s \<Longrightarrow> server_tcp_service m L s = server_tcp_out m L (job_pcb j) s"
  by (simp add: sending_def at_work_def server_tcp_service_def)

end

section \<open>Uploads\<close>

text \<open>
  The state when the connection of \<open>server_tcp_init\<close> has been established, and the steps that
  follow: calls of \<open>server_tcp_service\<close> by the main loop, the callback for acknowledged data, and
  anything else that leaves the connection and its records alone. The number counts the calls of
  \<open>server_tcp_service\<close> that found room in TCP for two blocks.
\<close>

definition fresh_upload :: "upload_job \<Rightarrow> server_tcp_state \<Rightarrow> bool" where
  "fresh_upload j ss \<longleftrightarrow> (\<exists>ip port callback. ss = cleared_server\<lparr>ss_host := job_host j, ss_auth := job_auth j,
     ss_remote_ip := ip, ss_remote_port := port, ss_mem_output_index := of_nat (job_start j),
     ss_records_count := of_nat (length (job_records j)), ss_tcp_close_callback := callback, ss_pcb := Some (job_pcb j),
     ss_connected := CONNECTED\<rparr>)"

inductive uploading for m :: "'d mmio" and L :: "'n lwip" and ready blocks capacity stream j s where
  up_start: "uploading m L ready blocks capacity stream j s 0 s"
| up_service: "uploading m L ready blocks capacity stream j s k t \<Longrightarrow> server_tcp_service m L t = Some u \<Longrightarrow>
    uploading m L ready blocks capacity stream j s (if room L (job_pcb j) (net t) then Suc k else k) u"
| up_sent: "uploading m L ready blocks capacity stream j s k t \<Longrightarrow>
    server_tcp_sent m L True (job_pcb j) len t = Some (err, u) \<Longrightarrow> uploading m L ready blocks capacity stream j s k u"
| up_other: "uploading m L ready blocks capacity stream j s k t \<Longrightarrow> mem_ok ready capacity u \<Longrightarrow>
    on_card (blocks (hwst u)) j \<Longrightarrow> server_tcp u = server_tcp t \<Longrightarrow>
    stream (net u) (job_pcb j) = stream (net t) (job_pcb j) \<Longrightarrow> uploading m L ready blocks capacity stream j s k u"

lemma fresh_sending:
  assumes "fresh_upload j (server_tcp s)" "job_ok capacity j" "capacity \<le> 0x800000" "mem_ok ready capacity s"
    "on_card (blocks (hwst s)) j" "stream (net s) (job_pcb j) = job_base j"
  shows "sending ready blocks capacity stream j s"
proof -
  have "unat (of_nat (job_start j) :: u32) = job_start j" using assms(2,3) by (simp add: job_ok_def unat_of_nat)
  with assms show ?thesis
    by (auto simp: fresh_upload_def cleared_server_def sending_def at_work_def sound_def unsent_def done_so_far_def progress_def)
qed

lemma uploading_invariant:
  assumes "sd_disk m ready blocks capacity" "tcp_stream L stream" "job_ok capacity j" "sending ready blocks capacity stream j s"
    "uploading m L ready blocks capacity stream j s k t"
  shows "sending ready blocks capacity stream j t \<and> min k (4 + length (job_records j)) \<le> stage j (server_tcp t) \<and>
    (4 + length (job_records j) \<le> k \<longrightarrow> unsent (server_tcp t) = [])"
  using assms(5)
proof (induction rule: uploading.induct)
  case (up_service k t u)
  then have i: "sending ready blocks capacity stream j t" by blast
  from sd_disk.sending_out [OF assms(1-3) i] up_service.hyps(2) sd_disk.service_out [OF assms(1) i]
  show ?case using up_service.IH stage_le [OF i] by auto
next
  case (up_sent k t len err u)
  then have i: "sending ready blocks capacity stream j t" by blast
  from sd_disk.sending_out [OF assms(1-3) i] up_sent.hyps(2)
  show ?case using up_sent.IH stage_le [OF i] by (auto simp: server_tcp_sent_def)
next
  case (up_other k t u)
  then show ?case by (simp add: sending_def)
qed (use assms(4) in simp)

lemma uploading_exists:
  assumes "sd_disk m ready blocks capacity" "tcp_stream L stream" "job_ok capacity j" "sending ready blocks capacity stream j s"
    "\<And>n. room L (job_pcb j) n"
  shows "\<exists>t. uploading m L ready blocks capacity stream j s k t"
proof (induction k)
  case 0
  show ?case using up_start by blast
next
  case (Suc k)
  then obtain t where t: "uploading m L ready blocks capacity stream j s k t" by blast
  then have i: "sending ready blocks capacity stream j t" using uploading_invariant [OF assms(1-4)] by blast
  then obtain u where "server_tcp_service m L t = Some u"
    using sd_disk.sending_out [OF assms(1-3) i] sd_disk.service_out [OF assms(1) i] by auto
  from up_service [OF t this] show ?case using assms(5) by auto
qed

text \<open>
  \<open>server_tcp_init\<close> and the callback of the established connection lead to that state.
\<close>

lemma bind_loop_server: "bind_loop L pcb i s = (err, s') \<Longrightarrow> server_tcp s' = server_tcp s"
  by (induction L pcb i s rule: bind_loop.induct) (auto simp: Let_def EPHEMERAL_PORT_def split: prod.splits if_splits)

lemma timer_needed_server: "tcp_timer_needed b s = Some s' \<Longrightarrow> server_tcp s' = server_tcp s"
  by (auto simp: tcp_timer_needed_def sys_timeout_def Let_def split: if_splits)

lemma server_tcp_init_fresh:
  assumes "server_tcp_init L (job_host j) ip port (job_auth j) (of_nat (job_start j)) (of_nat (length (job_records j))) callback s = Some (ERR_OK, s')"
    "fst (tcp_new L (net s)) = Some (job_pcb j)"
  shows "fresh_upload j (server_tcp (snd (server_tcp_connected True (job_pcb j) err s')))"
proof -
  obtain n where n: "tcp_new L (net s) = (Some (job_pcb j), n)" using assms(2) by (metis prod.collapse)
  have "(of_nat (length (job_records j)) :: u16) > 0" using assms(1) by (auto simp: server_tcp_init_def ERR_ARG_def ERR_OK_def split: if_splits)
  with assms(1) n have "server_tcp s' = cleared_server\<lparr>ss_host := job_host j, ss_auth := job_auth j,
     ss_remote_ip := ip, ss_remote_port := port, ss_mem_output_index := of_nat (job_start j),
     ss_records_count := of_nat (length (job_records j)), ss_tcp_close_callback := callback, ss_pcb := Some (job_pcb j)\<rparr>"
    by (auto simp: server_tcp_init_def start_connect_def Let_def bind_eq_Some_conv split: prod.splits if_splits
        dest!: timer_needed_server bind_loop_server)
  then show ?thesis by (auto simp: server_tcp_connected_def fresh_upload_def reset_http_response_parser_def)
qed


lemma upload_reaches:
  assumes "sd_card m exch ready blocks capacity" "tcp_stream L stream" "job_ok capacity j" "fresh_upload j (server_tcp s)"
    "mem_ok ready capacity s" "on_card (blocks (hwst s)) j" "stream (net s) (job_pcb j) = job_base j"
    "uploading m L ready blocks capacity stream j s k t"
  shows "sd_disk m ready blocks capacity" "sending ready blocks capacity stream j t"
    "length (job_records j) + 4 \<le> k \<Longrightarrow> unsent (server_tcp t) = [] \<and> done_so_far j (server_tcp t) = job_request j"
proof -
  show disk: "sd_disk m ready blocks capacity" by (rule sd_card.card_disk [OF assms(1)])
  have "capacity \<le> 0x800000" using disk by (rule sd_disk.disk_capacity)
  then have "sending ready blocks capacity stream j s" using assms(3-7) by (intro fresh_sending)
  note i = uploading_invariant [OF disk assms(2,3) this assms(8)]
  then show "sending ready blocks capacity stream j t" by blast
  with i show "length (job_records j) + 4 \<le> k \<Longrightarrow> unsent (server_tcp t) = [] \<and> done_so_far j (server_tcp t) = job_request j"
    using done_all [of ready blocks capacity stream j t] by simp
qed

section \<open>Properties\<close>

text \<open>
  The connection never sends anything but the request (C3). From the moment it is established,
  after any calls of the service routine and of the callback for acknowledged data, with any
  failed, halved or delayed writes and any other work in between, TCP has been given a beginning
  of one HTTP request: its header, and one JSON element for each of the records on the card, in
  order. The routine can always be called again: no text overruns the output buffer and no read
  of the card fails.
\<close>

theorem upload_stream_prefix:
  assumes "sd_card m exch ready blocks capacity" "tcp_stream L stream" "job_ok capacity j" "fresh_upload j (server_tcp s)"
    "mem_ok ready capacity s" "on_card (blocks (hwst s)) j" "stream (net s) (job_pcb j) = job_base j"
    "uploading m L ready blocks capacity stream j s k t"
  shows "prefix (stream (net t) (job_pcb j)) (job_base j @ job_request j) \<and> (\<exists>u. server_tcp_service m L t = Some u)"
proof -
  note disk = upload_reaches(1) [OF assms] and i = upload_reaches(2) [OF assms]
  from i have "prefix (stream (net t) (job_pcb j)) (job_base j @ done_so_far j (server_tcp t))"
    by (metis sending_def prefixI)
  then have "prefix (stream (net t) (job_pcb j)) (job_base j @ job_request j)"
    using done_prefix [of j "server_tcp t"] by (meson prefix_order.trans same_prefix_prefix)
  moreover have "\<exists>u. server_tcp_service m L t = Some u"
    using sd_disk.sending_out [OF disk assms(2,3) i] sd_disk.service_out [OF disk i] by auto
  ultimately show ?thesis ..
qed

text \<open>
  The request is completed (C6). Once the service routine has been called with room in TCP for
  two blocks four times more than there are records, the whole request has been given to TCP.
\<close>

theorem upload_completes:
  assumes "sd_card m exch ready blocks capacity" "tcp_stream L stream" "job_ok capacity j" "fresh_upload j (server_tcp s)"
    "mem_ok ready capacity s" "on_card (blocks (hwst s)) j" "stream (net s) (job_pcb j) = job_base j"
    "uploading m L ready blocks capacity stream j s k t" "length (job_records j) + 4 \<le> k"
  shows "stream (net t) (job_pcb j) = job_base j @ job_request j"
  using upload_reaches(2) [OF assms(1-8)] upload_reaches(3) [OF assms] by (simp add: sending_def)

section \<open>A sample upload\<close>

definition sample_job :: upload_job where
  "sample_job = \<lparr>job_pcb = 1, job_host = ''192.168.1.8'', job_auth = None, job_start = 1,
     job_records = [record_at (store blank_card) 1, record_at (store blank_card) 2], job_base = []\<rparr>"

definition sample_server :: "(rcard, string) serverst" where
  "sample_server = sntpst.extend sample_sntp
     \<lparr>server_tcp = cleared_server\<lparr>ss_host := ''192.168.1.8'', ss_remote_ip := 0x0801A8C0, ss_remote_port := 5984,
        ss_mem_output_index := 1, ss_records_count := 2, ss_tcp_close_callback := Some Upload_end, ss_pcb := Some 1,
        ss_connected := CONNECTED\<rparr>,
      ephemeral_seq = 1, upload_active = 1, upload_countdown = 0, couchdb_ip = 0\<rparr>"

lemma sample_server_ok:
  "job_ok 0x800000 sample_job" "fresh_upload sample_job (server_tcp sample_server)"
  "mem_ok card_ready 0x800000 sample_server" "on_card (store (hwst sample_server)) sample_job"
  "net sample_server = job_base sample_job"
proof -
  have s: "sectors sample_server = sectors sample_gateway" "hwst sample_server = hwst sample_gateway"
      "mem_buf sample_server = mem_buf sample_gateway" "memory_indexes sample_server = memory_indexes sample_gateway"
      "hwst sample_gateway = blank_card" "net sample_server = []"
      "server_tcp sample_server = cleared_server\<lparr>ss_host := ''192.168.1.8'', ss_remote_ip := 0x0801A8C0, ss_remote_port := 5984,
        ss_mem_output_index := 1, ss_records_count := 2, ss_tcp_close_callback := Some Upload_end, ss_pcb := Some 1,
        ss_connected := CONNECTED\<rparr>"
    by (simp_all add: sample_server_def sntpst.defs sample_sntp_def lwipst.defs open_net_def gwst.defs
        sample_gateway_def rxst.defs sample_rx_def writest.defs sample_writer_def timest.defs sample_clock_def memst.defs sample_store_def)
  show "job_ok 0x800000 sample_job" by (simp add: job_ok_def sample_job_def auth_chars_def)
  show "fresh_upload sample_job (server_tcp sample_server)"
    by (auto simp: fresh_upload_def s sample_job_def cleared_server_def)
  show "mem_ok card_ready 0x800000 sample_server"
    using sample_gateway_ok(1) s by (simp add: mem_ok_def is_block_valid_def card_size_ok_def disk_sectors_def)
  show "on_card (store (hwst sample_server)) sample_job"
    by (auto simp: on_card_def s sample_job_def less_Suc_eq numeral_2_eq_2)
  show "net sample_server = job_base sample_job" by (simp add: s sample_job_def)
qed

lemma open_stack_room: "room open_stack pcb n"
  by (simp add: room_def takes_def open_stack_def)

lemma sample_upload: "\<exists>t. uploading card_mmio open_stack card_ready store 0x800000 (\<lambda>n _. n) sample_job sample_server k t"
proof -
  note ok = sample_server_ok
  have disk: "sd_disk card_mmio card_ready store 0x800000" by (rule sd_card.card_disk [OF rc.sd_card_axioms])
  have "sending card_ready store 0x800000 (\<lambda>n _. n) sample_job sample_server"
    using ok by (intro fresh_sending) simp_all
  from uploading_exists [OF disk open_stack_stream ok(1) this open_stack_room] show ?thesis .
qed

theorem upload_stream_prefix_witness:
  "\<exists>t u. uploading card_mmio open_stack card_ready store 0x800000 (\<lambda>n _. n) sample_job sample_server 3 t \<and>
    prefix (net t) (job_request sample_job) \<and> server_tcp_service card_mmio open_stack t = Some u"
proof -
  obtain t where t: "uploading card_mmio open_stack card_ready store 0x800000 (\<lambda>n _. n) sample_job sample_server 3 t"
    using sample_upload by blast
  have "job_base sample_job = []" by (simp add: sample_job_def)
  with upload_stream_prefix [OF rc.sd_card_axioms open_stack_stream sample_server_ok(1-4) _ t] sample_server_ok(5) t show ?thesis by auto
qed

theorem upload_completes_witness:
  "\<exists>t. uploading card_mmio open_stack card_ready store 0x800000 (\<lambda>n _. n) sample_job sample_server 6 t \<and>
    net t = job_request sample_job"
proof -
  obtain t where t: "uploading card_mmio open_stack card_ready store 0x800000 (\<lambda>n _. n) sample_job sample_server 6 t"
    using sample_upload by blast
  have "job_base sample_job = []" "length (job_records sample_job) + 4 \<le> 6" by (simp_all add: sample_job_def)
  with upload_completes [OF rc.sd_card_axioms open_stack_stream sample_server_ok(1-4) _ t] sample_server_ok(5) t show ?thesis by auto
qed

end
