(* ===== verification/Upload.thy ===== *)
theory Upload
  imports Server_Stream
begin

text \<open>
  The upload of \<open>src/src/upload.c\<close>: the pause between connections, the start of a connection
  with the oldest records of the store, and the answer of the server. The build leaves
  \<open>COUCHDB_SERVER_DNS\<close> undefined, so the server's address is the literal one.
\<close>

section \<open>Definitions\<close>

definition NETIF_FLAG_UP :: u8 where "NETIF_FLAG_UP = 0x01"
definition NETIF_FLAG_LINK_UP :: u8 where "NETIF_FLAG_LINK_UP = 0x10"

definition couchdb_server_address :: string where "couchdb_server_address = ''192.168.1.8''"
definition couchdb_server_auth :: "string option" where "couchdb_server_auth = None"

definition couchdb_start_upload ::
  "'d mmio \<Rightarrow> 'n lwip \<Rightarrow> u32 \<Rightarrow> ('d, 'n, 'z) serverst_scheme \<Rightarrow> ('d, 'n, 'z) serverst_scheme option" where
  "couchdb_start_upload m L ip_addr s =
     (let start = get_current_read_block s;
          (count, s) = get_blocks_to_read m s
      in do { (err, s) \<leftarrow> server_tcp_init L couchdb_server_address ip_addr 5984 couchdb_server_auth start count (Some Upload_end) s;
              Some (if err \<noteq> ERR_OK then upload_end s else s) })"

definition upload :: "'d mmio \<Rightarrow> 'n lwip \<Rightarrow> ('d, 'n, 'z) serverst_scheme \<Rightarrow> ('d, 'n, 'z) serverst_scheme option" where
  "upload m L s =
     (if upload_countdown s = 0 then
        (if upload_active s = 0 then
           (if netif_flags L (net s) AND NETIF_FLAG_UP \<noteq> 0 \<and> netif_flags L (net s) AND NETIF_FLAG_LINK_UP \<noteq> 0 then
              (let s = s\<lparr>upload_active := 0xF\<rparr>
               in case ipaddr_aton couchdb_server_address of
                    Some ip \<Rightarrow> couchdb_start_upload m L ip (s\<lparr>couchdb_ip := ip\<rparr>)
                  | None \<Rightarrow> Some (upload_end s))
            else Some s)
         else Some s)
      else Some (s\<lparr>upload_countdown := upload_countdown s - 1\<rparr>))"

section \<open>The pause\<close>

text \<open>\<open>k\<close> calls of \<open>upload\<close>, one for each run of the main loop's body.\<close>

fun uploads_run :: "'d mmio \<Rightarrow> 'n lwip \<Rightarrow> nat \<Rightarrow> ('d, 'n, 'z) serverst_scheme \<Rightarrow> ('d, 'n, 'z) serverst_scheme option" where
  "uploads_run m L 0 s = Some s"
| "uploads_run m L (Suc k) s = do { s \<leftarrow> upload m L s; uploads_run m L k s }"

lemma uploads_run_countdown:
  "k \<le> unat (upload_countdown s) \<Longrightarrow> uploads_run m L k s = Some (s\<lparr>upload_countdown := upload_countdown s - of_nat k\<rparr>)"
proof (induction k arbitrary: s)
  case (Suc k)
  then have nz: "upload_countdown s \<noteq> 0" by auto
  then have "unat (upload_countdown s - 1) = unat (upload_countdown s) - 1" by (simp add: unat_minus_one)
  with Suc.prems Suc.IH [of "s\<lparr>upload_countdown := upload_countdown s - 1\<rparr>"] nz show ?case
    by (simp add: upload_def diff_diff_eq)
qed simp

lemma server_address: "ipaddr_aton couchdb_server_address = Some 0x0801A8C0"
  by code_simp

section \<open>The start of an upload\<close>

text \<open>
  The upload that \<open>upload\<close> starts: the records from the read index on, as many as
  \<open>get_blocks_to_read\<close> says, for the connection \<open>pcb\<close>.
\<close>

definition queue_record :: "u8 list \<Rightarrow> u32 list option" where
  "queue_record r = (if evaluate_checksum r = CHECKSUM_FAIL then None else Some (words_of_bytes r))"

definition queue_job :: "('d \<Rightarrow> nat \<Rightarrow> u8 list) \<Rightarrow> 'd mmio \<Rightarrow> nat \<Rightarrow> string \<Rightarrow> ('d, 'z) memst_scheme \<Rightarrow> upload_job" where
  "queue_job blocks m pcb base s =
     \<lparr>job_pcb = pcb, job_host = couchdb_server_address, job_auth = couchdb_server_auth,
      job_start = unat (read_index (memory_indexes s)),
      job_records = map queue_record (take (unat (fst (get_blocks_to_read m s))) (mem_queue blocks s)),
      job_base = base\<rparr>"

lemma blocks_to_read_less:
  assumes "mem_ok ready capacity s" "0 < fst (get_blocks_to_read m s)"
  shows "unat (fst (get_blocks_to_read m s)) < length (mem_ring s)"
    and "read_index (memory_indexes s) \<le> write_index (memory_indexes s)"
proof -
  let ?n = "min 1000 (length (mem_ring s) - 1)"
  have w: "\<not> write_index (memory_indexes s) < read_index (memory_indexes s)"
    and n: "fst (get_blocks_to_read m s) = of_nat ?n"
    using assms blocks_to_read_ring [OF assms(1), of m] by (auto split: if_splits)
  show "read_index (memory_indexes s) \<le> write_index (memory_indexes s)" using w by simp
  have "unat (fst (get_blocks_to_read m s)) = ?n" unfolding n by (simp add: unat_of_nat)
  moreover have "0 < length (mem_ring s)" by (simp add: mem_ring_def length_ring)
  ultimately show "unat (fst (get_blocks_to_read m s)) < length (mem_ring s)" by linarith
qed

lemma mem_queue_unwrapped:
  assumes "mem_ok ready capacity s" "read_index (memory_indexes s) \<le> write_index (memory_indexes s)" "k < length (mem_ring s)"
  shows "mem_queue blocks s ! k = take MEMORY_RECORD_SIZE (blocks (hwst s) (unat (read_index (memory_indexes s)) + k))"
    and "unat (read_index (memory_indexes s)) + k < capacity"
proof -
  let ?r = "unat (read_index (memory_indexes s))" and ?w = "unat (write_index (memory_indexes s))" and ?M = "unat (sectors s) - 1"
  have le: "?r + k \<le> ?w" using assms(2,3) by (simp add: mem_ring_def length_ring ring_dist_def word_le_nat_alt)
  have w: "?w \<in> {1..?M}" by (rule mem_ok_ring(2) [OF assms(1)])
  then have M: "?r + k \<le> ?M" using le by simp
  have "k < Suc (ring_dist ?M ?r ?w)" using assms(3) by (simp add: mem_ring_def length_ring)
  then have "mem_ring s ! k = ?r + k" using M by (simp add: mem_ring_def ring_def ring_pos_def del: upt_Suc)
  then show "mem_queue blocks s ! k = take MEMORY_RECORD_SIZE (blocks (hwst s) (?r + k))"
    using assms(3) by (simp add: mem_queue_def)
  show "?r + k < capacity" using M w assms(1) by (auto simp: mem_ok_def)
qed

lemma queue_job_ok:
  assumes "mem_ok ready capacity s" "0 < fst (get_blocks_to_read m s)"
  shows "job_ok capacity (queue_job blocks m pcb base s)" "on_card (blocks (hwst s)) (queue_job blocks m pcb base s)"
    "length (job_records (queue_job blocks m pcb base s)) = unat (fst (get_blocks_to_read m s))"
proof -
  let ?n = "unat (fst (get_blocks_to_read m s))" and ?r = "unat (read_index (memory_indexes s))"
  note n = blocks_to_read_less [OF assms] and q = mem_queue_unwrapped [OF assms(1) blocks_to_read_less(2) [OF assms]]
  have lq: "length (mem_queue blocks s) = length (mem_ring s)" by (simp add: mem_queue_def)
  show len: "length (job_records (queue_job blocks m pcb base s)) = ?n"
    using n(1) lq by (simp add: queue_job_def)
  have pos: "0 < ?n" using assms(2) by (simp add: word_less_nat_alt)
  then have "?r + (?n - 1) < capacity" using n(1) by (intro q(2)) simp
  then show "job_ok capacity (queue_job blocks m pcb base s)"
    using len pos by (simp add: job_ok_def) (simp add: queue_job_def couchdb_server_address_def couchdb_server_auth_def auth_chars_def)
  have "record_at (blocks (hwst s)) (?r + k) = queue_record (mem_queue blocks s ! k)" if "k < ?n" for k
    using q(1) [of k blocks] that n(1) by (simp add: record_at_def queue_record_def Let_def)
  then show "on_card (blocks (hwst s)) (queue_job blocks m pcb base s)"
    using len n(1) lq by (simp add: on_card_def) (simp add: queue_job_def)
qed

text \<open>What the start of a connection leaves alone.\<close>

definition same_store :: "('d, 'n, 'z) serverst_scheme \<Rightarrow> ('d, 'n, 'z) serverst_scheme \<Rightarrow> bool" where
  "same_store s t \<longleftrightarrow> hwst t = hwst s \<and> sectors t = sectors s \<and> mem_buf t = mem_buf s \<and> memory_indexes t = memory_indexes s \<and>
     upload_active t = upload_active s \<and> upload_countdown t = upload_countdown s"

lemma same_store_mem: "same_store s t \<Longrightarrow> mem_ok ready capacity t = mem_ok ready capacity s"
  by (simp add: same_store_def mem_ok_def is_block_valid_def card_size_ok_def disk_sectors_def)

lemma bind_loop_same:
  "bind_loop L pcb i s = (err, s') \<Longrightarrow> same_store s s' \<and> next_timeout s' = next_timeout s \<and>
    tcpip_tcp_timer_active s' = tcpip_tcp_timer_active s"
  by (induction L pcb i s rule: bind_loop.induct)
    (auto simp: Let_def EPHEMERAL_PORT_def same_store_def split: prod.splits if_splits)

lemma timer_needed_same:
  assumes "length (next_timeout s) < MEMP_NUM_SYS_TIMEOUT"
  shows "\<exists>t. tcp_timer_needed b s = Some t \<and> same_store s t"
  using assms by (auto simp: tcp_timer_needed_def sys_timeout_def Let_def same_store_def)

lemma server_tcp_init_same:
  assumes "length (next_timeout s) < MEMP_NUM_SYS_TIMEOUT"
  shows "\<exists>err t. server_tcp_init L host ip port auth start cnt cb s = Some (err, t) \<and> same_store s t \<and>
    (err = ERR_OK \<longrightarrow> 0 < cnt \<and> fst (tcp_new L (net s)) \<noteq> None)"
proof (cases "0 < cnt \<and> fst (tcp_new L (net s)) \<noteq> None")
  case False
  then show ?thesis
    by (cases "tcp_new L (net s)") (auto simp: server_tcp_init_def Let_def same_store_def ERR_MEM_def ERR_OK_def ERR_ARG_def)
next
  case True
  then obtain pcb n where n: "tcp_new L (net s) = (Some pcb, n)" by (cases "tcp_new L (net s)") auto
  let ?ss = "cleared_server\<lparr>ss_host := host, ss_auth := auth, ss_remote_ip := ip, ss_remote_port := port,
                ss_mem_output_index := start, ss_records_count := cnt, ss_tcp_close_callback := cb\<rparr>"
  let ?s = "s\<lparr>net := n, server_tcp := ?ss\<lparr>ss_pcb := Some pcb\<rparr>\<rparr>"
  let ?t = "?s\<lparr>net := tcp_setprio L pcb TCP_PRIO_NORMAL (net ?s)\<rparr>"
  obtain err u where u: "bind_loop L pcb 100 ?t = (err, u)" by fastforce
  have su: "same_store s u" "next_timeout u = next_timeout s"
    using bind_loop_same [OF u] by (simp_all add: same_store_def)
  show ?thesis
  proof (cases "err = ERR_OK")
    case False
    then show ?thesis using True n u su by (auto simp: server_tcp_init_def Let_def)
  next
    case ok: True
    let ?n = "tcp_recv L pcb (Some Server_tcp_recv) (tcp_sent L pcb (Some Server_tcp_sent) (tcp_poll L pcb (Some Server_tcp_poll) 1
      (tcp_err L pcb (Some Server_tcp_err) (tcp_arg L pcb True (net u)))))"
    obtain e n2 where c: "tcp_connect L pcb ip port Server_tcp_connected ?n = (e, n2)" by fastforce
    have "length (next_timeout (u\<lparr>net := n2\<rparr>)) < MEMP_NUM_SYS_TIMEOUT" using assms su by simp
    from timer_needed_same [OF this] obtain v where
      v: "tcp_timer_needed (tcp_pcbs L) (u\<lparr>net := n2\<rparr>) = Some v" "same_store (u\<lparr>net := n2\<rparr>) v" by blast
    have "server_tcp_init L host ip port auth start cnt cb s = Some (e, v)"
      using True n u ok c v(1) by (simp add: server_tcp_init_def start_connect_def Let_def)
    then show ?thesis using True v(2) su(1) by (auto simp: same_store_def)
  qed
qed

lemma get_blocks_state:
  assumes "sd_disk m ready blocks capacity" "mem_ok ready capacity s" "get_blocks_to_read m s = (n, t)"
  shows "\<exists>d. t = s\<lparr>hwst := d\<rparr> \<and> ready d \<and> blocks d = blocks (hwst s)"
proof -
  have ok: "ready (hwst s)" using assms(2) by (simp add: mem_ok_def)
  obtain tc d where rd: "rd m (TIM_TC 3) (hwst s) = (tc, d)" by fastforce
  have "t = s\<lparr>hwst := hwst s\<rparr> \<or> t = s\<lparr>hwst := d\<rparr>"
    using assms(3) rd by (auto simp: get_blocks_to_read_def Let_def split: if_splits)
  then show ?thesis using ok sd_disk.disk_timer_read [OF assms(1) ok rd] by blast
qed

lemma start_upload:
  assumes "sd_disk m ready blocks capacity" "mem_ok ready capacity s" "length (next_timeout s) < MEMP_NUM_SYS_TIMEOUT"
    "upload_active s = 0xF"
  shows "\<exists>t. couchdb_start_upload m L ip s = Some t \<and>
    (if upload_active t = 0xF then
       \<exists>pcb. fst (tcp_new L (net s)) = Some pcb \<and> 0 < fst (get_blocks_to_read m s) \<and> mem_ok ready capacity t \<and>
         blocks (hwst t) = blocks (hwst s) \<and>
         (\<forall>err base. fresh_upload (queue_job blocks m pcb base s) (server_tcp (snd (server_tcp_connected True pcb err t))))
     else upload_active t = 0 \<and> upload_countdown t = UPLOAD_WAIT)"
proof -
  obtain n s1 where g: "get_blocks_to_read m s = (n, s1)" by fastforce
  from get_blocks_state [OF assms(1,2) g] obtain d where
    s1: "s1 = s\<lparr>hwst := d\<rparr>" "ready d" "blocks d = blocks (hwst s)" by blast
  have ok1: "mem_ok ready capacity s1"
    using assms(2) s1 by (simp add: mem_ok_def is_block_valid_def card_size_ok_def disk_sectors_def)
  have "length (next_timeout s1) < MEMP_NUM_SYS_TIMEOUT" using assms(3) s1 by simp
  from server_tcp_init_same [OF this] obtain err t where
    i: "server_tcp_init L couchdb_server_address ip 5984 couchdb_server_auth (read_index (memory_indexes s)) n (Some Upload_end) s1 =
      Some (err, t)" "same_store s1 t" "err = ERR_OK \<longrightarrow> 0 < n \<and> fst (tcp_new L (net s1)) \<noteq> None"
    by blast
  have st: "couchdb_start_upload m L ip s = Some (if err \<noteq> ERR_OK then upload_end t else t)"
    using g i(1) by (simp add: couchdb_start_upload_def get_current_read_block_def Let_def)
  show ?thesis
  proof (cases "err = ERR_OK")
    case False
    then show ?thesis using st by (simp add: upload_end_def)
  next
    case True
    then obtain pcb where pcb: "fst (tcp_new L (net s1)) = Some pcb" "0 < n" using i(3) by auto
    have "fresh_upload (queue_job blocks m pcb base s) (server_tcp (snd (server_tcp_connected True pcb err' t)))" for err' base
    proof -
      let ?j = "queue_job blocks m pcb base s"
      have "length (job_records ?j) = unat n" using queue_job_ok(3) [OF assms(2)] pcb(2) g by simp
      then have "of_nat (length (job_records ?j)) = n" by simp
      moreover have "job_host ?j = couchdb_server_address" "job_auth ?j = couchdb_server_auth" "job_pcb ?j = pcb"
          "of_nat (job_start ?j) = read_index (memory_indexes s)"
        by (simp_all add: queue_job_def)
      ultimately show ?thesis
        using server_tcp_init_fresh [of L ?j ip 5984 "Some Upload_end" s1 t err'] i(1) pcb(1) True by simp
    qed
    moreover have "mem_ok ready capacity t" using ok1 same_store_mem [OF i(2)] by blast
    ultimately show ?thesis using st True pcb g s1 i(2) assms(4) by (auto simp: same_store_def)
  qed
qed

section \<open>The response\<close>

text \<open>The segments of the response, handed over one after the other.\<close>

fun recv_all :: "'d mmio \<Rightarrow> 'n lwip \<Rightarrow> nat \<Rightarrow> pbuf list \<Rightarrow> ('d, 'n, 'z) serverst_scheme \<Rightarrow> ('d, 'n, 'z) serverst_scheme option" where
  "recv_all m L pcb [] s = Some s"
| "recv_all m L pcb (p # ps) s = do { (_, s) \<leftarrow> server_tcp_recv m L True pcb (Some p) ERR_OK s; recv_all m L pcb ps s }"

definition pbuf_data :: "pbuf \<Rightarrow> u8 list" where
  "pbuf_data p = concat (pbuf_payloads p)"

text \<open>A state after octets that hold \<open>k\<close> matches have been parsed up to the match position \<open>g\<close>.\<close>

definition parsed_to ::
  "('d \<Rightarrow> bool) \<Rightarrow> nat \<Rightarrow> ('d \<Rightarrow> nat \<Rightarrow> u8 list) \<Rightarrow> u8 list list \<Rightarrow> u16 \<Rightarrow> ('d, 'z) rxst_scheme \<Rightarrow> bool" where
  "parsed_to ready capacity blocks q g s \<longleftrightarrow>
     mem_ok ready capacity s \<and> mem_queue blocks s = q \<and> good_index s = g \<and> bad_index s = 0"

lemma scan_pos_append: "scan_pos g (xs @ ys) = scan_pos (scan_pos g xs) ys"
  by (simp add: scan_pos_def)

context sd_disk
begin

lemma parse_queue:
  assumes "parsed_to ready capacity blocks q g s" "scan_hits g cs < length q"
  shows "\<exists>t. parse_http_response_buffer m cs s = Some t \<and> parsed_to ready capacity blocks (drop (scan_hits g cs) q) (scan_pos g cs) t"
proof -
  from assms uploads_queue [of s "scan_hits g cs"] obtain t where
    t: "uploads m (scan_hits g cs) s = Some t" "mem_ok ready capacity t" "mem_queue blocks t = drop (scan_hits g cs) q"
    by (auto simp: parsed_to_def)
  let ?t = "t\<lparr>good_index := scan_pos g cs, bad_index := 0\<rparr>"
  have "parse_http_response_buffer m cs s = Some ?t"
    using assms(1) parse_scan [of s m cs] t(1) by (simp add: parsed_to_def)
  moreover have "parsed_to ready capacity blocks (drop (scan_hits g cs) q) (scan_pos g cs) ?t"
    using t(2,3) mem_ok_cong [of ready ?t t capacity] by (simp add: parsed_to_def mem_ok_def mem_queue_def mem_ring_def)
  ultimately show ?thesis by blast
qed

lemma chain_queue:
  assumes "parsed_to ready capacity blocks q g s" "scan_hits g (concat ps) < length q"
  shows "\<exists>t. parse_chain m ps s = Some t \<and> parsed_to ready capacity blocks (drop (scan_hits g (concat ps)) q) (scan_pos g (concat ps)) t"
  using assms
proof (induction ps arbitrary: q g s)
  case Nil
  then show ?case by (simp add: scan_pos_def)
next
  case (Cons p ps)
  then have h: "scan_hits g p + scan_hits (scan_pos g p) (concat ps) < length q" by (simp add: scan_hits_append)
  with parse_queue [OF Cons.prems(1), of p] obtain t where
    t: "parse_http_response_buffer m p s = Some t" "parsed_to ready capacity blocks (drop (scan_hits g p) q) (scan_pos g p) t"
    by auto
  from Cons.IH [OF t(2)] h t(1) show ?case by (simp add: scan_hits_append scan_pos_append add.commute)
qed

lemma recv_all_queue:
  assumes "parsed_to ready capacity blocks q g s" "scan_hits g (concat (map pbuf_data ps)) < length q"
  shows "\<exists>t. recv_all m L pcb ps s = Some t \<and>
    parsed_to ready capacity blocks (drop (scan_hits g (concat (map pbuf_data ps))) q)
      (scan_pos g (concat (map pbuf_data ps))) t"
  using assms
proof (induction ps arbitrary: q g s)
  case Nil
  then show ?case by (simp add: scan_pos_def)
next
  case (Cons p ps)
  let ?p = "pbuf_data p"
  have h: "scan_hits g ?p + scan_hits (scan_pos g ?p) (concat (map pbuf_data ps)) < length q"
    using Cons.prems(2) by (simp add: scan_hits_append)
  with chain_queue [OF Cons.prems(1), of "pbuf_payloads p", folded pbuf_data_def] obtain t where
    t: "parse_chain m (pbuf_payloads p) s = Some t" "parsed_to ready capacity blocks (drop (scan_hits g ?p) q) (scan_pos g ?p) t"
    by auto
  let ?t = "t\<lparr>net := pbuf_free L p (tcp_recved L pcb (tot_len p) (net t))\<rparr>"
  have "parsed_to ready capacity blocks (drop (scan_hits g ?p) q) (scan_pos g ?p) ?t"
    using t(2) by (simp add: parsed_to_def mem_queue_def mem_ring_def)
  from Cons.IH [OF this] h t(1) show ?case
    by (simp add: server_tcp_recv_def scan_hits_append scan_pos_append add.commute)
qed

end

section \<open>Properties\<close>

text \<open>
  Uploads are paced. While the countdown runs, every call of \<open>upload\<close> only decreases it, so
  after a finished upload exactly \<open>UPLOAD_WAIT\<close> calls go by without a connection, and the
  call after them tries again when the interface is up.
\<close>

theorem upload_paced:
  assumes "k \<le> unat UPLOAD_WAIT"
  shows "uploads_run m L k (upload_end s) = Some ((upload_end s)\<lparr>upload_countdown := UPLOAD_WAIT - of_nat k\<rparr>)"
  using uploads_run_countdown [of k "upload_end s" m L] assms by (simp add: upload_end_def)

theorem upload_paced_witness:
  "uploads_run card_mmio open_stack 600000 (upload_end sample_server) = Some ((upload_end sample_server)\<lparr>upload_countdown := 0\<rparr>)"
  using upload_paced [of 600000 card_mmio open_stack sample_server] by (simp add: UPLOAD_WAIT_def)

text \<open>
  An upload starts with the oldest records (C5). When the pause is over, no upload is running and
  the interface is up, \<open>upload\<close> either gives up until the next pause is over, or opens a
  connection for which, once it is established, the sending routine holds a request for the
  oldest records of the store, in order and as many as are readable.
\<close>

theorem upload_starts_oldest:
  assumes "sd_card m exch ready blocks capacity" "mem_ok ready capacity s" "length (next_timeout s) < MEMP_NUM_SYS_TIMEOUT"
    "upload_countdown s = 0" "upload_active s = 0"
    "netif_flags L (net s) AND NETIF_FLAG_UP \<noteq> 0" "netif_flags L (net s) AND NETIF_FLAG_LINK_UP \<noteq> 0"
  shows "\<exists>t. upload m L s = Some t \<and>
    (if upload_active t = 0xF then
       \<exists>pcb. fst (tcp_new L (net s)) = Some pcb \<and> mem_ok ready capacity t \<and>
         job_ok capacity (queue_job blocks m pcb base s) \<and> on_card (blocks (hwst t)) (queue_job blocks m pcb base s) \<and>
         job_records (queue_job blocks m pcb base s) \<noteq> [] \<and>
         fresh_upload (queue_job blocks m pcb base s) (server_tcp (snd (server_tcp_connected True pcb err t)))
     else upload_active t = 0 \<and> upload_countdown t = UPLOAD_WAIT)"
proof -
  have disk: "sd_disk m ready blocks capacity" by (rule sd_card.card_disk [OF assms(1)])
  let ?s = "s\<lparr>upload_active := 0xF, couchdb_ip := 0x0801A8C0\<rparr>"
  have u: "upload m L s = couchdb_start_upload m L 0x0801A8C0 ?s" using assms(4-7) by (simp add: upload_def server_address Let_def)
  have ok: "mem_ok ready capacity ?s"
    using assms(2) by (simp add: mem_ok_def is_block_valid_def card_size_ok_def disk_sectors_def)
  have g: "fst (get_blocks_to_read m ?s) = fst (get_blocks_to_read m s)"
    by (simp add: get_blocks_to_read_def Let_def split: prod.splits)
  have j: "queue_job blocks m pcb b ?s = queue_job blocks m pcb b s" for pcb b
    by (simp add: queue_job_def g mem_queue_def mem_ring_def)
  from start_upload [OF disk ok, of L "0x0801A8C0"] assms(3) obtain t where
    t: "couchdb_start_upload m L 0x0801A8C0 ?s = Some t"
      "if upload_active t = 0xF then
         \<exists>pcb. fst (tcp_new L (net s)) = Some pcb \<and> 0 < fst (get_blocks_to_read m s) \<and> mem_ok ready capacity t \<and>
           blocks (hwst t) = blocks (hwst s) \<and>
           (\<forall>err base. fresh_upload (queue_job blocks m pcb base ?s) (server_tcp (snd (server_tcp_connected True pcb err t))))
       else upload_active t = 0 \<and> upload_countdown t = UPLOAD_WAIT"
    by (auto simp: g cong: if_cong)
  show ?thesis
  proof (cases "upload_active t = 0xF")
    case True
    with t(2) obtain pcb where p: "fst (tcp_new L (net s)) = Some pcb" "0 < fst (get_blocks_to_read m s)" "mem_ok ready capacity t"
        "blocks (hwst t) = blocks (hwst s)"
        "fresh_upload (queue_job blocks m pcb base s) (server_tcp (snd (server_tcp_connected True pcb err t)))"
      by (auto simp: j)
    have "job_records (queue_job blocks m pcb base s) \<noteq> []"
      using queue_job_ok(3) [OF assms(2) p(2), of blocks pcb base] p(2) by (auto simp: word_less_nat_alt)
    with p queue_job_ok(1,2) [OF assms(2) p(2)] True t(1) u show ?thesis by auto
  next
    case False
    with t u show ?thesis by auto
  qed
qed

text \<open>
  The answer to an upload removes the uploaded records (C4). However the response is cut into
  segments and the segments into buffers, once all of them have been handed to the connection's
  callback, the \<open>n\<close> acknowledged records, and no others, have left the front of the store.
\<close>

theorem response_in_segments:
  assumes "sd_card m exch ready blocks capacity" "mem_ok ready capacity s"
    and "concat (map pbuf_data ps) = concat (map (\<lambda>u. u @ pattern) us) @ v"
    and "\<forall>u \<in> set us. u \<noteq> [] \<and> last u \<notin> set pattern \<and> occurrences u = 0" and "occurrences v = 0"
    and "length us < length (mem_queue blocks s)"
  shows "\<exists>t. recv_all m L pcb ps (snd (server_tcp_connected True pcb err s)) = Some t \<and> mem_ok ready capacity t \<and>
    mem_queue blocks t = drop (length us) (mem_queue blocks s)"
proof -
  let ?s = "snd (server_tcp_connected True pcb err s)"
  have "parsed_to ready capacity blocks (mem_queue blocks s) 0 ?s"
    using assms(2) mem_ok_cong [of ready ?s s capacity]
    by (simp add: parsed_to_def server_tcp_connected_def reset_http_response_parser_def mem_ok_def mem_queue_def mem_ring_def)
  from sd_disk.recv_all_queue [OF sd_card.card_disk [OF assms(1)] this, of ps L pcb] show ?thesis
    using scan_hits_documents [OF assms(4,5)] assms(3,6) by (auto simp: parsed_to_def)
qed

definition idle_server :: "(rcard, string) serverst" where
  "idle_server = sample_server\<lparr>hwst := blank_card\<lparr>tcount := 10\<rparr>, memory_indexes := \<lparr>write_index = 4, read_index = 1\<rparr>,
     last_write_time := 0, upload_active := 0, upload_countdown := 0\<rparr>"

lemma idle_server_fields:
  "sectors idle_server = 8" "mem_buf idle_server = replicate 6 0" "next_timeout idle_server = []" "net idle_server = []"
  "tcpip_tcp_timer_active idle_server = 0" "hwst idle_server = blank_card\<lparr>tcount := 10\<rparr>"
  "memory_indexes idle_server = \<lparr>write_index = 4, read_index = 1\<rparr>" "last_write_time idle_server = 0"
  "upload_active idle_server = 0" "upload_countdown idle_server = 0"
  by (simp_all add: idle_server_def sample_server_def sntpst.defs sample_sntp_def lwipst.defs open_net_def gwst.defs
      sample_gateway_def rxst.defs sample_rx_def writest.defs sample_writer_def timest.defs sample_clock_def memst.defs sample_store_def)

lemma idle_server_ok: "mem_ok card_ready 0x800000 idle_server"
  by (simp add: mem_ok_def idle_server_fields card_size_ok_def is_block_valid_def disk_sectors_def card_ready_def blank_card_def)

lemma idle_server_blocks: "fst (get_blocks_to_read card_mmio idle_server) = 3"
  by (simp add: get_blocks_to_read_def idle_server_fields card_mmio_def card_rd_def blank_card_def Let_def)

lemma bind_loop_open: "bind_loop open_stack pcb 100 s = (ERR_OK, snd (EPHEMERAL_PORT s))"
proof -
  have "bind_loop open_stack pcb (Suc 99) s = (ERR_OK, snd (EPHEMERAL_PORT s))"
    by (simp only: bind_loop.simps) (simp add: open_stack_def Let_def split: prod.splits)
  then show ?thesis by simp
qed

lemma idle_upload: "\<exists>t. upload card_mmio open_stack idle_server = Some t \<and> upload_active t = 0xF"
proof -
  let ?s = "idle_server\<lparr>upload_active := 0xF, couchdb_ip := 0x0801A8C0\<rparr>"
  have flags: "netif_flags open_stack n AND NETIF_FLAG_UP \<noteq> 0" "netif_flags open_stack n AND NETIF_FLAG_LINK_UP \<noteq> 0" for n
    by (simp_all add: open_stack_def NETIF_FLAG_UP_def NETIF_FLAG_LINK_UP_def)
  have u: "upload card_mmio open_stack idle_server = couchdb_start_upload card_mmio open_stack 0x0801A8C0 ?s"
    using flags by (simp add: upload_def idle_server_fields server_address Let_def)
  obtain d where g: "get_blocks_to_read card_mmio ?s = (3, ?s\<lparr>hwst := d\<rparr>)"
    by (simp add: get_blocks_to_read_def idle_server_fields card_mmio_def card_rd_def blank_card_def Let_def)
  have stack: "tcp_new open_stack = (\<lambda>n. (Some 1, n))" "tcp_connect open_stack = (\<lambda>_ _ _ _ n. (ERR_OK, n))"
    by (simp_all add: open_stack_def)
  show ?thesis unfolding u
    by (simp add: couchdb_start_upload_def g server_tcp_init_def stack bind_loop_open start_connect_def tcp_timer_needed_def sys_timeout_def
        idle_server_fields MEMP_NUM_SYS_TIMEOUT_def EPHEMERAL_PORT_def Let_def)
qed

theorem upload_starts_oldest_witness:
  "\<exists>t. upload card_mmio open_stack idle_server = Some t \<and> mem_ok card_ready 0x800000 t \<and>
    on_card (store (hwst t)) (queue_job store card_mmio 1 [] idle_server) \<and>
    job_records (queue_job store card_mmio 1 [] idle_server) \<noteq> [] \<and>
    fresh_upload (queue_job store card_mmio 1 [] idle_server) (server_tcp (snd (server_tcp_connected True 1 ERR_OK t)))"
proof -
  have "length (next_timeout idle_server) < MEMP_NUM_SYS_TIMEOUT" by (simp add: idle_server_fields MEMP_NUM_SYS_TIMEOUT_def)
  moreover have "netif_flags open_stack (net idle_server) AND NETIF_FLAG_UP \<noteq> 0"
      "netif_flags open_stack (net idle_server) AND NETIF_FLAG_LINK_UP \<noteq> 0"
    by (simp_all add: open_stack_def NETIF_FLAG_UP_def NETIF_FLAG_LINK_UP_def)
  ultimately obtain t where t: "upload card_mmio open_stack idle_server = Some t"
    "if upload_active t = 0xF then
       \<exists>pcb. fst (tcp_new open_stack (net idle_server)) = Some pcb \<and> mem_ok card_ready 0x800000 t \<and>
         job_ok 0x800000 (queue_job store card_mmio pcb [] idle_server) \<and> on_card (store (hwst t)) (queue_job store card_mmio pcb [] idle_server) \<and>
         job_records (queue_job store card_mmio pcb [] idle_server) \<noteq> [] \<and>
         fresh_upload (queue_job store card_mmio pcb [] idle_server) (server_tcp (snd (server_tcp_connected True pcb ERR_OK t)))
     else upload_active t = 0 \<and> upload_countdown t = UPLOAD_WAIT"
    using upload_starts_oldest [OF rc.sd_card_axioms idle_server_ok _ idle_server_fields(10,9), of open_stack] by blast
  moreover have "upload_active t = 0xF" using idle_upload t(1) by simp
  ultimately show ?thesis by (auto simp: open_stack_def)
qed

text \<open>The response of the server to two documents, in two segments, the first of two buffers.\<close>

definition response_segments :: "pbuf list" where
  "response_segments =
     [\<lparr>pbuf_id = 1, pbuf_payloads = [ascii ''[{'', take 2 pattern]\<rparr>,
      \<lparr>pbuf_id = 2, pbuf_payloads = [drop 2 pattern @ ascii ''1},{'' @ pattern @ ascii ''2}]'']\<rparr>]"

theorem response_in_segments_witness:
  "\<exists>t. recv_all card_mmio open_stack 1 response_segments (snd (server_tcp_connected True 1 ERR_OK idle_server)) = Some t \<and>
    mem_queue store t = drop 2 (mem_queue store idle_server)"
proof -
  have "concat (map pbuf_data response_segments) = concat (map (\<lambda>u. u @ pattern) [ascii ''[{'', ascii ''1},{'']) @ ascii ''2}]''"
    by (simp add: response_segments_def pbuf_data_def)
  moreover have "\<forall>u \<in> set [ascii ''[{'', ascii ''1},{'']. u \<noteq> [] \<and> last u \<notin> set pattern \<and> occurrences u = 0"
    by (simp add: ascii_def occurrences_def) (simp add: pattern_eval)
  moreover have "occurrences (ascii ''2}]'') = 0" by (simp add: ascii_def occurrences_def)
  moreover have "length [ascii ''[{'', ascii ''1},{''] < length (mem_queue store idle_server)"
    by (simp add: idle_server_fields mem_queue_def mem_ring_def length_ring ring_dist_def)
  ultimately show ?thesis
    using response_in_segments [OF rc.sd_card_axioms idle_server_ok, of response_segments
        "[ascii ''[{'', ascii ''1},{'']" "ascii ''2}]''" open_stack 1 ERR_OK] by (simp add: numeral_2_eq_2) blast
qed

end
