(* ===== verification/Net_Service.thy ===== *)
theory Net_Service
  imports Upload
begin

text \<open>
  The network service, \<open>src/src/net_init_service.c\<close>: the start of the stack and the body of the main loop's
  network part. While one of the stack's activities runs (a received packet, a timer), it
  calls the functions that the program has registered; \<open>run_events\<close> is that conversation. The
  millisecond timer's set-up is in \<open>src/src/lwip/arch/lpc_arch_systick.c\<close>, the LED macros in \<open>src/inc/leds.h\<close>.
\<close>

section \<open>Globals\<close>

record ('d, 'n) mainst = "('d, 'n) serverst" +
  SystemCoreClock :: u32
  rx_queue_stat :: int

section \<open>LEDs and the millisecond timer\<close>

definition INIT_LEDS :: "'d mmio \<Rightarrow> 'd \<Rightarrow> 'd" where
  "INIT_LEDS m d = reg_and m PINSEL4 (push_bit 0 3 OR push_bit 6 3) d"

definition GREEN_ON :: "'d mmio \<Rightarrow> 'd \<Rightarrow> 'd" where
  "GREEN_ON m d = reg_or m (FIODIR 2) (push_bit 0 1) d"

definition GREEN_OFF :: "'d mmio \<Rightarrow> 'd \<Rightarrow> 'd" where
  "GREEN_OFF m d = reg_and m (FIODIR 2) (NOT (push_bit 0 1)) d"

definition YELLOW_ON :: "'d mmio \<Rightarrow> 'd \<Rightarrow> 'd" where
  "YELLOW_ON m d = reg_or m (FIODIR 2) (push_bit 3 1) d"

definition YELLOW_OFF :: "'d mmio \<Rightarrow> 'd \<Rightarrow> 'd" where
  "YELLOW_OFF m d = reg_and m (FIODIR 2) (NOT (push_bit 3 1)) d"

definition SysTick_Config :: "'d mmio \<Rightarrow> u32 \<Rightarrow> 'd \<Rightarrow> u32 \<times> 'd" where
  "SysTick_Config m ticks d =
     (if ticks - 1 > 0xFFFFFF then (1, d)
      else let d = wr m SYST_LOAD (ticks - 1) d;
               d = wr m (NVIC_PRIO SysTick_IRQn) (push_bit 5 1 - 1) d;
               d = wr m SYST_VAL 0 d;
               d = wr m SYST_CTRL (push_bit 2 1 OR push_bit 1 1 OR push_bit 0 1) d
           in (0, d))"

text \<open>\<open>None\<close> stands for the endless loop on an error.\<close>

definition SysTick_Enable :: "'d mmio \<Rightarrow> ('d, 'n, 'z) mainst_scheme \<Rightarrow> ('d, 'n, 'z) mainst_scheme option" where
  "SysTick_Enable m s =
     (case SysTick_Config m (SystemCoreClock s div 1000) (hwst s) of (err, d) \<Rightarrow>
        if err \<noteq> 0 then None else Some (s\<lparr>hwst := d\<rparr>))"

section \<open>Callbacks\<close>

definition netif_status_change :: "'n lwip \<Rightarrow> ('d, 'n, 'z) sntpst_scheme \<Rightarrow> ('d, 'n, 'z) sntpst_scheme option" where
  "netif_status_change L s =
     (if netif_flags L (net s) AND NETIF_FLAG_UP \<noteq> 0 then sntp_init L s else Some (sntp_cleanup L s))"

text \<open>The function that the stack calls on an event, with the value it returns.\<close>

definition call_event ::
  "'d mmio \<Rightarrow> 'n lwip \<Rightarrow> event \<Rightarrow> ('d, 'n, 'z) serverst_scheme \<Rightarrow> (err_t \<times> ('d, 'n, 'z) serverst_scheme) option" where
  "call_event m L ev s =
     (case ev of
        Ev_connected arg pcb err \<Rightarrow> Some (server_tcp_connected arg pcb err s)
      | Ev_err arg err \<Rightarrow> map_option (Pair ERR_OK) (server_tcp_err L arg err s)
      | Ev_sent arg pcb len \<Rightarrow> server_tcp_sent m L arg pcb len s
      | Ev_poll arg pcb \<Rightarrow> Some (server_tcp_poll arg pcb s)
      | Ev_recv arg pcb p err \<Rightarrow> server_tcp_recv m L arg pcb p err s
      | Ev_udp_recv p addr port \<Rightarrow> map_option (Pair ERR_OK) (sntp_recv m L p addr port s)
      | Ev_dns_found addr \<Rightarrow> map_option (Pair ERR_OK) (sntp_dns_found L addr s)
      | Ev_netif_status \<Rightarrow> map_option (Pair ERR_OK) (netif_status_change L s)
      | Ev_tcp_timer_needed \<Rightarrow> map_option (Pair ERR_OK) (tcp_timer_needed (tcp_pcbs L) s))"

partial_function (option) run_events ::
  "'d mmio \<Rightarrow> 'n lwip \<Rightarrow> ('d, 'n, 'z) serverst_scheme \<Rightarrow> ('d, 'n, 'z) serverst_scheme option" where
  "run_events m L s =
     (case next_event L (net s) of
        None \<Rightarrow> Some s
      | Some (ev, n) \<Rightarrow>
          do { (r, s) \<leftarrow> call_event m L ev (s\<lparr>net := n\<rparr>);
               run_events m L (s\<lparr>net := event_result L r (net s)\<rparr>) })"

definition run_activity ::
  "'d mmio \<Rightarrow> 'n lwip \<Rightarrow> activity \<Rightarrow> ('d, 'n, 'z) serverst_scheme \<Rightarrow> ('d, 'n, 'z) serverst_scheme option" where
  "run_activity m L a s = run_events m L (s\<lparr>net := begin_activity L a (net s)\<rparr>)"

text \<open>The function that a timeout calls.\<close>

definition call_timeout ::
  "'d mmio \<Rightarrow> 'n lwip \<Rightarrow> sys_timeout_handler \<Rightarrow> nat \<Rightarrow> ('d, 'n, 'z) serverst_scheme \<Rightarrow> ('d, 'n, 'z) serverst_scheme option" where
  "call_timeout m L h arg s =
     (case h of
        Tcpip_tcp_timer \<Rightarrow> tcpip_tcp_timer (run_activity m L Tcp_tmr) (tcp_pcbs L) s
      | Ip_reass_timer \<Rightarrow> ip_reass_timer (run_activity m L Ip_reass_tmr) s
      | Arp_timer \<Rightarrow> arp_timer (run_activity m L Etharp_tmr) s
      | Dhcp_timer_coarse \<Rightarrow> dhcp_timer_coarse (run_activity m L Dhcp_coarse_tmr) s
      | Dhcp_timer_fine \<Rightarrow> dhcp_timer_fine (run_activity m L Dhcp_fine_tmr) s
      | Dns_timer \<Rightarrow> dns_timer (run_activity m L Dns_tmr) s
      | Sntp_request \<Rightarrow> sntp_request L s
      | Sntp_retry \<Rightarrow> sntp_retry s)"

section \<open>Start and service\<close>

definition lwip_init :: "'n lwip \<Rightarrow> ('d, 'n, 'z) mainst_scheme \<Rightarrow> ('d, 'n, 'z) mainst_scheme option" where
  "lwip_init L s = sys_timeouts_init (s\<lparr>net := lwip_modules_init L (net s)\<rparr>)"

text \<open>\<open>while (lpc_rx_queue(&lpc_netif));\<close>\<close>

partial_function (option) rx_queue_all :: "'n lwip \<Rightarrow> 'n \<Rightarrow> 'n option" where
  "rx_queue_all L n = (case lpc_rx_queue L n of (r, n) \<Rightarrow> if r \<noteq> 0 then rx_queue_all L n else Some n)"

text \<open>The loop of \<open>net_service\<close> goes on only while descriptors are left and no error has occurred.\<close>

partial_function (option) rx_requeue :: "'n lwip \<Rightarrow> 'n \<Rightarrow> (int \<times> 'n) option" where
  "rx_requeue L n = (case lpc_rx_queue L n of (r, n) \<Rightarrow> if r = 1 then rx_requeue L n else Some (r, n))"

definition net_init :: "'d mmio \<Rightarrow> 'n lwip \<Rightarrow> ('d, 'n, 'z) mainst_scheme \<Rightarrow> ('d, 'n, 'z) mainst_scheme option" where
  "net_init m L s =
     do { s \<leftarrow> SysTick_Enable m s;
          s \<leftarrow> lwip_init L s;
          let s = s\<lparr>hwst := INIT_LEDS m (hwst s)\<rparr>;
          s \<leftarrow> run_activity m L Netif_add s;
          let s = s\<lparr>net := netif_setup L (net s)\<rparr>;
          n \<leftarrow> rx_queue_all L (net s);
          run_activity m L Dhcp_start (s\<lparr>net := n\<rparr>) }"

text \<open>\<open>console_flush\<close> does nothing: its body is compiled only with \<open>CONSOLE_ACTIVE\<close>, which \<open>console.c\<close> undefines.\<close>

definition net_service :: "'d mmio \<Rightarrow> 'n lwip \<Rightarrow> ('d, 'n, 'z) mainst_scheme \<Rightarrow> ('d, 'n, 'z) mainst_scheme option" where
  "net_service m L s =
     do { (stat, n) \<leftarrow> rx_requeue L (net s);
          let s = s\<lparr>net := n, rx_queue_stat := stat\<rparr>;
          s \<leftarrow> (if rx_queue_stat s \<noteq> -1 then run_activity m L Lpc_enetif_input s else Some s);
          let s = s\<lparr>net := lpc_tx_reclaim L (net s)\<rparr>;
          s \<leftarrow> sys_check_timeouts (call_timeout m L) s;
          s \<leftarrow> run_activity m L Lpc_phy_sts_sm s;
          let s = (if activity_result L (net s) \<noteq> 0 then
                     (if netif_flags L (net s) AND NETIF_FLAG_LINK_UP \<noteq> 0 then s\<lparr>hwst := GREEN_ON m (hwst s)\<rparr>
                      else s\<lparr>hwst := GREEN_OFF m (hwst s)\<rparr>)
                   else s);
          s \<leftarrow> upload m L s;
          server_tcp_service m L s }"

end
