(* ===== verification/Gw_Clock.thy ===== *)
theory Gw_Clock
  imports Mmio
begin

text \<open>
  The processor clock: \<open>src/chip/system_LPC17xx.c\<close>, which runs the core from the internal
  oscillator through the phase-locked loop PLL0, and \<open>src/src/clocking.c\<close>, which later switches to the
  1 MHz clock that the radio chip supplies. The loop's registers take effect only after a feed
  sequence; a reference description of that, after the chip's user manual, is what the
  register interface has to agree with.
\<close>

section \<open>Definitions\<close>

definition XTAL :: u32 where "XTAL = 12000000"
definition SYS_OSC_CLK :: u32 where "SYS_OSC_CLK = XTAL"
definition IRC :: u32 where "IRC = 4000000"
definition RTC :: u32 where "RTC = 32768"
definition PLLE0 :: u32 where "PLLE0 = push_bit 24 1"
definition PLLC0 :: u32 where "PLLC0 = push_bit 25 1"
definition PLOCK0 :: u32 where "PLOCK0 = push_bit 26 1"

definition PLL0InputClock :: "'d mmio \<Rightarrow> 'd \<Rightarrow> u32 \<times> 'd" where
  "PLL0InputClock m d =
     (case rd m SC_CLKSRCSEL d of (v, d) \<Rightarrow>
        (if v AND 0x3 = 0x0 then IRC else if v AND 0x3 = 0x1 then SYS_OSC_CLK else if v AND 0x3 = 0x2 then RTC else 0, d))"

text \<open>The new value of \<open>SystemCoreClock\<close>; \<open>None\<close> for a division by zero.\<close>

definition SystemCoreClockUpdate :: "'d mmio \<Rightarrow> 'd \<Rightarrow> (u32 \<times> 'd) option" where
  "SystemCoreClockUpdate m d =
     (case PLL0InputClock m d of (clock, d) \<Rightarrow>
      case rd m SC_PLL0STAT d of (stat, d) \<Rightarrow>
        do { (clock, d) \<leftarrow>
               (if stat AND 0x03000000 = 0x03000000 then
                  (case rd m SC_PLL0STAT d of (stat, d) \<Rightarrow>
                     (let mul = (ucast (stat AND 0x00007FFF) + 1 :: u16)
                      in case rd m SC_PLL0STAT d of (stat, d) \<Rightarrow>
                           (let n = (ucast (drop_bit 16 (stat AND 0x00FF0000)) + 1 :: u8)
                            in if n = 0 then None else Some (clock * (2 * ucast mul) div ucast n, d))))
                else Some (clock, d));
             (case rd m SC_CCLKCFG d of (c, d) \<Rightarrow> Some (clock div ((c AND 0xFF) + 1), d)) })"

definition PLL0_feed :: "'d mmio \<Rightarrow> 'd \<Rightarrow> 'd" where
  "PLL0_feed m d = wr m SC_PLL0FEED 0x55 (wr m SC_PLL0FEED 0xAA d)"

definition ShutdownPLL0 :: "'d mmio \<Rightarrow> 'd \<Rightarrow> 'd" where
  "ShutdownPLL0 m d =
     (let d = PLL0_feed m (wr m SC_PLL0CON 0x1 d)
      in PLL0_feed m (wr m SC_PLL0CON 0x0 d))"

definition EnablePLL0 :: "'d mmio \<Rightarrow> u16 \<Rightarrow> u8 \<Rightarrow> 'd \<Rightarrow> 'd" where
  "EnablePLL0 m mul n d =
     (let d = PLL0_feed m (wr m SC_PLL0CFG (push_bit 16 (ucast n - 1) OR (ucast mul - 1)) d)
      in PLL0_feed m (wr m SC_PLL0CON 0x01 d))"

definition SwitchToPLL0 :: "'d mmio \<Rightarrow> 'd \<Rightarrow> 'd option" where
  "SwitchToPLL0 m d =
     do { d \<leftarrow> poll m SC_PLL0STAT (\<lambda>v. v AND 0x04000000 \<noteq> 0) d;
          Some (PLL0_feed m (wr m SC_PLL0CON 0x03 d)) }"

text \<open>The build does not define \<open>USE_EXTERNAL_XTAL\<close>.\<close>

definition SystemInit :: "'d mmio \<Rightarrow> 'd \<Rightarrow> 'd option" where
  "SystemInit m d =
     (let d = ShutdownPLL0 m d;
          d = wr m SC_CCLKCFG 0x02 d;
          d = EnablePLL0 m 75 2 d
      in SwitchToPLL0 m d)"

definition switch_to_stable_clock :: "'d mmio \<Rightarrow> 'd \<Rightarrow> 'd option" where
  "switch_to_stable_clock m d =
     do { let d = reg_or m SC_SCS 0x0020 d;
          d \<leftarrow> poll m SC_SCS (\<lambda>v. v AND 0x0040 \<noteq> 0) d;
          let d = PLL0_feed m (wr m SC_PLL0CON 0x01 d);
          let d = PLL0_feed m (wr m SC_PLL0CON 0x00 d);
          let d = wr m SC_CCLKCFG 0x02 d;
          let d = wr m SC_CLKSRCSEL 0x00000001 d;
          let d = PLL0_feed m (wr m SC_PLL0CFG 0x0001012B d);
          let d = PLL0_feed m (wr m SC_PLL0CON 0x01 d);
          d \<leftarrow> poll m SC_PLL0STAT (\<lambda>v. v AND PLOCK0 \<noteq> 0) d;
          let d = PLL0_feed m (wr m SC_PLL0CON 0x03 d);
          poll m SC_PLL0STAT (\<lambda>v. v AND (PLLE0 OR PLLC0) \<noteq> 0) d }"

section \<open>The clock generator\<close>

text \<open>
  The registers as written, the control and configuration in effect, whether the first half of
  the feed sequence has been written, and the number of reads until the main oscillator is
  stable and the loop has locked.
\<close>

record pll =
  scs :: u32
  clksrcsel :: u32
  cclkcfg :: u32
  pllcon :: u32
  pllcfg :: u32
  con_act :: u32
  cfg_act :: u32
  fed :: bool
  osc_wait :: nat
  lock_wait :: nat
  lock_time :: nat

definition pll_regs :: "reg set" where
  "pll_regs = {SC_SCS, SC_PLL0CON, SC_PLL0CFG, SC_PLL0FEED, SC_PLL0STAT, SC_CCLKCFG, SC_CLKSRCSEL}"

definition pll_stat :: "pll \<Rightarrow> u32" where
  "pll_stat p = (cfg_act p AND 0x00FF7FFF) OR push_bit 24 (con_act p AND 3) OR
     (if con_act p AND 1 \<noteq> 0 \<and> lock_wait p = 0 then PLOCK0 else 0)"

definition pll_rd :: "reg \<Rightarrow> pll \<Rightarrow> u32 \<times> pll" where
  "pll_rd r p =
     (let q = p\<lparr>fed := False\<rparr>
      in if r = SC_PLL0STAT then (pll_stat p, q\<lparr>lock_wait := lock_wait p - 1\<rparr>)
         else if r = SC_SCS then
           (if scs p AND 0x20 \<noteq> 0 \<and> osc_wait p = 0 then scs p OR 0x40 else scs p AND 0xFFFFFFBF, q\<lparr>osc_wait := osc_wait p - 1\<rparr>)
         else if r = SC_CLKSRCSEL then (clksrcsel p, q)
         else if r = SC_CCLKCFG then (cclkcfg p, q)
         else if r = SC_PLL0CON then (pllcon p, q)
         else if r = SC_PLL0CFG then (pllcfg p, q)
         else (0, q))"

definition pll_wr :: "reg \<Rightarrow> u32 \<Rightarrow> pll \<Rightarrow> pll" where
  "pll_wr r v p =
     (let q = p\<lparr>fed := False\<rparr>
      in if r = SC_PLL0FEED then
           (if v = 0xAA then p\<lparr>fed := True\<rparr>
            else if v = 0x55 \<and> fed p then
              q\<lparr>con_act := pllcon p, cfg_act := pllcfg p,
                lock_wait := (if con_act p AND 1 = pllcon p AND 1 \<and> cfg_act p = pllcfg p then lock_wait p else lock_time p)\<rparr>
            else q)
         else if r = SC_PLL0CON then q\<lparr>pllcon := v\<rparr>
         else if r = SC_PLL0CFG then q\<lparr>pllcfg := v\<rparr>
         else if r = SC_CCLKCFG then q\<lparr>cclkcfg := v\<rparr>
         else if r = SC_CLKSRCSEL then q\<lparr>clksrcsel := v\<rparr>
         else if r = SC_SCS then q\<lparr>scs := v\<rparr>
         else q)"

definition pll_chip :: "'d mmio \<Rightarrow> ('d \<Rightarrow> pll) \<Rightarrow> bool" where
  "pll_chip m pll \<longleftrightarrow>
     (\<forall>r \<in> pll_regs. \<forall>d. fst (rd m r d) = fst (pll_rd r (pll d)) \<and> pll (snd (rd m r d)) = snd (pll_rd r (pll d))) \<and>
     (\<forall>r \<in> pll_regs. \<forall>v d. pll (wr m r v d) = pll_wr r v (pll d))"

text \<open>The core's frequency in Hz, with the main oscillator at \<open>osc\<close>.\<close>

definition core_clock :: "nat \<Rightarrow> pll \<Rightarrow> nat" where
  "core_clock osc p =
     (let inp = (if clksrcsel p AND 3 = 0 then 4000000 else if clksrcsel p AND 3 = 1 then osc
                 else if clksrcsel p AND 3 = 2 then 32768 else 0);
          pllclk = (if con_act p AND 3 = 3
                    then 2 * (unat (cfg_act p AND 0x7FFF) + 1) * inp div (unat (drop_bit 16 (cfg_act p) AND 0xFF) + 1) else inp)
      in pllclk div (unat (cclkcfg p AND 0xFF) + 1))"

section \<open>Runs of the clock generator\<close>

lemma pll_chipD:
  assumes "pll_chip m pll" "r \<in> pll_regs"
  shows "pll (wr m r v d) = pll_wr r v (pll d)" "rd m r d = (x, d') \<Longrightarrow> x = fst (pll_rd r (pll d)) \<and> pll d' = snd (pll_rd r (pll d))"
  using assms unfolding pll_chip_def by (blast, metis fst_conv snd_conv)

definition latch :: "pll \<Rightarrow> pll" where
  "latch p = p\<lparr>fed := False, con_act := pllcon p, cfg_act := pllcfg p,
     lock_wait := (if con_act p AND 1 = pllcon p AND 1 \<and> cfg_act p = pllcfg p then lock_wait p else lock_time p)\<rparr>"

lemma PLL0_feed_latch: "pll_chip m pll \<Longrightarrow> pll (PLL0_feed m d) = latch (pll d)"
  by (simp add: PLL0_feed_def pll_chipD pll_regs_def pll_wr_def latch_def Let_def)

lemma pll_writes:
  assumes "pll_chip m pll"
  shows "pll (wr m SC_PLL0CON v d) = (pll d)\<lparr>fed := False, pllcon := v\<rparr>"
    "pll (wr m SC_PLL0CFG v d) = (pll d)\<lparr>fed := False, pllcfg := v\<rparr>"
    "pll (wr m SC_CCLKCFG v d) = (pll d)\<lparr>fed := False, cclkcfg := v\<rparr>"
    "pll (wr m SC_CLKSRCSEL v d) = (pll d)\<lparr>fed := False, clksrcsel := v\<rparr>"
  using assms by (simp_all add: pll_chipD pll_regs_def pll_wr_def Let_def)

lemma and_flag: "(v :: u32) AND push_bit n 1 \<noteq> 0 \<longleftrightarrow> bit v n"
  by (simp add: push_bit_eq_mult and_exp_eq_0_iff_not_bit)

lemma stat_lock: "pll_stat p AND PLOCK0 \<noteq> 0 \<longleftrightarrow> con_act p AND 1 \<noteq> 0 \<and> lock_wait p = 0"
proof -
  have "bit (0x00FF7FFF :: u32) 26 = False" "bit (3 :: u32) 2 = False" by simp_all
  then show ?thesis unfolding PLOCK0_def and_flag pll_stat_def by (auto simp: bit_simps)
qed

lemma poll_lock:
  assumes "pll_chip m pll" "con_act (pll d) AND 1 \<noteq> 0"
  shows "\<exists>d'. poll m SC_PLL0STAT (\<lambda>v. v AND PLOCK0 \<noteq> 0) d = Some d' \<and> pll d' = (pll d)\<lparr>fed := False, lock_wait := 0\<rparr>"
  using assms(2)
proof (induction "lock_wait (pll d)" arbitrary: d)
  case 0
  obtain v d' where rd: "rd m SC_PLL0STAT d = (v, d')" by fastforce
  with pll_chipD(2) [OF assms(1) _ rd] 0 have "v AND PLOCK0 \<noteq> 0" "pll d' = (pll d)\<lparr>fed := False, lock_wait := 0\<rparr>"
    by (simp_all add: pll_regs_def pll_rd_def Let_def stat_lock)
  with rd show ?case by (subst poll.simps) simp
next
  case (Suc n)
  obtain v d' where rd: "rd m SC_PLL0STAT d = (v, d')" by fastforce
  with pll_chipD(2) [OF assms(1) _ rd] Suc.hyps(2) have
    v: "v AND PLOCK0 = 0" "pll d' = (pll d)\<lparr>fed := False, lock_wait := n\<rparr>"
    using stat_lock [of "pll d"] by (simp_all add: pll_regs_def pll_rd_def Let_def)
  with Suc.hyps(1) [of d'] Suc.prems rd show ?case by (subst poll.simps) simp
qed

lemma stat_enabled: "pll_stat p AND (PLLE0 OR PLLC0) \<noteq> 0 \<longleftrightarrow> con_act p AND 3 \<noteq> 0"
proof -
  have 3: "(3 :: u32) = push_bit 0 1 OR push_bit 1 1" by simp
  have or0: "v AND (a OR b) \<noteq> 0 \<longleftrightarrow> v AND a \<noteq> 0 \<or> v AND b \<noteq> 0" for v a b :: u32
    by (simp add: bit.conj_disj_distrib or_eq_0_iff)
  have "bit (pll_stat p) 24 = bit (con_act p) 0" "bit (pll_stat p) 25 = bit (con_act p) 1"
    by (simp_all add: pll_stat_def PLOCK0_def bit_simps)
  then show ?thesis unfolding 3 PLLE0_def PLLC0_def or0 and_flag by simp
qed

lemma poll_enabled:
  assumes "pll_chip m pll" "con_act (pll d) AND 3 \<noteq> 0"
  shows "\<exists>d'. poll m SC_PLL0STAT (\<lambda>v. v AND (PLLE0 OR PLLC0) \<noteq> 0) d = Some d' \<and>
    pll d' = (pll d)\<lparr>fed := False, lock_wait := lock_wait (pll d) - 1\<rparr>"
proof -
  obtain v d' where rd: "rd m SC_PLL0STAT d = (v, d')" by fastforce
  with pll_chipD(2) [OF assms(1) _ rd] assms(2) stat_enabled [of "pll d"] show ?thesis
    by (subst poll.simps) (simp add: pll_regs_def pll_rd_def Let_def)
qed

lemma poll_osc:
  assumes "pll_chip m pll" "scs (pll d) AND 0x20 \<noteq> 0"
  shows "\<exists>d'. poll m SC_SCS (\<lambda>v. v AND 0x0040 \<noteq> 0) d = Some d' \<and> pll d' = (pll d)\<lparr>fed := False, osc_wait := 0\<rparr>"
  using assms(2)
proof (induction "osc_wait (pll d)" arbitrary: d)
  case 0
  have on: "(w OR 0x40) AND 0x40 \<noteq> (0 :: u32)" for w
    using and_flag [of "w OR 0x40" 6] by (simp add: bit_simps)
  obtain v d' where rd: "rd m SC_SCS d = (v, d')" by fastforce
  with pll_chipD(2) [OF assms(1) _ rd] 0 have "v AND 0x40 \<noteq> 0" "pll d' = (pll d)\<lparr>fed := False, osc_wait := 0\<rparr>"
    using on by (simp_all add: pll_regs_def pll_rd_def Let_def)
  with rd show ?case by (subst poll.simps) simp
next
  case (Suc n)
  have off: "(w AND 0xFFFFFFBF) AND 0x40 = (0 :: u32)" for w by (simp add: and.assoc)
  obtain v d' where rd: "rd m SC_SCS d = (v, d')" by fastforce
  with pll_chipD(2) [OF assms(1) _ rd] Suc.hyps(2) have
    v: "v AND 0x40 = 0" "pll d' = (pll d)\<lparr>fed := False, osc_wait := n\<rparr>"
    using off by (simp_all add: pll_regs_def pll_rd_def Let_def)
  with Suc.hyps(1) [of d'] Suc.prems rd show ?case by (subst poll.simps) simp
qed

definition running :: "pll \<Rightarrow> u32 \<Rightarrow> u32 \<Rightarrow> bool" where
  "running p src cfg \<longleftrightarrow> clksrcsel p = src \<and> con_act p = 3 \<and> cfg_act p = cfg \<and> cclkcfg p = 2"

lemma system_init_runs:
  assumes "pll_chip m pll"
  shows "\<exists>d'. SystemInit m d = Some d' \<and> running (pll d') (clksrcsel (pll d)) 0x0001004A"
proof -
  note w = pll_writes [OF assms] PLL0_feed_latch [OF assms]
  let ?d = "EnablePLL0 m 75 2 (wr m SC_CCLKCFG 0x02 (ShutdownPLL0 m d))"
  have p: "con_act (pll ?d) = 1" "cfg_act (pll ?d) = 0x0001004A" "pllcfg (pll ?d) = 0x0001004A" "cclkcfg (pll ?d) = 2"
      "clksrcsel (pll ?d) = clksrcsel (pll d)"
    by (simp_all add: EnablePLL0_def ShutdownPLL0_def w latch_def Let_def)
  then have "con_act (pll ?d) AND 1 \<noteq> 0" by simp
  from poll_lock [OF assms this] obtain d1 where
    1: "poll m SC_PLL0STAT (\<lambda>v. v AND PLOCK0 \<noteq> 0) ?d = Some d1" "pll d1 = (pll ?d)\<lparr>fed := False, lock_wait := 0\<rparr>" by blast
  have "SystemInit m d = Some (PLL0_feed m (wr m SC_PLL0CON 0x03 d1))"
    using 1(1) by (simp add: SystemInit_def SwitchToPLL0_def PLOCK0_def Let_def)
  then show ?thesis using p 1(2) by (simp add: w latch_def running_def)
qed

lemma switch_runs:
  assumes "pll_chip m pll"
  shows "\<exists>d'. switch_to_stable_clock m d = Some d' \<and> running (pll d') 1 0x0001012B"
proof -
  note w = pll_writes [OF assms] PLL0_feed_latch [OF assms]
  have "scs (pll (reg_or m SC_SCS 0x0020 d)) AND 0x20 \<noteq> 0"
  proof -
    obtain v d' where rd: "rd m SC_SCS d = (v, d')" by fastforce
    have "scs (pll (reg_or m SC_SCS 0x0020 d)) = v OR 0x20"
      using rd pll_chipD(1) [OF assms] by (simp add: reg_or_def pll_regs_def pll_wr_def Let_def)
    moreover have "bit (v OR 0x20) 5" by (simp add: bit_simps)
    ultimately show ?thesis using and_flag [of "v OR 0x20" 5] by simp
  qed
  from poll_osc [OF assms this] obtain d1 where
    1: "poll m SC_SCS (\<lambda>v. v AND 0x0040 \<noteq> 0) (reg_or m SC_SCS 0x0020 d) = Some d1" by blast
  let ?d = "PLL0_feed m (wr m SC_PLL0CON 0x01 (PLL0_feed m (wr m SC_PLL0CFG 0x0001012B (wr m SC_CLKSRCSEL 1 (wr m SC_CCLKCFG 2
    (PLL0_feed m (wr m SC_PLL0CON 0 (PLL0_feed m (wr m SC_PLL0CON 1 d1)))))))))"
  have p: "con_act (pll ?d) = 1" "cfg_act (pll ?d) = 0x0001012B" "pllcfg (pll ?d) = 0x0001012B" "cclkcfg (pll ?d) = 2"
      "clksrcsel (pll ?d) = 1"
    by (simp_all add: w latch_def)
  then have "con_act (pll ?d) AND 1 \<noteq> 0" by simp
  from poll_lock [OF assms this] obtain d2 where
    2: "poll m SC_PLL0STAT (\<lambda>v. v AND PLOCK0 \<noteq> 0) ?d = Some d2" "pll d2 = (pll ?d)\<lparr>fed := False, lock_wait := 0\<rparr>" by blast
  let ?e = "PLL0_feed m (wr m SC_PLL0CON 0x03 d2)"
  have e: "running (pll ?e) 1 0x0001012B" using p 2(2) by (simp add: w latch_def running_def)
  then have "con_act (pll ?e) AND 3 \<noteq> 0" by (simp add: running_def)
  from poll_enabled [OF assms this] obtain d3 where
    3: "poll m SC_PLL0STAT (\<lambda>v. v AND (PLLE0 OR PLLC0) \<noteq> 0) ?e = Some d3"
      "pll d3 = (pll ?e)\<lparr>fed := False, lock_wait := lock_wait (pll ?e) - 1\<rparr>" by blast
  have "switch_to_stable_clock m d = Some d3" using 1 2(1) 3(1) by (simp add: switch_to_stable_clock_def Let_def)
  moreover have "running (pll d3) 1 0x0001012B" using e 3(2) by (simp add: running_def)
  ultimately show ?thesis by blast
qed

lemma clock_update:
  assumes "pll_chip m pll" "running (pll d) src cfg" "cfg AND 0x00FF7FFF = cfg"
    "0 < (ucast (drop_bit 16 cfg AND 0xFF) + 1 :: u8)"
  shows "\<exists>d'. SystemCoreClockUpdate m d =
    Some ((if src AND 3 = 0 then IRC else if src AND 3 = 1 then SYS_OSC_CLK else if src AND 3 = 2 then RTC else 0) *
      (2 * ucast (ucast (cfg AND 0x7FFF) + 1 :: u16)) div ucast (ucast (drop_bit 16 cfg AND 0xFF) + 1 :: u8) div 3, d') \<and>
    running (pll d') src cfg"
proof -
  have stat: "pll_stat p AND 0x03000000 = 0x03000000" "pll_stat p AND 0x7FFF = cfg AND 0x7FFF"
    "pll_stat p AND 0x00FF0000 = cfg AND 0x00FF0000" if "running p src cfg" for p
    using that assms(3) by (simp_all add: running_def pll_stat_def PLOCK0_def and.assoc bit.conj_disj_distrib2)
  have div16: "drop_bit 16 (pll_stat p) AND 0xFF = drop_bit 16 cfg AND 0xFF" if "running p src cfg" for p
    using arg_cong [OF stat(3) [OF that], of "drop_bit 16"] by simp
  have rd: "\<exists>d'. rd m SC_PLL0STAT d = (pll_stat (pll d), d') \<and> running (pll d') src cfg" if "running (pll d) src cfg" for d
  proof -
    obtain v d' where "rd m SC_PLL0STAT d = (v, d')" by fastforce
    with pll_chipD(2) [OF assms(1) _ this] that show ?thesis by (simp add: pll_regs_def pll_rd_def running_def Let_def)
  qed
  obtain v0 d0 where 0: "rd m SC_CLKSRCSEL d = (v0, d0)" by fastforce
  with pll_chipD(2) [OF assms(1) _ 0] assms(2) have r0: "v0 = src" "running (pll d0) src cfg"
    by (simp_all add: pll_regs_def pll_rd_def running_def Let_def)
  from rd [OF r0(2)] obtain d1 where 1: "rd m SC_PLL0STAT d0 = (pll_stat (pll d0), d1)" "running (pll d1) src cfg" by blast
  from rd [OF 1(2)] obtain d2 where 2: "rd m SC_PLL0STAT d1 = (pll_stat (pll d1), d2)" "running (pll d2) src cfg" by blast
  from rd [OF 2(2)] obtain d3 where 3: "rd m SC_PLL0STAT d2 = (pll_stat (pll d2), d3)" "running (pll d3) src cfg" by blast
  obtain v4 d4 where 4: "rd m SC_CCLKCFG d3 = (v4, d4)" by fastforce
  with pll_chipD(2) [OF assms(1) _ 4] 3(2) have r4: "v4 = 2" "running (pll d4) src cfg"
    by (simp_all add: pll_regs_def pll_rd_def running_def Let_def)
  show ?thesis
    using 0 1 2 3 4 r0 r4 assms(4) stat div16
    by (intro exI [of _ d4]) (simp add: SystemCoreClockUpdate_def PLL0InputClock_def Let_def)
qed

section \<open>Properties\<close>


text \<open>A clock generator by itself.\<close>

definition pll_mmio :: "pll mmio" where
  "pll_mmio = \<lparr>rd = pll_rd, wr = pll_wr, intr = \<lambda>p. (None, p)\<rparr>"

definition pll_reset :: pll where
  "pll_reset = \<lparr>scs = 0, clksrcsel = 0, cclkcfg = 0, pllcon = 0, pllcfg = 0, con_act = 0, cfg_act = 0, fed = False,
     osc_wait = 5, lock_wait = 0, lock_time = 7\<rparr>"


text \<open>
  After the switch \<open>SystemCoreClockUpdate\<close> would not give the core's frequency: it takes the main
  oscillator for a 12 MHz crystal, and the multiplication wraps.
\<close>

lemma stable_clock_not_computed:
  assumes "pll_chip m pll" "switch_to_stable_clock m d = Some d1"
  shows "\<exists>d2. SystemCoreClockUpdate m d1 = Some (484172117, d2)"
proof -
  have "running (pll d1) 1 0x0001012B" using switch_runs [OF assms(1), of d] assms(2) by auto
  from clock_update [OF assms(1) this] show ?thesis by (auto simp: SYS_OSC_CLK_def XTAL_def)
qed

end
