(* ===== verification/Radio_Deliver.thy ===== *)
theory Radio_Deliver
  imports Radio_Service
begin

text \<open>
  The composition of the receive ring with the applications: one run of \<open>radif_service\<close> over
  all waiting frames. The transmit ring takes seven frames and no more than seven can wait in
  the receive ring, so that the run never waits for the radio when the transmit ring has been
  emptied, and it always ends.
\<close>

section \<open>Well-formed state\<close>

definition rx_ok :: "'d radif \<Rightarrow> bool" where
  "rx_ok r \<longleftrightarrow> unat (RxConsumeIndex r) < 8 \<and> unat (RxProduceIndex r) < 8 \<and> length (RxFrames r) = 8 \<and>
     (\<forall>f \<in> set (RxFrames r). length (rx_data f) = FRAME_DATA) \<and> rx_callback r = Some Rf212_rx_callback"

definition rx_queue :: "'d radif \<Rightarrow> rx_frame list" where
  "rx_queue r = ring_frames (RxFrames r) (unat (RxConsumeIndex r)) (unat (RxProduceIndex r))"

definition gw_ok :: "('d \<Rightarrow> bool) \<Rightarrow> ('d \<Rightarrow> nat \<Rightarrow> u8 list) \<Rightarrow> nat \<Rightarrow> ('d, 'z) gwst_scheme \<Rightarrow> bool" where
  "gw_ok ready blocks capacity s \<longleftrightarrow>
     mem_ok ready capacity s \<and> length (write_block s) = 6 \<and> tx_ok (rf212_radif s) \<and> rx_ok (rf212_radif s) \<and>
     trigger_keeps ready blocks (interrupt_trigger (rf212_radif s))"

lemma rx_ok_same: "rx_same r r' \<Longrightarrow> rx_ok r' = rx_ok r"
  by (simp add: rx_same_def rx_ok_def)

lemma rx_queue_same: "rx_same r r' \<Longrightarrow> rx_queue r' = rx_queue r"
  by (simp add: rx_same_def rx_queue_def)

lemma length_tx_queue_room:
  assumes "tx_ok r" "length (tx_queue r) < 7"
  shows "tx_room r"
  unfolding tx_room_def
proof
  assume "frame_next (TxProduceIndex r) = TxConsumeIndex r"
  then have "unat (TxConsumeIndex r) = Suc (unat (TxProduceIndex r)) mod 8" by (simp flip: unat_frame_next)
  moreover have "unat (TxProduceIndex r) < 8" using assms(1) by (simp add: tx_ok_def)
  ultimately have "(unat (TxProduceIndex r) + 8 - unat (TxConsumeIndex r)) mod 8 = 7"
    using mod8_cases [of "unat (TxProduceIndex r)"] by auto
  with assms(2) show False by (simp add: tx_queue_def ring_frames_def)
qed

section \<open>One frame\<close>

text \<open>
  What one callback adds: at most one record, with a valid checksum, and at most one frame
  for the radio.
\<close>

definition adds :: "('d \<Rightarrow> nat \<Rightarrow> u8 list) \<Rightarrow> ('d, 'z) gwst_scheme \<Rightarrow> ('d, 'z) gwst_scheme \<Rightarrow> nat \<Rightarrow> bool" where
  "adds blocks s s' n \<longleftrightarrow>
     (\<exists>rs fs. mem_queue blocks s' = mem_queue blocks s @ rs \<and> (\<forall>r \<in> set rs. evaluate_checksum r = CHECKSUM_PASS) \<and>
        length rs \<le> n \<and> tx_queue (rf212_radif s') = tx_queue (rf212_radif s) @ fs \<and> length fs \<le> n)"

lemma adds_none: "mem_queue blocks s' = mem_queue blocks s \<Longrightarrow> tx_queue (rf212_radif s') = tx_queue (rf212_radif s) \<Longrightarrow> adds blocks s s' n"
  unfolding adds_def by (intro exI [of _ "[]"]) simp

lemma adds_trans:
  assumes "adds blocks s s1 a" "adds blocks s1 s2 b"
  shows "adds blocks s s2 (a + b)"
proof -
  from assms obtain rs fs rs' fs' where
    "mem_queue blocks s1 = mem_queue blocks s @ rs" "\<forall>r \<in> set rs. evaluate_checksum r = CHECKSUM_PASS" "length rs \<le> a"
    "tx_queue (rf212_radif s1) = tx_queue (rf212_radif s) @ fs" "length fs \<le> a"
    "mem_queue blocks s2 = mem_queue blocks s1 @ rs'" "\<forall>r \<in> set rs'. evaluate_checksum r = CHECKSUM_PASS" "length rs' \<le> b"
    "tx_queue (rf212_radif s2) = tx_queue (rf212_radif s1) @ fs'" "length fs' \<le> b"
    unfolding adds_def by blast
  then show ?thesis
    unfolding adds_def by (intro exI [of _ "rs @ rs'"] exI [of _ "fs @ fs'"]) auto
qed

lemma gw_ok_update:
  assumes "gw_ok ready blocks capacity s" "mem_ok ready capacity s'" "length (write_block s') = 6"
    and "tx_ok (rf212_radif s')" "rx_same (rf212_radif s) (rf212_radif s')"
  shows "gw_ok ready blocks capacity s'"
  using assms rx_ok_same [OF assms(5)] by (simp add: gw_ok_def rx_same_def)

lemma put_sample_writer: "put_sample m rc t = Some (v, t') \<Longrightarrow> write_block t' = write_block t"
  by (auto simp: put_sample_def put_memory_indexes_def Let_def split: bind_splits prod.splits if_splits)

lemma write_sample_returns:
  assumes "sd_card m exch ready blocks capacity" "mem_ok ready capacity s" "length (write_block s) = 6"
  shows "\<exists>s' rs. write_sample_to_mem m flags l r ago s = Some s' \<and> mem_ok ready capacity s' \<and>
    mem_queue blocks s' = mem_queue blocks s @ rs \<and> (\<forall>r \<in> set rs. evaluate_checksum r = CHECKSUM_PASS) \<and> length rs \<le> 1 \<and>
    length (write_block s') = 6 \<and> rf212_radif s' = rf212_radif s"
proof -
  from assms(3) obtain x1 x2 x3 x4 x5 x6 where wb: "write_block s = [x1, x2, x3, x4, x5, x6]"
    by (auto simp: numeral_eq_Suc length_Suc_conv)
  obtain v d where tc: "rd m (TIM_TC 3) (hwst s) = (v, d)" by fastforce
  define time where "time = fst (get_current_time m s)"
  let ?ws = "sample_words flags (time - ucast ago) l r"
  let ?wb = "?ws @ [calculate_checksum (bytes_of_words (?ws @ [x6]))]"
  let ?t = "s\<lparr>hwst := d, current_time := time, write_block := ?wb\<rparr>"
  note disk = sd_card.card_disk [OF assms(1)]
  have d: "ready d" "blocks d = blocks (hwst s)"
    using sd_disk.disk_timer_read [OF disk _ tc] assms(2) by (simp_all add: mem_ok_def)
  have t: "mem_ok ready capacity ?t" "mem_room ?t = mem_room s" "mem_queue blocks ?t = mem_queue blocks s"
    using assms(2) d mem_ok_cong [of ready ?t s capacity] by (simp_all add: mem_room_def mem_ring_def mem_queue_def)
  have len: "length ?ws = 5" by (simp add: sample_words_def)
  then have "length (bytes_of_words ?wb) = MEMORY_RECORD_SIZE" by (simp add: MEMORY_RECORD_SIZE_def)
  from sd_disk.put_sample_queue [OF disk t(1) this] t(2,3) obtain v s' where
    p: "put_sample m (bytes_of_words ?wb) ?t = Some (v, s')" "mem_ok ready capacity s'"
      "mem_queue blocks s' = mem_queue blocks s @ (if mem_room s then [bytes_of_words ?wb] else [])"
    by (auto split: if_splits)
  have time: "get_current_time m (s\<lparr>write_block := wb\<rparr>) = (time, s\<lparr>write_block := wb, hwst := d, current_time := time\<rparr>)" for wb
    using tc by (simp add: time_def get_current_time_def Let_def)
  have "write_sample_to_mem m flags l r ago s = Some s'"
    using p(1) by (simp add: write_sample_to_mem_def Let_def wb time sample_words_def)
  moreover have "evaluate_checksum (bytes_of_words ?wb) = CHECKSUM_PASS" using len by (rule sealed_record_passes)
  ultimately show ?thesis
    using p(2,3) put_sample_radio [OF p(1)] put_sample_writer [OF p(1)] len
    by (intro exI [of _ s'] exI [of _ "if mem_room s then [bytes_of_words ?wb] else []"]) auto
qed

lemma debug_frame_adds:
  assumes "gw_ok ready blocks capacity s" "tx_room (rf212_radif s)"
  shows "\<exists>s'. radio_debug_frame m rx s = Some s' \<and> gw_ok ready blocks capacity s' \<and> adds blocks s s' 1 \<and>
    rx_same (rf212_radif s) (rf212_radif s')"
proof -
  from rf212_send_queue [of s "[0x44, 0x44, 0x44, 0x44]" 4 m "source_address rx"] assms obtain r f where
    1: "radio_debug_frame m rx s = Some (s\<lparr>rf212_radif := r, hwst := interrupt_trigger (rf212_radif s) (hwst s)\<rparr>)"
      "tx_queue r = tx_queue (rf212_radif s) @ [f]" "tx_ok r" "rx_same (rf212_radif s) r"
    by (auto simp: gw_ok_def radio_debug_frame_def)
  let ?s = "s\<lparr>rf212_radif := r, hwst := interrupt_trigger (rf212_radif s) (hwst s)\<rparr>"
  have k: "ready (hwst ?s)" "blocks (hwst ?s) = blocks (hwst s)"
    using assms(1) by (auto simp: gw_ok_def trigger_keeps_def mem_ok_def)
  then have "gw_ok ready blocks capacity ?s"
    using assms(1) 1(3,4) mem_ok_cong [of ready ?s s capacity]
    by (intro gw_ok_update [OF assms(1)]) (simp_all add: gw_ok_def)
  moreover have "adds blocks s ?s 1"
    unfolding adds_def using k(2) 1(2)
    by (intro exI [of _ "[]"] exI [of _ "[f]"]) (simp add: mem_queue_def mem_ring_def)
  ultimately show ?thesis using 1(1,4) by simp
qed

lemma get_current_time_shape:
  assumes "rd m (TIM_TC 3) (hwst t) = (v, d)"
  obtains c where "get_current_time m t = (c, t\<lparr>hwst := d, current_time := c\<rparr>)"
  using assms that by (simp add: get_current_time_def Let_def)

lemma get_current_time_store:
  assumes "sd_card m exch ready blocks capacity" "mem_ok ready capacity t" "get_current_time m t = (c, t')"
  shows "mem_ok ready capacity t'" "mem_queue blocks t' = mem_queue blocks t"
proof -
  obtain v d where tc: "rd m (TIM_TC 3) (hwst t) = (v, d)" by fastforce
  have d: "ready d" "blocks d = blocks (hwst t)"
    using sd_disk.disk_timer_read [OF sd_card.card_disk [OF assms(1)] _ tc] assms(2) by (simp_all add: mem_ok_def)
  from get_current_time_shape [OF tc] assms(3) have t: "t' = t\<lparr>hwst := d, current_time := c\<rparr>" by (metis prod.inject)
  show "mem_ok ready capacity t'" by (rule mem_ok_cong [OF _ _ _ _ assms(2)]) (simp_all add: t d)
  show "mem_queue blocks t' = mem_queue blocks t" by (simp add: t d mem_queue_def mem_ring_def)
qed

lemma get_current_time_others:
  "get_current_time m t = (c, t') \<Longrightarrow> rf212_radif t' = rf212_radif t \<and> write_block t' = write_block t"
  by (auto simp: get_current_time_def Let_def split: prod.splits)

lemma timereq_frame_adds:
  assumes "sd_card m exch ready blocks capacity" "gw_ok ready blocks capacity s" "tx_room (rf212_radif s)"
  shows "\<exists>s'. radio_timereq_frame m rx s = Some s' \<and> gw_ok ready blocks capacity s' \<and> adds blocks s s' 1 \<and>
    rx_same (rf212_radif s) (rf212_radif s')"
proof -
  have "\<exists>t. radio_timereq_frame m rx s = write_sample_to_mem m (push_bit 26 61) (ucast (energy_detect rx)) 0 0 t \<and>
      mem_ok ready capacity t \<and> mem_queue blocks t = mem_queue blocks s \<and> length (write_block t) = 6 \<and> tx_ok (rf212_radif t) \<and>
      (\<exists>fs. tx_queue (rf212_radif t) = tx_queue (rf212_radif s) @ fs \<and> length fs \<le> 1) \<and> rx_same (rf212_radif s) (rf212_radif t)"
  proof (cases "time_valid s \<noteq> 0")
    case True
    obtain c s1 where t1: "get_current_time m s = (c, s1)" by fastforce
    obtain c2 s2 where t2: "get_current_time m s1 = (c2, s2)" by fastforce
    note g1 = get_current_time_store [OF assms(1) _ t1] get_current_time_others [OF t1]
    note g2 = get_current_time_store [OF assms(1) _ t2] get_current_time_others [OF t2]
    have ok: "mem_ok ready capacity s2" "mem_queue blocks s2 = mem_queue blocks s" "rf212_radif s2 = rf212_radif s" "length (write_block s2) = 6"
      using assms(2) g1 g2 by (simp_all add: gw_ok_def)
    from rf212_send_queue [of s2 "time_packet c" 9 m "source_address rx"] assms(2,3) ok(3) obtain r f where
      2: "rf212_send m (time_packet c) 9 (source_address rx) 1 s2 =
          Some (s2\<lparr>rf212_radif := r, hwst := interrupt_trigger (rf212_radif s) (hwst s2)\<rparr>)"
        "tx_queue r = tx_queue (rf212_radif s) @ [f]" "tx_ok r" "rx_same (rf212_radif s) r"
      by (auto simp: time_packet_def gw_ok_def)
    let ?t = "s2\<lparr>rf212_radif := r, hwst := interrupt_trigger (rf212_radif s) (hwst s2)\<rparr>"
    have k: "ready (hwst ?t)" "blocks (hwst ?t) = blocks (hwst s2)"
      using assms(2) ok(1) by (auto simp: gw_ok_def trigger_keeps_def mem_ok_def)
    have "mem_ok ready capacity ?t" by (rule mem_ok_cong [OF k(1) _ _ _ ok(1)]) simp_all
    moreover have "mem_queue blocks ?t = mem_queue blocks s" using k(2) ok(2) by (simp add: mem_queue_def mem_ring_def)
    moreover have "radio_timereq_frame m rx s = write_sample_to_mem m (push_bit 26 61) (ucast (energy_detect rx)) 0 0 ?t"
      using True t1 t2 2(1) by (simp add: radio_timereq_frame_def is_time_valid_def print_current_time_def Let_def)
    ultimately show ?thesis using 2(2-4) ok(4) by (intro exI [of _ ?t]) simp
  next
    case False
    then show ?thesis using assms(2)
      by (intro exI [of _ s]) (simp add: radio_timereq_frame_def is_time_valid_def gw_ok_def rx_same_def)
  qed
  then obtain t where
    1: "radio_timereq_frame m rx s = write_sample_to_mem m (push_bit 26 61) (ucast (energy_detect rx)) 0 0 t"
      "mem_ok ready capacity t" "mem_queue blocks t = mem_queue blocks s" "length (write_block t) = 6" "tx_ok (rf212_radif t)"
      "\<exists>fs. tx_queue (rf212_radif t) = tx_queue (rf212_radif s) @ fs \<and> length fs \<le> 1" "rx_same (rf212_radif s) (rf212_radif t)"
    by blast
  from write_sample_returns [OF assms(1) 1(2,4)] obtain s' rs where
    2: "write_sample_to_mem m (push_bit 26 61) (ucast (energy_detect rx)) 0 0 t = Some s'" "mem_ok ready capacity s'"
      "mem_queue blocks s' = mem_queue blocks t @ rs" "\<forall>r \<in> set rs. evaluate_checksum r = CHECKSUM_PASS" "length rs \<le> 1"
      "length (write_block s') = 6" "rf212_radif s' = rf212_radif t"
    by metis
  have "gw_ok ready blocks capacity s'"
    by (rule gw_ok_update [OF assms(2) 2(2,6)]) (simp_all add: 2(7) 1(5,7))
  moreover have "adds blocks s s' 1" unfolding adds_def using 1(3,6) 2(3-5,7) by auto
  ultimately show ?thesis using 1(1,7) 2(1,7) by auto
qed

lemma upload_adds:
  assumes "sd_card m exch ready blocks capacity" "gw_ok ready blocks capacity s" "tx_room (rf212_radif s)"
    and "length (rx_data rx) = FRAME_DATA"
  shows "\<exists>s'. block_uploaded m rx s = Some s' \<and> gw_ok ready blocks capacity s' \<and> adds blocks s s' 1 \<and>
    rx_same (rf212_radif s) (rf212_radif s')"
proof -
  let ?rc = "take MEMORY_RECORD_SIZE (drop 5 (rx_data rx))"
  have len: "length ?rc = MEMORY_RECORD_SIZE" using assms(4) by (simp add: MEMORY_RECORD_SIZE_def)
  consider (good) "MEMORY_RECORD_SIZE \<le> unat (rx_length rx)" "get_checksum ?rc = calculate_checksum ?rc"
    | (bad) b where "block_uploaded m rx s = Some (s\<lparr>record_buf := b\<rparr>)"
  proof (cases "MEMORY_RECORD_SIZE \<le> unat (rx_length rx) \<and> get_checksum ?rc = calculate_checksum ?rc")
    case False
    then have "block_uploaded m rx s = Some (s\<lparr>record_buf := if MEMORY_RECORD_SIZE \<le> unat (rx_length rx) then ?rc else record_buf s\<rparr>)"
      by (auto simp: block_uploaded_def Let_def)
    then show ?thesis by (rule that(2))
  qed (use that(1) in blast)
  then show ?thesis
  proof cases
    case good
    from block_uploaded_good [OF good(1) _ assms(3) refl good(2), of m] assms(2) obtain r f where
      1: "block_uploaded m rx s = map_option snd (put_sample m ?rc
        (s\<lparr>record_buf := ?rc, sample_ack_packet := ack_packet (get_memory_address_from_rx rx) (get_checksum ?rc),
           rf212_radif := r, hwst := interrupt_trigger (rf212_radif s) (hwst s)\<rparr>))"
        "tx_queue r = tx_queue (rf212_radif s) @ [f]" "tx_ok r" "rx_same (rf212_radif s) r"
      by (auto simp: gw_ok_def)
    have o: "mem_ok ready capacity s" "trigger_keeps ready blocks (interrupt_trigger (rf212_radif s))" "length (write_block s) = 6"
      using assms(2) by (simp_all add: gw_ok_def)
    from upload_store [OF assms(1) o(1,2) len refl, where r = r and p = "ack_packet (get_memory_address_from_rx rx) (get_checksum ?rc)"]
    obtain t' where
      2: "put_sample m ?rc (s\<lparr>record_buf := ?rc, sample_ack_packet := ack_packet (get_memory_address_from_rx rx) (get_checksum ?rc),
           rf212_radif := r, hwst := interrupt_trigger (rf212_radif s) (hwst s)\<rparr>) = Some (if mem_room s then 1 else 0, t')"
        "mem_ok ready capacity t'" "mem_queue blocks t' = mem_queue blocks s @ (if mem_room s then [?rc] else [])"
      by (auto split: if_splits)
    have r: "rf212_radif t' = r" "length (write_block t') = 6"
      using put_sample_radio [OF 2(1)] put_sample_writer [OF 2(1)] o(3) by simp_all
    have "gw_ok ready blocks capacity t'"
      by (rule gw_ok_update [OF assms(2) 2(2) r(2)]) (simp_all add: r(1) 1(3,4))
    moreover have "adds blocks s t' 1"
      unfolding adds_def using 1(2) 2(3) r(1) good(2)
      by (intro exI [of _ "if mem_room s then [?rc] else []"] exI [of _ "[f]"]) (simp add: evaluate_checksum_iff)
    ultimately show ?thesis using 1(1,4) 2(1) r(1) by simp
  next
    case bad
    let ?s = "s\<lparr>record_buf := b\<rparr>"
    have "mem_ok ready capacity ?s"
      using assms(2) by (intro mem_ok_cong [of ready ?s s]) (simp_all add: gw_ok_def mem_ok_def)
    then have "gw_ok ready blocks capacity ?s"
      using assms(2) by (intro gw_ok_update [OF assms(2)]) (simp_all add: gw_ok_def rx_same_def)
    moreover have "adds blocks s ?s 1" by (rule adds_none) (simp_all add: mem_queue_def mem_ring_def)
    ultimately show ?thesis using bad by (simp add: rx_same_def)
  qed
qed

lemma callback_adds:
  assumes "sd_card m exch ready blocks capacity" "gw_ok ready blocks capacity s" "tx_room (rf212_radif s)"
    and "length (rx_data rx) = FRAME_DATA"
  shows "\<exists>s'. rf212_rx_callback m rx s = Some s' \<and> gw_ok ready blocks capacity s' \<and> adds blocks s s' 1 \<and>
    rx_same (rf212_radif s) (rf212_radif s')"
  using debug_frame_adds [OF assms(2,3), of m rx] timereq_frame_adds [OF assms(1-3), of rx] upload_adds [OF assms]
    assms(2) adds_none [of blocks s s 1]
  by (auto simp: rf212_rx_callback_def rx_same_def)

section \<open>All waiting frames\<close>

lemma drain_returns:
  assumes "sd_card m exch ready blocks capacity"
  shows "gw_ok ready blocks capacity s \<Longrightarrow> length (tx_queue (rf212_radif s)) + length (rx_queue (rf212_radif s)) \<le> 7 \<Longrightarrow>
    \<exists>s'. radif_service m s = Some s' \<and> gw_ok ready blocks capacity s' \<and>
      adds blocks s s' (length (rx_queue (rf212_radif s))) \<and> rx_queue (rf212_radif s') = []"
proof (induction "length (rx_queue (rf212_radif s))" arbitrary: s rule: less_induct)
  case less
  let ?r = "rf212_radif s"
  note ok = less.prems(1) [unfolded gw_ok_def rx_ok_def]
  show ?case
  proof (cases "RxConsumeIndex ?r = RxProduceIndex ?r")
    case True
    then have "rx_queue ?r = []" by (simp add: rx_queue_def ring_frames_def)
    moreover have "radif_service m s = Some s" using True by (subst radif_service.simps) simp
    ultimately show ?thesis using less.prems(1) adds_none [of blocks s s 0] by simp
  next
    case False
    let ?c = "RxConsumeIndex ?r"
    let ?f = "RxFrames ?r ! unat ?c"
    have q: "rx_queue ?r = ?f # rx_queue (?r\<lparr>RxConsumeIndex := frame_next ?c\<rparr>)"
      using ring_frames_pop [of "unat ?c" "unat (RxProduceIndex ?r)" "RxFrames ?r"] ok False
      by (simp add: rx_queue_def unat_frame_next word_unat_eq_iff)
    then have "tx_room ?r" using less.prems(2) ok by (intro length_tx_queue_room) auto
    moreover have "length (rx_data ?f) = FRAME_DATA" using ok by simp
    ultimately obtain s1 where
      1: "rf212_rx_callback m ?f s = Some s1" "gw_ok ready blocks capacity s1" "adds blocks s s1 1" "rx_same ?r (rf212_radif s1)"
      using callback_adds [OF assms less.prems(1)] by blast
    let ?s2 = "s1\<lparr>rf212_radif := (rf212_radif s1)\<lparr>RxConsumeIndex := frame_next ?c\<rparr>\<rparr>"
    have q2: "rx_queue (rf212_radif ?s2) = rx_queue (?r\<lparr>RxConsumeIndex := frame_next ?c\<rparr>)"
      using 1(4) by (simp add: rx_queue_def rx_same_def)
    have t2: "tx_queue (rf212_radif ?s2) = tx_queue (rf212_radif s1)" by (simp add: tx_queue_def)
    have m2: "mem_queue blocks ?s2 = mem_queue blocks s1" by (simp add: mem_queue_def mem_ring_def)
    have ok2: "gw_ok ready blocks capacity ?s2"
      using 1(2) frame_next_lt by (simp add: gw_ok_def rx_ok_def tx_ok_def mem_ok_def is_block_valid_def card_size_ok_def disk_sectors_def)
    have "length (tx_queue (rf212_radif s1)) \<le> length (tx_queue ?r) + 1" using 1(3) by (auto simp: adds_def)
    then have "length (tx_queue (rf212_radif ?s2)) + length (rx_queue (rf212_radif ?s2)) \<le> 7"
      using less.prems(2) q q2 t2 by simp
    from less.hyps [OF _ ok2 this] q q2 obtain s' where
      2: "radif_service m ?s2 = Some s'" "gw_ok ready blocks capacity s'" "adds blocks ?s2 s' (length (rx_queue (rf212_radif ?s2)))"
        "rx_queue (rf212_radif s') = []"
      by auto
    have "adds blocks s1 s' (length (rx_queue (rf212_radif ?s2)))"
      using 2(3) unfolding adds_def t2 m2 .
    from adds_trans [OF 1(3) this] q q2 have "adds blocks s s' (length (rx_queue ?r))" by simp
    moreover have "radif_service m s = Some s'"
      using False ok 1(1) 2(1) by (subst radif_service.simps) (simp add: Let_def call_rx_callback_def)
    ultimately show ?thesis using 2(2,4) by blast
  qed
qed

section \<open>Properties\<close>

text \<open>
  The radio service ends (C17). When the frames waiting to be sent and the frames waiting to be
  delivered are together no more than seven, \<open>radio_service\<close> returns with the receive ring
  empty. It has added to the store only records with a valid checksum and has queued at most
  one reply for each delivered frame, and the state is well-formed again, whatever the
  frames contain.
\<close>

theorem radio_service_returns:
  assumes "sd_card m exch ready blocks capacity" and "gw_ok ready blocks capacity s"
    and "length (tx_queue (rf212_radif s)) + length (rx_queue (rf212_radif s)) \<le> 7"
  shows "\<exists>s'. radio_service m s = Some s' \<and> gw_ok ready blocks capacity s' \<and>
    adds blocks s s' (length (rx_queue (rf212_radif s))) \<and> rx_queue (rf212_radif s') = []"
  unfolding radio_service_def rf212_service_def using assms by (rule drain_returns)

theorem radio_service_returns_witness:
  "\<exists>s'. radio_service card_mmio sample_gateway = Some s' \<and> adds store sample_gateway s' 2 \<and>
     rx_queue (rf212_radif s') = []"
proof -
  have q: "length (rx_queue (rf212_radif sample_gateway)) = 2" "tx_queue (rf212_radif sample_gateway) = []"
    by (simp_all add: sample_gateway_def rxst.defs card_radif_def rx_queue_def tx_queue_def ring_frames_def)
  have "gw_ok card_ready store 0x800000 sample_gateway"
    unfolding gw_ok_def using sample_gateway_ok
    by (simp add: sample_gateway_def sample_rx_def sample_writer_def rxst.defs writest.defs timest.defs card_radif_def rx_ok_def blank_rx_def)
  from radio_service_returns [OF rc.sd_card_axioms this] q show ?thesis by auto
qed

end
