(* ===== verification/Gw_Main.thy ===== *)
theory Gw_Main
  imports Net_Service Gw_Clock Radio_Deliver
begin

text \<open>
  The program, \<open>src/src/main.c\<close>: the start of the components and the interrupt handler that runs the
  network and the radio service every half millisecond. Whatever the handler does, the record
  store sees a sequence of queue operations only.
\<close>

section \<open>Definitions\<close>

definition RIT_IRQHandler :: "'d mmio \<Rightarrow> 'n lwip \<Rightarrow> ('d, 'n, 'z) mainst_scheme \<Rightarrow> ('d, 'n, 'z) mainst_scheme option" where
  "RIT_IRQHandler m L s =
     do { let s = s\<lparr>hwst := reg_or m RIT_CTRL 1 (hwst s)\<rparr>;
          s \<leftarrow> net_service m L s;
          radio_service m s }"

text \<open>The repetitive interrupt timer: an interrupt every 12500 cycles of its clock.\<close>

definition RIT_start :: "'d mmio \<Rightarrow> 'd \<Rightarrow> 'd" where
  "RIT_start m d =
     (let d = reg_or m SC_PCONP (push_bit 16 1) d;
          d = wr m RIT_CTRL 1 d;
          d = wr m (NVIC_PRIO RIT_IRQn) 31 d;
          d = wr m (NVIC_ENABLE RIT_IRQn) 1 d;
          d = wr m RIT_MASK 0 d;
          d = wr m RIT_COMPVAL (500 * 25) d;
          d = wr m RIT_CTRL (push_bit 3 1 OR push_bit 2 0 OR push_bit 1 1) d;
          d = reg_and m SC_PCON (NOT 0x3) d
      in reg_and m SCB_SCR (NOT (push_bit 2 1)) d)"

text \<open>
  \<open>main\<close> up to its endless loop, in which the processor sleeps between interrupts. A fault of
  \<open>memory_init\<close> (an access outside of an array) ends the model's run.
\<close>

definition main_start :: "'d mmio \<Rightarrow> 'n lwip \<Rightarrow> ('d, 'n, 'z) mainst_scheme \<Rightarrow> ('d, 'n, 'z) mainst_scheme option" where
  "main_start m L s =
     do { d \<leftarrow> SystemInit m (hwst s);
          (clock, d) \<leftarrow> SystemCoreClockUpdate m d;
          let s = s\<lparr>hwst := INIT_LEDS m d, SystemCoreClock := clock\<rparr>;
          (r, s) \<leftarrow> memory_init m s;
          case r of
            Inl _ \<Rightarrow> None
          | Inr _ \<Rightarrow>
              do { s \<leftarrow> net_init m L s;
                   s \<leftarrow> radio_init m s;
                   let s = init_current_time m s;
                   d \<leftarrow> switch_to_stable_clock m (hwst s);
                   Some (s\<lparr>hwst := RIT_start m d\<rparr>) } }"

section \<open>The store as a queue\<close>

text \<open>
  What the rest of the program may do to the store: take the oldest record away, add one with a
  valid checksum. An acknowledgement that arrives when only the block at the write index is
  left makes the read index pass it; what the queue is then is left open.
\<close>

inductive store_step :: "u8 list list \<Rightarrow> u8 list list \<Rightarrow> bool" where
  step_done: "1 < length q \<Longrightarrow> store_step q (tl q)"
| step_underflow: "length q \<le> 1 \<Longrightarrow> store_step q q'"
| step_put: "evaluate_checksum r = CHECKSUM_PASS \<Longrightarrow> store_step q (q @ [r])"

lemma puts_steps: "\<forall>r \<in> set rs. evaluate_checksum r = CHECKSUM_PASS \<Longrightarrow> store_step\<^sup>*\<^sup>* q (q @ rs)"
proof (induction rs rule: rev_induct)
  case (snoc r rs)
  then have "store_step\<^sup>*\<^sup>* q (q @ rs)" by simp
  moreover have "store_step (q @ rs) ((q @ rs) @ [r])" using snoc.prems by (intro step_put) simp
  ultimately show ?case by (metis append.assoc rtranclp.rtrancl_into_rtrancl)
qed simp

text \<open>
  The place from which the connection reads records stays within the card, for as many records
  as are still to be sent.
\<close>

definition cursor :: "server_tcp_state \<Rightarrow> u8 \<times> u16 \<times> u16 \<times> u32" where
  "cursor ss = (ss_output_phase ss, ss_records_index ss, ss_records_count ss, ss_mem_output_index ss)"

fun cursor_ok :: "nat \<Rightarrow> u8 \<times> u16 \<times> u16 \<times> u32 \<Rightarrow> bool" where
  "cursor_ok capacity (ph, i, n, b) \<longleftrightarrow> (ph \<le> OP_JSON_DATA \<and> i < n \<longrightarrow> unat b + (unat n - unat i) \<le> capacity)"

definition net_ok :: "('d \<Rightarrow> bool) \<Rightarrow> nat \<Rightarrow> ('d, 'n, 'z) serverst_scheme \<Rightarrow> bool" where
  "net_ok ready capacity s \<longleftrightarrow> mem_ok ready capacity s \<and> cursor_ok capacity (cursor (server_tcp s))"

definition net_effect ::
  "('d \<Rightarrow> bool) \<Rightarrow> ('d \<Rightarrow> nat \<Rightarrow> u8 list) \<Rightarrow> nat \<Rightarrow> ('d, 'n, 'z) serverst_scheme \<Rightarrow> ('d, 'n, 'z) serverst_scheme \<Rightarrow> bool" where
  "net_effect ready blocks capacity s t \<longleftrightarrow>
     write_block t = write_block s \<and> rf212_radif t = rf212_radif s \<and>
     (net_ok ready capacity s \<longrightarrow> net_ok ready capacity t \<and> store_step\<^sup>*\<^sup>* (mem_queue blocks s) (mem_queue blocks t))"

lemma net_effect_refl [simp]: "net_effect ready blocks capacity s s"
  by (simp add: net_effect_def)

lemma net_effect_trans:
  "net_effect ready blocks capacity s t \<Longrightarrow> net_effect ready blocks capacity t u \<Longrightarrow> net_effect ready blocks capacity s u"
  by (auto simp: net_effect_def)

text \<open>A change that leaves the store's variables and the card alone.\<close>

definition store_kept :: "('d, 'n, 'z) serverst_scheme \<Rightarrow> ('d, 'n, 'z) serverst_scheme \<Rightarrow> bool" where
  "store_kept s t \<longleftrightarrow> write_block t = write_block s \<and> rf212_radif t = rf212_radif s \<and> hwst t = hwst s \<and> sectors t = sectors s \<and>
     length (mem_buf t) = length (mem_buf s) \<and> memory_indexes t = memory_indexes s \<and> cursor (server_tcp t) = cursor (server_tcp s)"

lemma net_effect_kept: "store_kept s t \<Longrightarrow> net_effect ready blocks capacity s t"
  by (simp add: store_kept_def net_effect_def net_ok_def mem_ok_def is_block_valid_def card_size_ok_def disk_sectors_def mem_queue_def mem_ring_def)

lemma net_effect_upd: "net_effect ready blocks capacity s t \<Longrightarrow> store_kept t u \<Longrightarrow> net_effect ready blocks capacity s u"
  using net_effect_kept net_effect_trans by blast

lemma net_effect_hw:
  assumes "\<And>d. ready d \<Longrightarrow> ready (f d) \<and> blocks (f d) = blocks d"
  shows "net_effect ready blocks capacity s (s\<lparr>hwst := f (hwst s)\<rparr>)"
  using assms
  by (auto simp: net_effect_def net_ok_def mem_ok_def is_block_valid_def card_size_ok_def disk_sectors_def mem_queue_def mem_ring_def)

lemma kept_refl [simp]: "store_kept s s"
  by (simp add: store_kept_def)

lemma kept_trans: "store_kept s t \<Longrightarrow> store_kept t u \<Longrightarrow> store_kept s u"
  by (simp add: store_kept_def)

lemma cursor_updates [simp]:
  "cursor (ss\<lparr>ss_connected := c\<rparr>) = cursor ss" "cursor (ss\<lparr>ss_current_pos := p\<rparr>) = cursor ss"
  "cursor (ss\<lparr>ss_current_len := p\<rparr>) = cursor ss" "cursor (ss\<lparr>ss_write_err := w\<rparr>) = cursor ss"
  "cursor (ss\<lparr>ss_output_buffer := b\<rparr>) = cursor ss" "cursor (ss\<lparr>ss_wait_before_close_counter := k\<rparr>) = cursor ss"
  by (simp_all add: cursor_def)

lemma kept_updates [simp]:
  "store_kept s (t\<lparr>net := n\<rparr>) = store_kept s t"
  "store_kept s (t\<lparr>next_timeout := ts\<rparr>) = store_kept s t"
  "store_kept s (t\<lparr>timeouts_last_time := u\<rparr>) = store_kept s t"
  "store_kept s (t\<lparr>tcpip_tcp_timer_active := a\<rparr>) = store_kept s t"
  "store_kept s (t\<lparr>sntp_pcb := p\<rparr>) = store_kept s t"
  "store_kept s (t\<lparr>sntp_retry_timeout := r\<rparr>) = store_kept s t"
  "store_kept s (t\<lparr>sntp_last_server_address := ad\<rparr>) = store_kept s t"
  "store_kept s (t\<lparr>sntp_last_timestamp_sent := ts'\<rparr>) = store_kept s t"
  "store_kept s (t\<lparr>ephemeral_seq := e\<rparr>) = store_kept s t"
  "store_kept s (t\<lparr>upload_active := ac\<rparr>) = store_kept s t"
  "store_kept s (t\<lparr>upload_countdown := cd\<rparr>) = store_kept s t"
  "store_kept s (t\<lparr>couchdb_ip := ip\<rparr>) = store_kept s t"
  "store_kept s (t\<lparr>good_index := g\<rparr>) = store_kept s t"
  "store_kept s (t\<lparr>bad_index := b\<rparr>) = store_kept s t"
  "cursor ss = cursor (server_tcp t) \<Longrightarrow> store_kept s (t\<lparr>server_tcp := ss\<rparr>) = store_kept s t"
  by (simp_all add: store_kept_def)

lemma kept_updates_left [simp]:
  "store_kept (t\<lparr>net := n\<rparr>) s = store_kept t s"
  "store_kept (t\<lparr>next_timeout := ts\<rparr>) s = store_kept t s"
  "store_kept (t\<lparr>timeouts_last_time := u\<rparr>) s = store_kept t s"
  "store_kept (t\<lparr>tcpip_tcp_timer_active := a\<rparr>) s = store_kept t s"
  "store_kept (t\<lparr>sntp_pcb := p\<rparr>) s = store_kept t s"
  "store_kept (t\<lparr>sntp_retry_timeout := r\<rparr>) s = store_kept t s"
  "store_kept (t\<lparr>sntp_last_server_address := ad\<rparr>) s = store_kept t s"
  "store_kept (t\<lparr>sntp_last_timestamp_sent := ts'\<rparr>) s = store_kept t s"
  "store_kept (t\<lparr>ephemeral_seq := e\<rparr>) s = store_kept t s"
  "store_kept (t\<lparr>upload_active := ac\<rparr>) s = store_kept t s"
  "store_kept (t\<lparr>upload_countdown := cd\<rparr>) s = store_kept t s"
  "store_kept (t\<lparr>couchdb_ip := ip\<rparr>) s = store_kept t s"
  "store_kept (t\<lparr>good_index := g\<rparr>) s = store_kept t s"
  "store_kept (t\<lparr>bad_index := b\<rparr>) s = store_kept t s"
  "cursor ss = cursor (server_tcp t) \<Longrightarrow> store_kept (t\<lparr>server_tcp := ss\<rparr>) s = store_kept t s"
  by (simp_all add: store_kept_def)

section \<open>Functions that leave the store alone\<close>

lemma sys_timeout_kept: "sys_timeout ms h a s = Some t \<Longrightarrow> store_kept s t"
  by (auto simp: sys_timeout_def split: if_splits)

lemma timer_needed_kept: "tcp_timer_needed pcbs s = Some t \<Longrightarrow> store_kept s t"
  by (auto simp: tcp_timer_needed_def sys_timeout_def split: if_splits)

lemma sntp_retry_kept: "sntp_retry s = Some t \<Longrightarrow> store_kept s t"
  by (auto simp: sntp_retry_def sys_timeout_def Let_def bind_eq_Some_conv split: if_splits)

lemma sntp_send_request_kept: "sntp_send_request L ad s = Some t \<Longrightarrow> store_kept s t"
  by (auto simp: sntp_send_request_def sntp_initialize_request_def sys_timeout_def Let_def bind_eq_Some_conv
      split: if_splits prod.splits option.splits)

lemma sntp_dns_found_kept: "sntp_dns_found L ad s = Some t \<Longrightarrow> store_kept s t"
  by (auto simp: sntp_dns_found_def sntp_send_request_kept sntp_retry_kept split: option.splits)

lemma sntp_request_kept: "sntp_request L s = Some t \<Longrightarrow> store_kept s t"
  by (auto simp: sntp_request_def Let_def split: prod.splits if_splits dest!: sntp_send_request_kept sys_timeout_kept)

lemma netif_status_kept: "netif_status_change L s = Some t \<Longrightarrow> store_kept s t"
  by (auto simp: netif_status_change_def sntp_init_def sntp_cleanup_def Let_def
      split: if_splits option.splits prod.splits dest!: sntp_request_kept)

lemma close_conn_kept: "server_tcp_close_conn L pcb arg s = Some (e, t) \<Longrightarrow> store_kept s t"
  by (auto simp: server_tcp_close_conn_def call_close_def upload_end_def Let_def
      split: prod.splits if_splits option.splits tcp_close_func.splits)

lemma server_err_kept: "server_tcp_err L arg e s = Some t \<Longrightarrow> store_kept s t"
  by (auto simp: server_tcp_err_def Let_def split: if_splits option.splits dest!: close_conn_kept)

lemma connected_kept: "server_tcp_connected arg pcb e s = (r, t) \<Longrightarrow> store_kept s t"
  by (auto simp: server_tcp_connected_def reset_http_response_parser_def split: if_splits)

lemma current_out_kept: "server_current_tcp_out L pcb s = Some (r, t) \<Longrightarrow> store_kept s t"
  by (auto simp: server_current_tcp_out_def Let_def bind_eq_Some_conv split: prod.splits if_splits dest!: close_conn_kept)

section \<open>The rest of the hardware\<close>

text \<open>
  The registers of timer 3, the port direction of the LEDs and the repetitive interrupt timer
  have nothing to do with the card.
\<close>

definition other_regs :: "reg set" where
  "other_regs = {TIM_PC 3, TIM_TC 3, FIODIR 2, RIT_CTRL}"

locale gateway_card = sd_card m exch ready blocks capacity
  for m :: "'d mmio" and exch :: "u8 \<Rightarrow> 'd \<Rightarrow> u8 \<times> 'd" and ready :: "'d \<Rightarrow> bool" and blocks :: "'d \<Rightarrow> nat \<Rightarrow> u8 list" and capacity :: nat +
  assumes other_wr: "r \<in> other_regs \<Longrightarrow> ready d \<Longrightarrow> ready (wr m r v d) \<and> blocks (wr m r v d) = blocks d"
    and other_rd: "r \<in> other_regs \<Longrightarrow> ready d \<Longrightarrow> rd m r d = (x, d') \<Longrightarrow> ready d' \<and> blocks d' = blocks d"
begin

lemma other_or: "r \<in> other_regs \<Longrightarrow> ready d \<Longrightarrow> ready (reg_or m r v d) \<and> blocks (reg_or m r v d) = blocks d"
  using other_rd [of r d] other_wr [of r] by (auto simp: reg_or_def split: prod.splits)

lemma other_and: "r \<in> other_regs \<Longrightarrow> ready d \<Longrightarrow> ready (reg_and m r v d) \<and> blocks (reg_and m r v d) = blocks d"
  using other_rd [of r d] other_wr [of r] by (auto simp: reg_and_def split: prod.splits)

lemma good_upload_done_step:
  assumes "mem_ok ready capacity s" "good_upload_done m s = Some t"
  shows "mem_ok ready capacity t" "store_step (mem_queue blocks s) (mem_queue blocks t)"
proof -
  have "mem_ok ready capacity t \<and> store_step (mem_queue blocks s) (mem_queue blocks t)"
  proof (cases "mem_avail s")
    case True
    from disk.good_upload_done_queue [OF assms(1) True] assms(2) have "mem_ok ready capacity t" "mem_queue blocks t = tl (mem_queue blocks s)"
      by auto
    then show ?thesis using step_done [of "mem_queue blocks s"] disk.mem_avail_queue [OF assms(1)] True by simp
  next
    case False
    then have u: "store_step (mem_queue blocks s) (mem_queue blocks t)"
      using disk.mem_avail_queue [OF assms(1)] by (intro step_underflow) simp
    define n where "n = next_block s (read_index (memory_indexes s))"
    let ?s = "s\<lparr>memory_indexes := (memory_indexes s)\<lparr>read_index := n\<rparr>\<rparr>"
    note ok = assms(1) [unfolded mem_ok_def]
    have "0 < capacity" using ok card_size_nat [of s] by simp
    from disk.put_memory_indexes_ok [OF _ this, of ?s "memory_indexes ?s"] ok obtain d where
      d: "put_memory_indexes m (memory_indexes ?s) ?s =
        Some (1, ?s\<lparr>indexes_buf := bytes_of_words (index_words (memory_indexes ?s)), hwst := d\<rparr>)" "ready d" by auto
    have "is_block_valid s n" using ok next_block_valid n_def by blast
    then have "mem_ok ready capacity (?s\<lparr>indexes_buf := ib, hwst := d\<rparr>)" "mem_ok ready capacity ?s" for ib
      using ok d(2) by (simp_all add: mem_ok_def is_block_valid_def card_size_ok_def disk_sectors_def)
    then have "mem_ok ready capacity t"
      using assms(2) d(1) by (auto simp: good_upload_done_def Let_def n_def [symmetric] split: if_splits)
    with u show ?thesis by simp
  qed
  then show "mem_ok ready capacity t" "store_step (mem_queue blocks s) (mem_queue blocks t)" by blast+
qed

lemma upload_done_keeps:
  "good_upload_done m s = Some t \<Longrightarrow> write_block t = write_block s \<and> rf212_radif t = rf212_radif s \<and> server_tcp t = server_tcp s"
  by (auto simp: good_upload_done_def put_memory_indexes_def Let_def bind_eq_Some_conv split: if_splits)

lemma upload_done_effect: "good_upload_done m s = Some t \<Longrightarrow> net_effect ready blocks capacity s t"
  using upload_done_keeps [of s t] good_upload_done_step [of s t] by (auto simp: net_effect_def net_ok_def)

lemma parse_effect: "parse_http_response_buffer m cs s = Some t \<Longrightarrow> net_effect ready blocks capacity s t"
proof (induction cs arbitrary: s)
  case (Cons c cs)
  let ?s1 = "s\<lparr>good_index := good_index s + 1\<rparr>"
  from Cons.prems obtain u where
    u: "(if c \<noteq> good ! unat (good_index s) then Some (?s1\<lparr>good_index := 0\<rparr>)
         else if good_index ?s1 = good_len then do { s \<leftarrow> good_upload_done m ?s1; Some (s\<lparr>good_index := 0\<rparr>) }
         else Some ?s1) = Some u"
      "parse_http_response_buffer m cs (if c \<noteq> bad ! unat (bad_index u) then u\<lparr>bad_index := 0\<rparr>
         else if bad_index u = bad_len then u\<lparr>bad_index := 0\<rparr> else u) = Some t"
    by (auto simp: Let_def bind_eq_Some_conv)
  have "net_effect ready blocks capacity ?s1 u"
    using u(1)
    by (auto simp: bind_eq_Some_conv split: if_splits intro: net_effect_kept net_effect_upd dest!: upload_done_effect)
  moreover have "net_effect ready blocks capacity s ?s1" by (rule net_effect_kept) simp
  moreover have "net_effect ready blocks capacity u (if c \<noteq> bad ! unat (bad_index u) then u\<lparr>bad_index := 0\<rparr>
         else if bad_index u = bad_len then u\<lparr>bad_index := 0\<rparr> else u)"
    by (rule net_effect_kept) simp
  ultimately show ?case using Cons.IH [OF u(2)] by (meson net_effect_trans)
qed simp

lemma chain_effect: "parse_chain m ps s = Some t \<Longrightarrow> net_effect ready blocks capacity s t"
  by (induction ps arbitrary: s) (auto simp: bind_eq_Some_conv dest!: parse_effect intro: net_effect_trans)

lemma recv_effect: "server_tcp_recv m L arg pcb p err s = Some (e, t) \<Longrightarrow> net_effect ready blocks capacity s t"
  by (auto simp: server_tcp_recv_def Let_def bind_eq_Some_conv split: option.splits if_splits
      dest!: close_conn_kept chain_effect intro: net_effect_kept net_effect_upd)

text \<open>The next record lies within the card when the cursor is in order.\<close>

lemma get_sample_net:
  assumes "net_ok ready capacity s" "unat b < capacity" "get_sample m b s = Some (r, t)"
  shows "net_ok ready capacity t" "mem_queue blocks t = mem_queue blocks s" "server_tcp t = server_tcp s"
    "write_block t = write_block s" "rf212_radif t = rf212_radif s" "net t = net s"
proof -
  from disk.get_sample_effect [of s b] assms obtain d buf where
    g: "t = s\<lparr>hwst := d, mem_buf := buf\<rparr>" "ready d" "blocks d = blocks (hwst s)" "length buf = 6"
    by (auto simp: net_ok_def)
  then show "net_ok ready capacity t" "mem_queue blocks t = mem_queue blocks s" "server_tcp t = server_tcp s"
    "write_block t = write_block s" "rf212_radif t = rf212_radif s" "net t = net s"
    using assms(1) by (simp_all add: net_ok_def mem_ok_def is_block_valid_def card_size_ok_def disk_sectors_def mem_queue_def mem_ring_def)
qed

lemma get_sample_shape: "get_sample m b s = Some (r, t) \<Longrightarrow> \<exists>d buf. t = s\<lparr>hwst := d, mem_buf := buf\<rparr>"
  by (auto simp: get_sample_def Let_def bind_eq_Some_conv split: if_splits)

lemma put_text_cursor: "put_text text ss = Some ss' \<Longrightarrow> cursor ss' = cursor ss"
  by (auto simp: put_text_def split: if_splits)

lemma cursor_next:
  assumes "cursor_ok capacity (ph, i, n, b)" "ph \<le> OP_JSON_DATA" "i < n"
  shows "unat b < capacity" "cursor_ok capacity (ph, i + 1, n, b + 1)"
proof -
  have b: "unat b + (unat n - unat i) \<le> capacity" using assms by simp
  have i: "unat i < unat n" using assms(3) by (simp add: word_less_nat_alt)
  then show lt: "unat b < capacity" using b by linarith
  have "unat (b + 1) = unat b + 1"
    using lt disk.disk_capacity by (subst unat_add_lem [THEN iffD1]) simp_all
  moreover have "unat i + 1 < 65536" using i unat_u16_lt [of n] by linarith
  then have "unat (i + 1) = unat i + 1" by (subst unat_add_lem [THEN iffD1]) simp_all
  ultimately show "cursor_ok capacity (ph, i + 1, n, b + 1)" using b i by (auto simp: word_less_nat_alt)
qed

lemma net_effect_cursor:
  assumes "store_kept s (t\<lparr>server_tcp := server_tcp s\<rparr>)" "cursor_ok capacity (cursor (server_tcp s)) \<Longrightarrow> cursor_ok capacity (cursor (server_tcp t))"
  shows "net_effect ready blocks capacity s t"
  using assms by (auto simp: store_kept_def net_effect_def net_ok_def mem_ok_def is_block_valid_def card_size_ok_def
      disk_sectors_def mem_queue_def mem_ring_def)

lemma select_record_effect:
  assumes "ss_output_phase (server_tcp s) = OP_JSON_DATA" "ss_records_index (server_tcp s) < ss_records_count (server_tcp s)"
    "select_block m L s = Some t"
  shows "net_effect ready blocks capacity s t"
proof -
  let ?ss = "server_tcp s"
  let ?i = "ss_records_index ?ss" and ?b = "ss_mem_output_index ?ss"
  let ?ss1 = "?ss\<lparr>ss_records_index := ?i + 1, ss_mem_output_index := ?b + 1\<rparr>"
  from assms obtain r u ss2 where
    g: "get_sample m ?b s = Some (r, u)" and p: "put_text (json_element r (?i + 1 < ss_records_count ?ss)) ?ss1 = Some ss2"
    and t: "t = u\<lparr>server_tcp := ss2\<rparr>"
    by (auto simp: select_block_def Let_def bind_eq_Some_conv)
  have c: "cursor (server_tcp t) = (OP_JSON_DATA, ?i + 1, ss_records_count ?ss, ?b + 1)"
    using put_text_cursor [OF p] assms(1) by (simp add: t cursor_def)
  obtain d buf where u: "u = s\<lparr>hwst := d, mem_buf := buf\<rparr>" using get_sample_shape [OF g] by blast
  have "net_ok ready capacity t \<and> store_step\<^sup>*\<^sup>* (mem_queue blocks s) (mem_queue blocks t)" if ok: "net_ok ready capacity s"
  proof -
    have "cursor_ok capacity (OP_JSON_DATA, ?i, ss_records_count ?ss, ?b)" using ok assms(1) by (simp add: net_ok_def cursor_def)
    note n = cursor_next [OF this order_refl assms(2)]
    note k = get_sample_net [OF ok n(1) g]
    have "net_ok ready capacity t" using k(1) n(2) c unfolding net_ok_def by (simp add: t)
    moreover have "mem_queue blocks t = mem_queue blocks s" using k(2) by (simp add: t mem_queue_def mem_ring_def)
    ultimately show ?thesis by simp
  qed
  then show ?thesis by (simp add: net_effect_def t u)
qed

lemma select_effect:
  assumes "select_block m L s = Some t"
  shows "net_effect ready blocks capacity s t"
proof (cases "ss_output_phase (server_tcp s) = OP_JSON_DATA \<and> ss_records_index (server_tcp s) < ss_records_count (server_tcp s)")
  case True
  then show ?thesis using select_record_effect assms by blast
next
  case False
  then show ?thesis using assms
    by (auto simp: select_block_def Let_def bind_eq_Some_conv next_phase_def phase_order split: if_splits option.splits prod.splits
        intro!: net_effect_cursor dest!: put_text_cursor simp: store_kept_def cursor_def)
qed

lemma out_effect: "server_tcp_out m L pcb s = Some t \<Longrightarrow> net_effect ready blocks capacity s t"
proof -
  assume o: "server_tcp_out m L pcb s = Some t"
  show ?thesis
  proof (cases "ss_connected (server_tcp s) \<noteq> 0")
    case True
    with o obtain e s1 where 1: "server_current_tcp_out L pcb s = Some (e, s1)"
      "if e \<noteq> 0 then do { s2 \<leftarrow> select_block m L (s1\<lparr>server_tcp := (server_tcp s1)\<lparr>ss_current_pos := 0, ss_current_len := 0\<rparr>\<rparr>);
         (_, s3) \<leftarrow> server_current_tcp_out L pcb s2; Some s3 } = Some t else s1 = t"
      by (auto simp: server_tcp_out_def Let_def bind_eq_Some_conv split: if_splits)
    note e1 = net_effect_kept [OF current_out_kept [OF 1(1)]]
    show ?thesis
    proof (cases "e \<noteq> 0")
      case False
      with 1(2) e1 show ?thesis by simp
    next
      case True
      let ?s1 = "s1\<lparr>server_tcp := (server_tcp s1)\<lparr>ss_current_pos := 0, ss_current_len := 0\<rparr>\<rparr>"
      from True 1(2) obtain s2 r where 2: "select_block m L ?s1 = Some s2" "server_current_tcp_out L pcb s2 = Some (r, t)"
        by (auto simp: bind_eq_Some_conv)
      have "net_effect ready blocks capacity s ?s1" using net_effect_upd [OF e1] by simp
      then show ?thesis
        using net_effect_trans select_effect [OF 2(1)] net_effect_kept [OF current_out_kept [OF 2(2)]] by blast
    qed
  qed (use o in \<open>simp add: server_tcp_out_def\<close>)
qed

lemma sent_effect: "server_tcp_sent m L arg pcb len s = Some (e, t) \<Longrightarrow> net_effect ready blocks capacity s t"
  by (auto simp: server_tcp_sent_def bind_eq_Some_conv split: if_splits dest: out_effect)

lemma service_effect: "server_tcp_service m L s = Some t \<Longrightarrow> net_effect ready blocks capacity s t"
  by (auto simp: server_tcp_service_def split: if_splits option.splits dest: out_effect)

lemma ntp_set_effect: "net_effect ready blocks capacity s (ntp_set_current_time m secs us s)"
proof -
  let ?f = "\<lambda>d. wr m (TIM_TC 3) secs (wr m (TIM_PC 3) (25 * us) d)"
  have "net_effect ready blocks capacity s (s\<lparr>hwst := ?f (hwst s)\<rparr>)"
    by (rule net_effect_hw) (simp add: other_wr other_regs_def)
  moreover have "store_kept (s\<lparr>hwst := ?f (hwst s)\<rparr>) (ntp_set_current_time m secs us s)"
    by (simp add: ntp_set_current_time_def set_last_recorded_time_def store_kept_def Let_def)
  ultimately show ?thesis by (rule net_effect_upd)
qed

lemma sntp_recv_effect:
  assumes "sntp_recv m L p ad port s = Some t"
  shows "net_effect ready blocks capacity s t"
proof -
  let ?s = "sys_untimeout Sntp_request 0 (sys_untimeout Sntp_retry 0 s)"
  let ?s1 = "?s\<lparr>net := pbuf_free L p (net ?s)\<rparr>"
  obtain err ts where c: "sntp_check p ad port ?s = (err, ts)" by (rule prod.exhaust)
  have k: "store_kept s ?s1" by (simp add: sys_untimeout_def)
  show ?thesis
  proof (cases "err = ERR_OK")
    case True
    let ?s2 = "sntp_process m ts (?s1\<lparr>sntp_retry_timeout := SNTP_RETRY_TIMEOUT\<rparr>)"
    have "net_effect ready blocks capacity s ?s2"
      using net_effect_trans [OF net_effect_kept ntp_set_effect, of s "?s1\<lparr>sntp_retry_timeout := SNTP_RETRY_TIMEOUT\<rparr>"] k
      by (simp add: sntp_process_def Let_def)
    moreover have "sys_timeout SNTP_UPDATE_DELAY Sntp_request 0 ?s2 = Some t"
      using assms c True by (simp add: sntp_recv_def Let_def)
    ultimately show ?thesis using net_effect_upd sys_timeout_kept by blast
  next
    case False
    then have "sntp_retry ?s1 = Some t" using assms c by (simp add: sntp_recv_def Let_def)
    then show ?thesis using k kept_trans net_effect_kept sntp_retry_kept by blast
  qed
qed

lemma call_event_effect: "call_event m L ev s = Some (r, t) \<Longrightarrow> net_effect ready blocks capacity s t"
  by (cases ev)
    (auto simp: call_event_def server_tcp_poll_def dest!: connected_kept server_err_kept sntp_dns_found_kept netif_status_kept timer_needed_kept
      intro: net_effect_kept sent_effect recv_effect sntp_recv_effect)

lemma run_events_effect:
  assumes "run_events m L s = Some t"
  shows "net_effect ready blocks capacity s t"
proof -
  have "m' = m \<longrightarrow> net_effect ready blocks capacity s t" if "run_events m' L s = Some t" for m' L s t
    using that
  proof (rule run_events.raw_induct [where P = "\<lambda>m' L s t. m' = m \<longrightarrow> net_effect ready blocks capacity s t", rotated])
    fix f m' L s t
    assume IH: "\<And>m' L s t. f m' L s = Some t \<Longrightarrow> m' = m \<longrightarrow> net_effect ready blocks capacity s t"
      and b: "(case next_event L (net s) of None \<Rightarrow> Some s | Some (ev, n) \<Rightarrow> do {
          (r, s) \<leftarrow> call_event m' L ev (s\<lparr>net := n\<rparr>); f m' L (s\<lparr>net := event_result L r (net s)\<rparr>) }) = Some t"
    show "m' = m \<longrightarrow> net_effect ready blocks capacity s t"
    proof
      assume m: "m' = m"
      show "net_effect ready blocks capacity s t"
      proof (cases "next_event L (net s)")
        case None
        with b show ?thesis by simp
      next
        case (Some x)
        then obtain ev n where x: "next_event L (net s) = Some (ev, n)" by (cases x) auto
        with b obtain r s1 where 1: "call_event m L ev (s\<lparr>net := n\<rparr>) = Some (r, s1)" "f m L (s1\<lparr>net := event_result L r (net s1)\<rparr>) = Some t"
          by (auto simp: m bind_eq_Some_conv)
        have "net_effect ready blocks capacity s (s\<lparr>net := n\<rparr>)" "net_effect ready blocks capacity s1 (s1\<lparr>net := event_result L r (net s1)\<rparr>)"
          by (simp_all add: net_effect_kept)
        then show ?thesis using call_event_effect [OF 1(1)] IH [OF 1(2)] net_effect_trans by blast
      qed
    qed
  qed
  then show ?thesis using assms by blast
qed

lemma run_activity_effect: "run_activity m L a s = Some t \<Longrightarrow> net_effect ready blocks capacity s t"
  unfolding run_activity_def by (rule net_effect_trans [OF net_effect_kept run_events_effect]) simp_all

lemma then_timeout_effect:
  assumes "do { s \<leftarrow> run_activity m L a s; sys_timeout ms h 0 s } = Some t"
  shows "net_effect ready blocks capacity s t"
  using assms by (auto simp: bind_eq_Some_conv dest!: run_activity_effect sys_timeout_kept intro: net_effect_upd)

lemma call_timeout_effect:
  assumes "call_timeout m L h arg s = Some t"
  shows "net_effect ready blocks capacity s t"
proof (cases h)
  case Tcpip_tcp_timer
  then show ?thesis using assms
    by (auto simp: call_timeout_def tcpip_tcp_timer_def bind_eq_Some_conv split: if_splits
        dest!: run_activity_effect sys_timeout_kept intro: net_effect_upd)
qed (use assms in \<open>auto simp: call_timeout_def ip_reass_timer_def arp_timer_def dhcp_timer_coarse_def dhcp_timer_fine_def dns_timer_def
    dest: then_timeout_effect sntp_request_kept sntp_retry_kept intro: net_effect_kept\<close>)

lemma check_loop_effect:
  assumes "check_loop (call_timeout m L) now diff s = Some t"
  shows "net_effect ready blocks capacity s t"
proof -
  have "call = call_timeout m L \<longrightarrow> net_effect ready blocks capacity s t" if "check_loop call now diff s = Some t" for call now diff s t
    using that
  proof (rule check_loop.raw_induct [where P = "\<lambda>call now diff s t. call = call_timeout m L \<longrightarrow> net_effect ready blocks capacity s t", rotated])
    fix f call now diff s t
    assume IH: "\<And>call now diff s t. f call now diff s = Some t \<Longrightarrow> call = call_timeout m L \<longrightarrow> net_effect ready blocks capacity s t"
      and b: "(case next_timeout s of [] \<Rightarrow> None
        | x # ts \<Rightarrow> if timeo_time x \<le> diff then do {
            s \<leftarrow> call (timeo_h x) (timeo_arg x) (s\<lparr>timeouts_last_time := now, next_timeout := ts\<rparr>);
            f call now (diff - timeo_time x) s } else Some s) = Some t"
    show "call = call_timeout m L \<longrightarrow> net_effect ready blocks capacity s t"
    proof
      assume c: "call = call_timeout m L"
      from b obtain x ts where x: "next_timeout s = x # ts" by (auto split: list.splits)
      show "net_effect ready blocks capacity s t"
      proof (cases "timeo_time x \<le> diff")
        case True
        let ?s = "s\<lparr>timeouts_last_time := now, next_timeout := ts\<rparr>"
        from True b x c obtain s1 where 1: "call_timeout m L (timeo_h x) (timeo_arg x) ?s = Some s1" "f call now (diff - timeo_time x) s1 = Some t"
          by (auto simp: bind_eq_Some_conv)
        have "net_effect ready blocks capacity s ?s" by (simp add: net_effect_kept)
        then show ?thesis using call_timeout_effect [OF 1(1)] IH [OF 1(2)] c net_effect_trans by blast
      qed (use b x in simp)
    qed
  qed
  then show ?thesis using assms by blast
qed

lemma check_timeouts_effect: "sys_check_timeouts (call_timeout m L) s = Some t \<Longrightarrow> net_effect ready blocks capacity s t"
  by (auto simp: sys_check_timeouts_def Let_def split: if_splits dest: check_loop_effect)

lemma bind_loop_kept: "bind_loop L pcb i s = (e, t) \<Longrightarrow> store_kept s t \<and> server_tcp t = server_tcp s"
  by (induction L pcb i s rule: bind_loop.induct) (auto simp: Let_def EPHEMERAL_PORT_def split: prod.splits if_splits)

lemma server_tcp_init_cursor:
  assumes "server_tcp_init L host ip port auth start cnt cb s = Some (e, t)"
  shows "store_kept s (t\<lparr>server_tcp := server_tcp s\<rparr>)"
    "cursor (server_tcp t) = (if 0 < cnt then (0, 0, cnt, start) else cursor (server_tcp s))"
proof -
  have "store_kept s (t\<lparr>server_tcp := server_tcp s\<rparr>) \<and>
      cursor (server_tcp t) = (if 0 < cnt then (0, 0, cnt, start) else cursor (server_tcp s))"
    using assms
    by (auto simp: server_tcp_init_def start_connect_def Let_def bind_eq_Some_conv cursor_def cleared_server_def
        split: if_splits prod.splits option.splits dest!: bind_loop_kept timer_needed_kept simp: store_kept_def)
  then show "store_kept s (t\<lparr>server_tcp := server_tcp s\<rparr>)"
    "cursor (server_tcp t) = (if 0 < cnt then (0, 0, cnt, start) else cursor (server_tcp s))" by blast+
qed

lemma start_upload_effect:
  assumes "couchdb_start_upload m L ip s = Some t"
  shows "net_effect ready blocks capacity s t"
proof -
  obtain n s1 where g: "get_blocks_to_read m s = (n, s1)" by (rule prod.exhaust)
  from assms g obtain e u where
    u: "server_tcp_init L couchdb_server_address ip 5984 couchdb_server_auth (read_index (memory_indexes s)) n (Some Upload_end) s1 = Some (e, u)"
      "t = (if e \<noteq> ERR_OK then upload_end u else u)"
    by (auto simp: couchdb_start_upload_def get_current_read_block_def Let_def bind_eq_Some_conv)
  have s1: "\<exists>d. s1 = s\<lparr>hwst := d\<rparr>"
  proof -
    have "s1 = s \<or> (\<exists>d. s1 = s\<lparr>hwst := d\<rparr>)"
      using g by (auto simp: get_blocks_to_read_def Let_def split: if_splits prod.splits)
    moreover have "s = s\<lparr>hwst := hwst s\<rparr>" by simp
    ultimately show ?thesis by metis
  qed
  have "net_effect ready blocks capacity s s1"
  proof -
    have "mem_ok ready capacity s1 \<and> mem_queue blocks s1 = mem_queue blocks s" if "mem_ok ready capacity s"
      using get_blocks_state [OF card_disk that g] that
      by (auto simp: mem_ok_def is_block_valid_def card_size_ok_def disk_sectors_def mem_queue_def mem_ring_def)
    then show ?thesis using s1 by (auto simp: net_effect_def net_ok_def)
  qed
  moreover have "net_effect ready blocks capacity s1 u" if "net_ok ready capacity s"
  proof (rule net_effect_cursor)
    show "store_kept s1 (u\<lparr>server_tcp := server_tcp s1\<rparr>)" by (rule server_tcp_init_cursor(1) [OF u(1)])
    assume c: "cursor_ok capacity (cursor (server_tcp s1))"
    show "cursor_ok capacity (cursor (server_tcp u))"
    proof (cases "0 < n")
      case True
      have "job_ok capacity (queue_job blocks m 0 [] s)" "length (job_records (queue_job blocks m 0 [] s)) = unat n"
        using queue_job_ok [of ready capacity s m] that True g by (simp_all add: net_ok_def)
      then have "unat (read_index (memory_indexes s)) + unat n \<le> capacity" by (simp add: job_ok_def) (simp add: queue_job_def)
      then show ?thesis using True server_tcp_init_cursor(2) [OF u(1)] by simp
    next
      case False
      then show ?thesis using c server_tcp_init_cursor(2) [OF u(1)] by simp
    qed
  qed
  ultimately have "net_effect ready blocks capacity s u" if "net_ok ready capacity s" using that net_effect_trans by blast
  moreover have "write_block u = write_block s \<and> rf212_radif u = rf212_radif s"
    using server_tcp_init_cursor(1) [OF u(1)] s1 by (auto simp: store_kept_def)
  ultimately have "net_effect ready blocks capacity s u" by (auto simp: net_effect_def)
  then show ?thesis by (rule net_effect_upd) (simp add: u(2) upload_end_def)
qed

lemma upload_effect: "upload m L s = Some t \<Longrightarrow> net_effect ready blocks capacity s t"
proof -
  assume u: "upload m L s = Some t"
  have "net_effect ready blocks capacity s t"
    if "couchdb_start_upload m L ip (s\<lparr>upload_active := 0xF, couchdb_ip := ip\<rparr>) = Some t" for ip
    by (rule net_effect_trans [OF net_effect_kept start_upload_effect [OF that]]) simp
  with u show ?thesis
    by (auto simp: upload_def upload_end_def Let_def split: if_splits option.splits intro!: net_effect_kept)
qed

lemma net_service_effect:
  assumes "net_service m L s = Some t"
  shows "net_effect ready blocks capacity s t"
proof -
  from assms obtain stat n s1 s2 s3 s4 where
    1: "(if stat \<noteq> -1 then run_activity m L Lpc_enetif_input (s\<lparr>net := n, rx_queue_stat := stat\<rparr>)
         else Some (s\<lparr>net := n, rx_queue_stat := stat\<rparr>)) = Some s1"
    and 2: "sys_check_timeouts (call_timeout m L) (s1\<lparr>net := lpc_tx_reclaim L (net s1)\<rparr>) = Some s2"
    and 3: "run_activity m L Lpc_phy_sts_sm s2 = Some s3"
    and 4: "upload m L (if activity_result L (net s3) \<noteq> 0 then
                     (if netif_flags L (net s3) AND NETIF_FLAG_LINK_UP \<noteq> 0 then s3\<lparr>hwst := GREEN_ON m (hwst s3)\<rparr>
                      else s3\<lparr>hwst := GREEN_OFF m (hwst s3)\<rparr>) else s3) = Some s4"
    and 5: "server_tcp_service m L s4 = Some t"
    by (auto simp: net_service_def Let_def bind_eq_Some_conv)
  let ?s0 = "s\<lparr>net := n, rx_queue_stat := stat\<rparr>"
  have k0: "store_kept s ?s0" by (simp add: store_kept_def)
  have "net_effect ready blocks capacity ?s0 s1" using 1 by (auto split: if_splits dest: run_activity_effect)
  then have a: "net_effect ready blocks capacity s (s1\<lparr>net := lpc_tx_reclaim L (net s1)\<rparr>)"
    using net_effect_trans [OF net_effect_kept [OF k0]] net_effect_upd by fastforce
  have "net_effect ready blocks capacity s3 (if activity_result L (net s3) \<noteq> 0 then
                     (if netif_flags L (net s3) AND NETIF_FLAG_LINK_UP \<noteq> 0 then s3\<lparr>hwst := GREEN_ON m (hwst s3)\<rparr>
                      else s3\<lparr>hwst := GREEN_OFF m (hwst s3)\<rparr>) else s3)"
    using net_effect_hw [of ready "GREEN_ON m" blocks capacity s3] net_effect_hw [of ready "GREEN_OFF m" blocks capacity s3]
      other_or [of "FIODIR 2"] other_and [of "FIODIR 2"]
    by (simp add: GREEN_ON_def GREEN_OFF_def other_regs_def)
  then show ?thesis
    using a check_timeouts_effect [OF 2] run_activity_effect [OF 3] upload_effect [OF 4] service_effect [OF 5] net_effect_trans
    by blast
qed

end

section \<open>The radio service leaves the connection alone\<close>

lemma put_sample_server: "put_sample m b s = Some (r, t) \<Longrightarrow> server_tcp t = server_tcp s"
  by (auto simp: put_sample_def put_memory_indexes_def Let_def split: bind_splits prod.splits if_splits)

lemma rf212_send_server: "rf212_send m f len dest ack s = Some t \<Longrightarrow> server_tcp t = server_tcp s"
  by (auto simp: rf212_send_def bind_eq_Some_conv)

lemma get_current_time_server: "server_tcp (snd (get_current_time m s)) = server_tcp s"
  by (simp add: get_current_time_def Let_def split: prod.splits)

lemma write_sample_server: "write_sample_to_mem m f a b c s = Some t \<Longrightarrow> server_tcp t = server_tcp s"
  by (auto simp: write_sample_to_mem_def get_current_time_def Let_def bind_eq_Some_conv split: prod.splits dest!: put_sample_server)

lemma rx_callback_server: "rf212_rx_callback m rx s = Some t \<Longrightarrow> server_tcp t = server_tcp s"
  using get_current_time_server [of m s] get_current_time_server [of m "snd (get_current_time m s)"]
  by (auto simp: rf212_rx_callback_def radio_debug_frame_def radio_timereq_frame_def block_uploaded_def send_upload_ack_def print_current_time_def
      Let_def bind_eq_Some_conv split: if_splits prod.splits dest!: rf212_send_server put_sample_server write_sample_server)

lemma radif_service_server: "radif_service m s = Some t \<Longrightarrow> server_tcp t = server_tcp s"
proof (rule radif_service.raw_induct [where P = "\<lambda>m s t. server_tcp t = server_tcp s"])
  fix f m s t
  assume IH: "\<And>m s t. f m s = Some t \<Longrightarrow> server_tcp t = server_tcp s"
    and b: "(let r = rf212_radif s in if RxConsumeIndex r \<noteq> RxProduceIndex r then (case rx_callback r of None \<Rightarrow> f m s
      | Some g \<Rightarrow> (let index = RxConsumeIndex r in do { s \<leftarrow> call_rx_callback m g (RxFrames r ! unat index) s;
          f m (s\<lparr>rf212_radif := (rf212_radif s)\<lparr>RxConsumeIndex := frame_next index\<rparr>\<rparr>) })) else Some s) = Some t"
  then show "server_tcp t = server_tcp s"
    by (auto simp: Let_def bind_eq_Some_conv call_rx_callback_def split: if_splits option.splits rx_callback_func.splits
        dest!: rx_callback_server IH)
qed

section \<open>Properties\<close>


interpretation gc: gateway_card card_mmio card_exch card_ready store "0x800000"
  by unfold_locales (auto simp: card_mmio_def card_wr_def card_rd_def card_ready_def other_regs_def)

text \<open>A gateway between two uploads, with two received frames waiting.\<close>

definition sample_main :: "(rcard, string) mainst" where
  "sample_main = serverst.extend (sample_server\<lparr>server_tcp := cleared_server, upload_countdown := 5\<rparr>)
     \<lparr>SystemCoreClock = 100000000, rx_queue_stat = 0\<rparr>"

lemma sample_main_fields:
  "net sample_main = []" "next_timeout sample_main = []" "upload_countdown sample_main = 5" "server_tcp sample_main = cleared_server"
  "rf212_radif sample_main = rf212_radif sample_gateway" "write_block sample_main = write_block sample_gateway"
  "sectors sample_main = sectors sample_gateway" "mem_buf sample_main = mem_buf sample_gateway"
  "memory_indexes sample_main = memory_indexes sample_gateway" "hwst sample_main = hwst sample_gateway"
  by (simp_all add: sample_main_def serverst.defs sample_server_def sntpst.defs sample_sntp_def lwipst.defs open_net_def gwst.defs
      sample_gateway_def rxst.defs sample_rx_def writest.defs sample_writer_def timest.defs sample_clock_def memst.defs sample_store_def)

lemma sample_gateway_gw: "gw_ok card_ready store 0x800000 sample_gateway"
  unfolding gw_ok_def using sample_gateway_ok
  by (simp add: sample_gateway_def sample_rx_def sample_writer_def rxst.defs writest.defs timest.defs card_radif_def rx_ok_def blank_rx_def)

lemma sample_main_ok: "gw_ok card_ready store 0x800000 sample_main"
  using sample_gateway_gw
  by (simp add: gw_ok_def sample_main_fields mem_ok_def is_block_valid_def card_size_ok_def disk_sectors_def)

lemma sample_queues: "length (tx_queue (rf212_radif sample_gateway)) + length (rx_queue (rf212_radif sample_gateway)) = 2"
  by (simp add: sample_gateway_def rxst.defs card_radif_def rx_queue_def tx_queue_def ring_frames_def)

lemma sample_net_service:
  assumes "s = sample_main\<lparr>hwst := d\<rparr>"
  shows "\<exists>u. net_service card_mmio open_stack s = Some u"
  using assms
  by (simp add: net_service_def rx_requeue.simps run_activity_def run_events.simps open_stack_def sys_check_timeouts_def
      sample_main_fields upload_def server_tcp_service_def cleared_server_def Let_def)


end
