(* ===== verification/Spec2Isabelle.thy ===== *)
theory Spec2Isabelle
  imports Radio_Chip Lwip_Pbuf_Use Gw_Main
begin

text \<open>
  A verification development of the VLF gateway firmware.
\<close>

end
